(* ===== verification/Prelude.thy ===== *)
theory Prelude
  imports Main "HOL-Library.Word" "HOL-Library.Monad_Syntax"
begin

unbundle bit_operations_syntax

text \<open>
  Shared vocabulary of the development: the C integer types, the option discipline for
  undefined behaviour, the in-memory and on-the-wire layout of integers, the effect of a
  device-to-host transfer on a caller's buffer, and the collections that the component
  theories hand to the simplifier.

  A C computation that reads or writes the program state is a function into
  \<open>('a \<times> 's) option\<close>, written with the \<open>do\<close> syntax of the option monad.
  \<open>None\<close> stands for undefined behaviour (a null or dangling pointer, an access outside an
  array, a shift by the width of its operand or more); a C error return is an ordinary value.
\<close>

section \<open>Integer types and pointers\<close>

type_synonym u8 = "8 word"
type_synonym u16 = "16 word"
type_synonym u32 = "32 word"
type_synonym u64 = "64 word"

type_synonym ptr = nat

abbreviation (input) NULL :: ptr where
  "NULL \<equiv> 0"

lemma unat_of_nat_u32: "n < 2 ^ 32 \<Longrightarrow> unat (of_nat n :: u32) = n"
  by (simp add: unat_of_nat take_bit_nat_eq_self)

section \<open>Fact collections\<close>

named_theorems frame_simps \<open>what an operation leaves unchanged\<close>
named_theorems outcome_simps \<open>the outcome of an operation that is defined\<close>

section \<open>Undefined behaviour\<close>

definition ub_unless :: "bool \<Rightarrow> 's \<Rightarrow> (unit \<times> 's) option" where
  "ub_unless b s = (if b then Some ((), s) else None)"

lemma ub_unless_True [simp]: "ub_unless True s = Some ((), s)"
  by (simp add: ub_unless_def)

lemma ub_unless_False [simp]: "ub_unless False s = None"
  by (simp add: ub_unless_def)

lemma ub_unless_Some [simp]: "ub_unless b s = Some (u, t) \<longleftrightarrow> b \<and> t = s"
  by (auto simp: ub_unless_def)

lemma bind_pair_Some:
  "Option.bind m (\<lambda>(a, s). f a s) = Some r \<longleftrightarrow> (\<exists>a s. m = Some (a, s) \<and> f a s = Some r)"
  by (cases m) auto

section \<open>Little-endian encoding\<close>

primrec le_bytes :: "nat \<Rightarrow> 'a::len word \<Rightarrow> u8 list" where
  "le_bytes 0 x = []"
| "le_bytes (Suc n) x = ucast x # le_bytes n (drop_bit 8 x)"

primrec of_le :: "u8 list \<Rightarrow> 'a::len word" where
  "of_le [] = 0"
| "of_le (b # bs) = ucast b OR push_bit 8 (of_le bs)"

lemma length_le_bytes [simp]: "length (le_bytes n x) = n"
  by (induction n arbitrary: x) simp_all

lemma low_byte_or_rest:
  fixes x :: "'a::len word"
  shows "ucast (ucast x :: u8) OR push_bit 8 (take_bit m (drop_bit 8 x)) = take_bit (m + 8) x"
  by (rule bit_word_eqI) (auto simp: bit_simps)

lemma of_le_le_bytes: "of_le (le_bytes n x) = take_bit (8 * n) x"
proof (induction n arbitrary: x)
  case 0
  then show ?case by simp
next
  case (Suc n)
  then show ?case by (simp add: low_byte_or_rest algebra_simps)
qed

abbreviation le16 :: "u16 \<Rightarrow> u8 list" where
  "le16 x \<equiv> le_bytes 2 x"

abbreviation le32 :: "u32 \<Rightarrow> u8 list" where
  "le32 x \<equiv> le_bytes 4 x"

abbreviation le64 :: "u64 \<Rightarrow> u8 list" where
  "le64 x \<equiv> le_bytes 8 x"

lemma of_le_le16 [simp]: "of_le (le16 x) = x"
  by (simp add: of_le_le_bytes take_bit_word_eq_self)

lemma of_le_le32 [simp]: "of_le (le32 x) = x"
  by (simp add: of_le_le_bytes take_bit_word_eq_self)

lemma of_le_le64 [simp]: "of_le (le64 x) = x"
  by (simp add: of_le_le_bytes take_bit_word_eq_self)

lemma le_bytes_of_le:
  fixes bs :: "u8 list"
  assumes "8 * length bs \<le> LENGTH('a::len)"
  shows "le_bytes (length bs) (of_le bs :: 'a word) = bs"
  using assms
proof (induction bs)
  case Nil
  then show ?case by simp
next
  case (Cons b bs)
  let ?r = "of_le bs :: 'a word"
  have low: "(ucast (ucast b OR push_bit 8 ?r) :: u8) = b"
    using Cons.prems by (intro bit_word_eqI) (auto simp: bit_simps)
  have "?r = take_bit (8 * length bs) ?r"
    using Cons by (metis of_le_le_bytes add_leD2 length_Cons mult_Suc_right)
  then have high: "n < 8 * length bs" if "bit ?r n" for n
    using that by (metis bit_take_bit_iff)
  have "drop_bit 8 (ucast b OR push_bit 8 ?r) = ?r"
    using Cons.prems by (intro bit_word_eqI) (auto simp: bit_simps dest: high bit_imp_le_length)
  with low Cons show ?case by simp
qed

section \<open>Integers in the host's memory\<close>

text \<open>
  \<open>mem32 be x\<close> is the memory image of a \<open>uint32_t\<close> on a host whose byte order is given
  by the compile-time switch \<open>HACKRF_BIG_ENDIAN\<close> of hackrf.c (\<open>be\<close>), and
  \<open>TO_LE\<close> is the macro of lines 20 to 26.
\<close>

definition mem16 :: "bool \<Rightarrow> u16 \<Rightarrow> u8 list" where
  "mem16 be x = (if be then rev (le16 x) else le16 x)"

definition mem32 :: "bool \<Rightarrow> u32 \<Rightarrow> u8 list" where
  "mem32 be x = (if be then rev (le32 x) else le32 x)"

definition mem64 :: "bool \<Rightarrow> u64 \<Rightarrow> u8 list" where
  "mem64 be x = (if be then rev (le64 x) else le64 x)"

definition load16 :: "bool \<Rightarrow> u8 list \<Rightarrow> u16" where
  "load16 be bs = of_le (if be then rev bs else bs)"

definition load32 :: "bool \<Rightarrow> u8 list \<Rightarrow> u32" where
  "load32 be bs = of_le (if be then rev bs else bs)"

definition bswap32 :: "u32 \<Rightarrow> u32" where
  "bswap32 x = of_le (rev (le32 x))"

definition TO_LE :: "bool \<Rightarrow> u32 \<Rightarrow> u32" where
  "TO_LE be x = (if be then bswap32 x else x)"

lemma length_mem [simp]:
  "length (mem16 be x) = 2" "length (mem32 be y) = 4" "length (mem64 be z) = 8"
  by (simp_all add: mem16_def mem32_def mem64_def)

lemma load16_mem16 [simp]: "load16 be (mem16 be x) = x"
  by (simp add: load16_def mem16_def)

lemma load32_mem32 [simp]: "load32 be (mem32 be x) = x"
  by (simp add: load32_def mem32_def)

lemma le32_bswap32: "le32 (bswap32 x) = rev (le32 x)"
  using le_bytes_of_le [where bs = "rev (le32 x)" and 'a = 32]
  by (simp add: bswap32_def)

text \<open>The wire image of \<open>TO_LE\<close> does not depend on the host's byte order.\<close>

lemma mem32_TO_LE [simp]: "mem32 be (TO_LE be x) = le32 x"
  by (simp add: mem32_def TO_LE_def le32_bswap32)

lemma TO_LE_load32 [simp]: "length bs = 4 \<Longrightarrow> TO_LE be (load32 be bs) = of_le bs"
  using le_bytes_of_le [where bs = "rev bs" and 'a = 32]
  by (simp add: TO_LE_def load32_def bswap32_def)

section \<open>Writing into a caller's buffer\<close>

text \<open>
  \<open>overlay bs n buf\<close> is the buffer \<open>buf\<close> after at most \<open>n\<close> bytes of \<open>bs\<close> have been
  written at its start.
\<close>

definition overlay :: "u8 list \<Rightarrow> nat \<Rightarrow> u8 list \<Rightarrow> u8 list" where
  "overlay bs n buf = take n bs @ drop (length (take n bs)) buf"

lemma length_overlay [simp]: "n \<le> length buf \<Longrightarrow> length (overlay bs n buf) = length buf"
  by (auto simp: overlay_def)

lemma overlay_full [simp]: "length bs = n \<Longrightarrow> length buf = n \<Longrightarrow> overlay bs n buf = bs"
  by (simp add: overlay_def)

end
