(* ===== verification/Host.thy ===== *)
theory Host
  imports Prelude
begin

text \<open>
  The state that src/src/lib/hackrf/hackrf.c keeps (its globals, the heap of
  \<open>hackrf_device\<close> objects and the transfers allocated for them) and its environment: libusb,
  the C allocator, pthreads and the client's sample callback. None of the environment is under
  src/, so it is a parameter: a \<open>host\<close> answers every call as a function of all the calls made
  before it, which lets it answer the same call differently each time. The state records
  the calls made so far; the trace is what the outside world observes of the library.
\<close>

section \<open>Error codes of hackrf.h\<close>

datatype hackrf_error =
    HACKRF_SUCCESS
  | HACKRF_TRUE
  | HACKRF_ERROR_INVALID_PARAM
  | HACKRF_ERROR_NOT_FOUND
  | HACKRF_ERROR_BUSY
  | HACKRF_ERROR_NO_MEM
  | HACKRF_ERROR_LIBUSB
  | HACKRF_ERROR_THREAD
  | HACKRF_ERROR_STREAMING_THREAD_ERR
  | HACKRF_ERROR_STREAMING_STOPPED
  | HACKRF_ERROR_STREAMING_EXIT_CALLED
  | HACKRF_ERROR_USB_API_VERSION
  | HACKRF_ERROR_NOT_LAST_DEVICE
  | HACKRF_ERROR_OTHER

fun error_code :: "hackrf_error \<Rightarrow> int" where
  "error_code HACKRF_SUCCESS = 0"
| "error_code HACKRF_TRUE = 1"
| "error_code HACKRF_ERROR_INVALID_PARAM = -2"
| "error_code HACKRF_ERROR_NOT_FOUND = -5"
| "error_code HACKRF_ERROR_BUSY = -6"
| "error_code HACKRF_ERROR_NO_MEM = -11"
| "error_code HACKRF_ERROR_LIBUSB = -1000"
| "error_code HACKRF_ERROR_THREAD = -1001"
| "error_code HACKRF_ERROR_STREAMING_THREAD_ERR = -1002"
| "error_code HACKRF_ERROR_STREAMING_STOPPED = -1003"
| "error_code HACKRF_ERROR_STREAMING_EXIT_CALLED = -1004"
| "error_code HACKRF_ERROR_USB_API_VERSION = -1005"
| "error_code HACKRF_ERROR_NOT_LAST_DEVICE = -2000"
| "error_code HACKRF_ERROR_OTHER = -9999"

section \<open>Constants\<close>

definition TRANSFER_COUNT :: nat where
  "TRANSFER_COUNT = 4"

definition TRANSFER_BUFFER_SIZE :: nat where
  "TRANSFER_BUFFER_SIZE = 262144"

definition USB_MAX_SERIAL_LENGTH :: nat where
  "USB_MAX_SERIAL_LENGTH = 32"

definition USB_CONFIG_STANDARD :: int where
  "USB_CONFIG_STANDARD = 1"

definition hackrf_usb_vid :: u16 where
  "hackrf_usb_vid = 0x1d50"

definition hackrf_jawbreaker_usb_pid :: u16 where
  "hackrf_jawbreaker_usb_pid = 0x604b"

definition hackrf_one_usb_pid :: u16 where
  "hackrf_one_usb_pid = 0x6089"

definition rad1o_usb_pid :: u16 where
  "rad1o_usb_pid = 0xcc15"

text \<open>
  Values of libusb's public header that hackrf.c uses by name (the API is documented, its
  error codes are negative): success, interruption and "not supported".
\<close>

definition LIBUSB_SUCCESS :: int where
  "LIBUSB_SUCCESS = 0"

definition LIBUSB_ERROR_INTERRUPTED :: int where
  "LIBUSB_ERROR_INTERRUPTED = -10"

definition LIBUSB_ERROR_NOT_SUPPORTED :: int where
  "LIBUSB_ERROR_NOT_SUPPORTED = -12"

definition LIBUSB_TRANSFER_COMPLETED :: int where
  "LIBUSB_TRANSFER_COMPLETED = 0"

definition VENDOR_OUT :: u8 where
  "VENDOR_OUT = 0x00 OR 0x40 OR 0x00"

definition VENDOR_IN :: u8 where
  "VENDOR_IN = 0x80 OR 0x40 OR 0x00"

section \<open>Objects\<close>

datatype transfer_cb = No_callback | Hackrf_libusb_transfer_callback

text \<open>
  The fields of a \<open>struct libusb_transfer\<close> that hackrf.c writes. A buffer pointer into
  \<open>device->buffer\<close> is the device's address with the offset in the array.
\<close>

record usb_transfer =
  x_dev_handle :: ptr
  x_endpoint :: u8
  x_buffer :: "ptr \<times> nat"
  x_length :: nat
  x_callback :: transfer_cb
  x_user_data :: ptr
  x_timeout :: nat

text \<open>
  \<open>struct hackrf_device\<close>. \<open>transfers\<close> is \<open>None\<close> for the null pointer, else the array of
  pointers it refers to. The sample memory \<open>buffer\<close> is only addressed, through the
  transfers, and only written by libusb, so its content is no field.
\<close>

record hackrf_device =
  usb_device :: ptr
  transfers :: "ptr list option"
  callback :: ptr
  transfer_thread_started :: bool
  transfer_thread :: ptr
  streaming :: bool
  rx_ctx :: ptr
  tx_ctx :: ptr
  do_exit :: bool

text \<open>The argument that the library passes to a client's sample callback.\<close>

record hackrf_transfer =
  t_device :: ptr
  t_buffer :: "ptr \<times> nat"
  t_buffer_length :: nat
  t_valid_length :: int
  t_rx_ctx :: ptr
  t_tx_ctx :: ptr

record device_descriptor =
  idVendor :: u16
  idProduct :: u16
  bcdDevice :: u16
  iSerialNumber :: u8

section \<open>Calls out of the library\<close>

datatype call =
    Usb_init
  | Usb_exit ptr
  | Usb_get_device_list
  | Usb_free_device_list
  | Usb_get_device_descriptor ptr
  | Usb_get_own_descriptor ptr
  | Usb_open ptr
  | Usb_open_vid_pid u16 u16
  | Usb_close ptr
  | Usb_get_string_descriptor ptr u8 nat
  | Usb_get_configuration ptr
  | Usb_set_configuration ptr int
  | Usb_get_active_config_descriptor ptr
  | Usb_kernel_driver_active ptr nat
  | Usb_detach_kernel_driver ptr nat
  | Usb_claim_interface ptr int
  | Usb_release_interface ptr int
  | Usb_control ptr u8 u8 u16 u16 "u8 list" u16
  | Usb_bulk ptr u8 "u8 list" nat
  | Usb_alloc_transfer
  | Usb_submit_transfer ptr usb_transfer
  | Usb_cancel_transfer ptr
  | Usb_free_transfer ptr
  | Usb_handle_events
  | C_malloc
  | C_calloc
  | Pthread_create ptr
  | Pthread_join ptr
  | Sample_callback ptr hackrf_transfer

text \<open>
  An answer holds every kind of value a call can return; each call reads the part that
  belongs to it: a return code, whether a returned pointer is non-null, bytes written into
  the caller's buffer, an integer written through a pointer, the content of fresh memory, a
  descriptor, a list of devices, and the transfers that libusb reports as finished while it
  handles events, each with its status and its actual length.
\<close>

record reply =
  rc :: int
  ptr_ok :: bool
  bytes :: "u8 list"
  val :: int
  garbage :: "nat \<Rightarrow> ptr"
  desc :: device_descriptor
  devices :: "ptr list"
  completed :: "(ptr \<times> int \<times> int) list"

text \<open>
  A host: the byte order the library was compiled for, the indeterminate content of automatic
  variables that the code leaves uninitialised, and the answers to calls.
\<close>

record host =
  big_endian :: bool
  stack :: "nat \<Rightarrow> u8"
  answer :: "call list \<Rightarrow> call \<Rightarrow> reply"

section \<open>Library state\<close>

text \<open>
  The three globals of hackrf.c, the heap, and what libusb knows of the library's resources:
  the open handles and the transfers submitted and not yet completed.
\<close>

record lib =
  open_devices :: u16
  g_libusb_context :: ptr
  last_libusb_error :: int
  devs :: "ptr \<rightharpoonup> hackrf_device"
  xfers :: "ptr \<rightharpoonup> usb_transfer"
  handles :: "ptr set"
  active :: "ptr set"
  trace :: "call list"

definition init_lib :: lib where
  "init_lib = \<lparr>open_devices = 0, g_libusb_context = NULL, last_libusb_error = LIBUSB_SUCCESS,
     devs = Map.empty, xfers = Map.empty, handles = {}, active = {}, trace = []\<rparr>"

text \<open>A resource obtained by a call is named after the position of that call in the trace.\<close>

definition fresh :: "lib \<Rightarrow> ptr" where
  "fresh s = Suc (length (trace s))"

definition invoke :: "host \<Rightarrow> call \<Rightarrow> lib \<Rightarrow> (reply \<times> lib) option" where
  "invoke H c s = Some (answer H (trace s) c, s\<lparr>trace := trace s @ [c]\<rparr>)"

definition on_handle :: "host \<Rightarrow> ptr \<Rightarrow> call \<Rightarrow> lib \<Rightarrow> (reply \<times> lib) option" where
  "on_handle H h c s = (if h \<in> handles s then invoke H c s else None)"

definition fail_libusb :: "int \<Rightarrow> lib \<Rightarrow> (hackrf_error \<times> lib) option" where
  "fail_libusb e s = Some (HACKRF_ERROR_LIBUSB, s\<lparr>last_libusb_error := e\<rparr>)"

definition get_dev :: "ptr \<Rightarrow> lib \<Rightarrow> (hackrf_device \<times> lib) option" where
  "get_dev d s = (case devs s d of None \<Rightarrow> None | Some dv \<Rightarrow> Some (dv, s))"

definition mod_dev :: "ptr \<Rightarrow> (hackrf_device \<Rightarrow> hackrf_device) \<Rightarrow> lib \<Rightarrow> (unit \<times> lib) option" where
  "mod_dev d f s =
     (case devs s d of None \<Rightarrow> None | Some dv \<Rightarrow> Some ((), s\<lparr>devs := (devs s)(d \<mapsto> f dv)\<rparr>))"

definition libusb_open_handle :: "host \<Rightarrow> call \<Rightarrow> (reply \<Rightarrow> bool) \<Rightarrow> lib \<Rightarrow> ((reply \<times> ptr) \<times> lib) option" where
  "libusb_open_handle H c good s =
     do { (r, s') \<leftarrow> invoke H c s;
          Some (if good r then ((r, fresh s), s'\<lparr>handles := insert (fresh s) (handles s')\<rparr>)
                else ((r, NULL), s')) }"

text \<open>
  Closing a handle also drops the transfers that are still submitted on it: libusb reports none
  of them afterwards. (The comment in \<open>free_transfers\<close> shows that hackrf.c relies on this.)
\<close>

definition libusb_close :: "host \<Rightarrow> ptr \<Rightarrow> lib \<Rightarrow> (unit \<times> lib) option" where
  "libusb_close H h s =
     do { (r, s) \<leftarrow> on_handle H h (Usb_close h) s;
          Some ((), s\<lparr>handles := handles s - {h},
                     active := Set.filter (\<lambda>t. case xfers s t of None \<Rightarrow> True | Some x \<Rightarrow> x_dev_handle x \<noteq> h)
                       (active s)\<rparr>) }"

text \<open>
  \<open>libusb_control_transfer\<close>: the return code and the caller's buffer afterwards. A
  \<open>wLength\<close> beyond the buffer is undefined behaviour. For an OUT request the buffer is sent
  and left as it is.
\<close>

definition libusb_control_transfer ::
  "host \<Rightarrow> ptr \<Rightarrow> u8 \<Rightarrow> u8 \<Rightarrow> u16 \<Rightarrow> u16 \<Rightarrow> u8 list \<Rightarrow> u16 \<Rightarrow> lib \<Rightarrow> ((int \<times> u8 list) \<times> lib) option" where
  "libusb_control_transfer H h rtype req wValue wIndex data wLength s =
     do { (_, s) \<leftarrow> ub_unless (unat wLength \<le> length data) s;
          (r, s) \<leftarrow> on_handle H h
             (Usb_control h rtype req wValue wIndex
                (if rtype = VENDOR_OUT then take (unat wLength) data else []) wLength) s;
          Some ((rc r, if rtype = VENDOR_IN then overlay (bytes r) (unat wLength) data else data), s) }"

text \<open>A device that the library can talk to: its object and its handle are live.\<close>

definition on_bus :: "ptr \<Rightarrow> lib \<Rightarrow> bool" where
  "on_bus d s \<longleftrightarrow> (case devs s d of None \<Rightarrow> False | Some dv \<Rightarrow> usb_device dv \<in> handles s)"

text \<open>What a request may change: the trace grows and the last libusb error may be replaced.\<close>

definition confined :: "lib \<Rightarrow> lib \<Rightarrow> bool" where
  "confined s s' \<longleftrightarrow>
     (\<exists>cs. s' = s\<lparr>last_libusb_error := last_libusb_error s', trace := trace s @ cs\<rparr>)"

section \<open>Outcome lemmas\<close>

text \<open>Nested updates of the library state are kept in the order of its fields.\<close>

lemma lib_update_order [simp]:
  "open_devices_update f0 (g_libusb_context_update g0 s) = g_libusb_context_update g0 (open_devices_update f0 s)"
  "open_devices_update f1 (last_libusb_error_update g1 s) = last_libusb_error_update g1 (open_devices_update f1 s)"
  "open_devices_update f2 (devs_update g2 s) = devs_update g2 (open_devices_update f2 s)"
  "open_devices_update f3 (xfers_update g3 s) = xfers_update g3 (open_devices_update f3 s)"
  "open_devices_update f4 (handles_update g4 s) = handles_update g4 (open_devices_update f4 s)"
  "open_devices_update f5 (active_update g5 s) = active_update g5 (open_devices_update f5 s)"
  "open_devices_update f6 (trace_update g6 s) = trace_update g6 (open_devices_update f6 s)"
  "g_libusb_context_update f7 (last_libusb_error_update g7 s) = last_libusb_error_update g7 (g_libusb_context_update f7 s)"
  "g_libusb_context_update f8 (devs_update g8 s) = devs_update g8 (g_libusb_context_update f8 s)"
  "g_libusb_context_update f9 (xfers_update g9 s) = xfers_update g9 (g_libusb_context_update f9 s)"
  "g_libusb_context_update f10 (handles_update g10 s) = handles_update g10 (g_libusb_context_update f10 s)"
  "g_libusb_context_update f11 (active_update g11 s) = active_update g11 (g_libusb_context_update f11 s)"
  "g_libusb_context_update f12 (trace_update g12 s) = trace_update g12 (g_libusb_context_update f12 s)"
  "last_libusb_error_update f13 (devs_update g13 s) = devs_update g13 (last_libusb_error_update f13 s)"
  "last_libusb_error_update f14 (xfers_update g14 s) = xfers_update g14 (last_libusb_error_update f14 s)"
  "last_libusb_error_update f15 (handles_update g15 s) = handles_update g15 (last_libusb_error_update f15 s)"
  "last_libusb_error_update f16 (active_update g16 s) = active_update g16 (last_libusb_error_update f16 s)"
  "last_libusb_error_update f17 (trace_update g17 s) = trace_update g17 (last_libusb_error_update f17 s)"
  "devs_update f18 (xfers_update g18 s) = xfers_update g18 (devs_update f18 s)"
  "devs_update f19 (handles_update g19 s) = handles_update g19 (devs_update f19 s)"
  "devs_update f20 (active_update g20 s) = active_update g20 (devs_update f20 s)"
  "devs_update f21 (trace_update g21 s) = trace_update g21 (devs_update f21 s)"
  "xfers_update f22 (handles_update g22 s) = handles_update g22 (xfers_update f22 s)"
  "xfers_update f23 (active_update g23 s) = active_update g23 (xfers_update f23 s)"
  "xfers_update f24 (trace_update g24 s) = trace_update g24 (xfers_update f24 s)"
  "handles_update f25 (active_update g25 s) = active_update g25 (handles_update f25 s)"
  "handles_update f26 (trace_update g26 s) = trace_update g26 (handles_update f26 s)"
  "active_update f27 (trace_update g27 s) = trace_update g27 (active_update f27 s)"
  by (cases s; simp)+

declare invoke_def [simp]

lemma on_handle_open [simp]:
  "h \<in> handles s \<Longrightarrow> on_handle H h c s = invoke H c s"
  by (simp add: on_handle_def)

lemma get_dev_Some [simp]: "devs s d = Some dv \<Longrightarrow> get_dev d s = Some (dv, s)"
  by (simp add: get_dev_def)

lemma mod_dev_Some [simp]:
  "devs s d = Some dv \<Longrightarrow> mod_dev d f s = Some ((), s\<lparr>devs := (devs s)(d \<mapsto> f dv)\<rparr>)"
  by (simp add: mod_dev_def)

lemma get_dev_NULL [simp]: "devs s d = None \<Longrightarrow> get_dev d s = None"
  by (simp add: get_dev_def)

lemma fresh_neq_NULL [simp]: "fresh s \<noteq> NULL" "NULL \<noteq> fresh s"
  by (simp_all add: fresh_def)

lemma vendor_directions [simp]: "VENDOR_OUT \<noteq> VENDOR_IN" "VENDOR_IN \<noteq> VENDOR_OUT"
  by (simp_all add: VENDOR_OUT_def VENDOR_IN_def)

lemma error_code_inj: "error_code a = error_code b \<longleftrightarrow> a = b"
  by (cases a; cases b) simp_all

lemma on_busE:
  assumes "on_bus d s"
  obtains dv where "devs s d = Some dv" "usb_device dv \<in> handles s"
  using assms by (auto simp: on_bus_def split: option.splits)

lemma confinedI: "s' = s\<lparr>last_libusb_error := e, trace := trace s @ cs\<rparr> \<Longrightarrow> confined s s'"
  by (auto simp: confined_def)

lemma confined_refl [simp, intro]: "confined s s"
  by (rule confinedI [where e = "last_libusb_error s" and cs = "[]"]) simp

lemma confined_updates [simp, intro]:
  "confined s (s\<lparr>last_libusb_error := e, trace := trace s @ cs\<rparr>)"
  "confined s (s\<lparr>trace := trace s @ cs\<rparr>)"
  "confined s (s\<lparr>last_libusb_error := e\<rparr>)"
  by (rule confinedI [where e = e and cs = cs], simp)
    (rule confinedI [where e = "last_libusb_error s" and cs = cs], simp,
     rule confinedI [where e = e and cs = "[]"], simp)

lemma confined_trans [trans]:
  assumes "confined s t" "confined t u"
  shows "confined s u"
proof -
  obtain cs ds where "t = s\<lparr>last_libusb_error := last_libusb_error t, trace := trace s @ cs\<rparr>"
    "u = t\<lparr>last_libusb_error := last_libusb_error u, trace := trace t @ ds\<rparr>"
    using assms by (auto simp: confined_def)
  then have "u = s\<lparr>last_libusb_error := last_libusb_error u, trace := trace s @ (cs @ ds)\<rparr>"
    by (cases s; cases t; cases u) simp
  then show ?thesis by (rule confinedI)
qed

lemma confinedD:
  assumes "confined s s'"
  shows "devs s' = devs s" "xfers s' = xfers s" "handles s' = handles s" "active s' = active s"
    "open_devices s' = open_devices s" "g_libusb_context s' = g_libusb_context s"
  using assms by (auto simp: confined_def dest!: arg_cong [where f = "\<lambda>s. (devs s, xfers s, handles s, active s, open_devices s, g_libusb_context s)"])

lemma confined_trace: "confined s s' \<Longrightarrow> \<exists>cs. trace s' = trace s @ cs"
  by (auto simp: confined_def dest: arg_cong [where f = trace])

lemma confined_on_bus: "confined s s' \<Longrightarrow> on_bus d s' = on_bus d s"
  using confinedD [of s s'] by (simp add: on_bus_def split: option.split)

text \<open>Control transfers and the bookkeeping of errors, as the request routines use them.\<close>

lemma control_out [simp]:
  assumes "h \<in> handles s" "unat n \<le> length data"
  shows "libusb_control_transfer H h VENDOR_OUT q v i data n s =
    (let c = Usb_control h VENDOR_OUT q v i (take (unat n) data) n
     in Some ((rc (answer H (trace s) c), data), s\<lparr>trace := trace s @ [c]\<rparr>))"
  using assms by (simp add: libusb_control_transfer_def Let_def)

lemma control_in [simp]:
  assumes "h \<in> handles s" "unat n \<le> length data"
  shows "libusb_control_transfer H h VENDOR_IN q v i data n s =
    (let c = Usb_control h VENDOR_IN q v i [] n; r = answer H (trace s) c
     in Some ((rc r, overlay (bytes r) (unat n) data), s\<lparr>trace := trace s @ [c]\<rparr>))"
  using assms by (simp add: libusb_control_transfer_def Let_def)

lemma control_confined:
  "libusb_control_transfer H h t q v i data n s = Some (r, s') \<Longrightarrow> confined s s'"
  by (auto simp: libusb_control_transfer_def on_handle_def bind_pair_Some split: if_splits
      intro!: confinedI [where e = "last_libusb_error s"])

lemma get_dev_confined: "get_dev d s = Some (dv, s') \<Longrightarrow> s' = s \<and> devs s d = Some dv"
  by (auto simp: get_dev_def split: option.splits)

lemma fail_libusb_confined: "fail_libusb e s = Some (r, s') \<Longrightarrow> confined s s'"
  by (auto simp: fail_libusb_def intro!: confinedI [where cs = "[]"])

end
