(* ===== verification/Request_Contract.thy ===== *)
theory Request_Contract
  imports Host
begin

text \<open>
  The vendor requests of hackrf.c and the contract that the routines issuing them share, as a
  chain of locales. \<open>vendor_request\<close> is what every request routine owes its caller: on a
  live device it is defined, and it changes nothing of the library but the trace and the last
  libusb error. \<open>checked_request\<close> adds the parameter check, the packet and the verdict on the
  answer; \<open>gated_request\<close> adds the firmware version gate that precedes all of these. The
  theories that define the routines interpret the locales, one interpretation per routine.
\<close>

section \<open>Request codes\<close>

datatype hackrf_vendor_request =
    SET_TRANSCEIVER_MODE
  | MAX2837_WRITE
  | MAX2837_READ
  | SI5351C_WRITE
  | SI5351C_READ
  | SAMPLE_RATE_SET
  | BASEBAND_FILTER_BANDWIDTH_SET
  | RFFC5071_WRITE
  | RFFC5071_READ
  | SPIFLASH_ERASE
  | SPIFLASH_WRITE
  | SPIFLASH_READ
  | BOARD_ID_READ
  | VERSION_STRING_READ
  | SET_FREQ
  | AMP_ENABLE
  | BOARD_PARTID_SERIALNO_READ
  | SET_LNA_GAIN
  | SET_VGA_GAIN
  | SET_TXVGA_GAIN
  | ANTENNA_ENABLE
  | SET_FREQ_EXPLICIT
  | USB_WCID_VENDOR_REQ
  | INIT_SWEEP
  | OPERACAKE_GET_BOARDS
  | OPERACAKE_SET_PORTS
  | SET_HW_SYNC_MODE
  | RESET
  | OPERACAKE_SET_RANGES
  | CLKOUT_ENABLE
  | SPIFLASH_STATUS
  | SPIFLASH_CLEAR_STATUS
  | OPERACAKE_GPIO_TEST
  | CPLD_CHECKSUM

fun request_code :: "hackrf_vendor_request \<Rightarrow> u8" where
  "request_code SET_TRANSCEIVER_MODE = 1"
| "request_code MAX2837_WRITE = 2"
| "request_code MAX2837_READ = 3"
| "request_code SI5351C_WRITE = 4"
| "request_code SI5351C_READ = 5"
| "request_code SAMPLE_RATE_SET = 6"
| "request_code BASEBAND_FILTER_BANDWIDTH_SET = 7"
| "request_code RFFC5071_WRITE = 8"
| "request_code RFFC5071_READ = 9"
| "request_code SPIFLASH_ERASE = 10"
| "request_code SPIFLASH_WRITE = 11"
| "request_code SPIFLASH_READ = 12"
| "request_code BOARD_ID_READ = 14"
| "request_code VERSION_STRING_READ = 15"
| "request_code SET_FREQ = 16"
| "request_code AMP_ENABLE = 17"
| "request_code BOARD_PARTID_SERIALNO_READ = 18"
| "request_code SET_LNA_GAIN = 19"
| "request_code SET_VGA_GAIN = 20"
| "request_code SET_TXVGA_GAIN = 21"
| "request_code ANTENNA_ENABLE = 23"
| "request_code SET_FREQ_EXPLICIT = 24"
| "request_code USB_WCID_VENDOR_REQ = 25"
| "request_code INIT_SWEEP = 26"
| "request_code OPERACAKE_GET_BOARDS = 27"
| "request_code OPERACAKE_SET_PORTS = 28"
| "request_code SET_HW_SYNC_MODE = 29"
| "request_code RESET = 30"
| "request_code OPERACAKE_SET_RANGES = 31"
| "request_code CLKOUT_ENABLE = 32"
| "request_code SPIFLASH_STATUS = 33"
| "request_code SPIFLASH_CLEAR_STATUS = 34"
| "request_code OPERACAKE_GPIO_TEST = 35"
| "request_code CPLD_CHECKSUM = 36"

section \<open>The contract\<close>

text \<open>
  \<open>run H d x s\<close> is the routine with its arguments packed into \<open>x\<close>; \<open>fits x\<close> says that the
  buffers passed by the caller are as large as the routine assumes.
\<close>

locale vendor_request =
  fixes run :: "host \<Rightarrow> ptr \<Rightarrow> 'a \<Rightarrow> lib \<Rightarrow> ('r \<times> lib) option"
    and status :: "'r \<Rightarrow> hackrf_error"
    and fits :: "host \<Rightarrow> 'a \<Rightarrow> bool"
  assumes confined: "run H d x s = Some (r, s') \<Longrightarrow> confined s s'"
    and runs: "on_bus d s \<Longrightarrow> fits H x \<Longrightarrow> \<exists>r s'. run H d x s = Some (r, s')"
begin

lemma keeps_resources:
  assumes "run H d x s = Some (r, s')"
  shows "devs s' = devs s \<and> xfers s' = xfers s \<and> handles s' = handles s \<and>
    active s' = active s \<and> open_devices s' = open_devices s"
  using confinedD [OF confined [OF assms]] by simp

lemma keeps_on_bus: "run H d x s = Some (r, s') \<Longrightarrow> on_bus d s' = on_bus d s"
  by (rule confined_on_bus [OF confined])

lemma extends_trace: "run H d x s = Some (r, s') \<Longrightarrow> \<exists>cs. trace s' = trace s @ cs"
  by (rule confined_trace [OF confined])

end

locale checked_request = vendor_request run status fits
  for run :: "host \<Rightarrow> ptr \<Rightarrow> 'a \<Rightarrow> lib \<Rightarrow> ('r \<times> lib) option"
    and status :: "'r \<Rightarrow> hackrf_error"
    and fits :: "host \<Rightarrow> 'a \<Rightarrow> bool" +
  fixes accepts :: "'a \<Rightarrow> bool"
    and packet :: "host \<Rightarrow> ptr \<Rightarrow> 'a \<Rightarrow> call"
    and adequate :: "'a \<Rightarrow> int \<Rightarrow> bool"
  assumes rejects: "\<not> accepts x \<Longrightarrow> run H d x s = Some (r, s') \<Longrightarrow>
      status r = HACKRF_ERROR_INVALID_PARAM \<and> s' = s"
    and sends: "accepts x \<Longrightarrow> devs s d = Some dv \<Longrightarrow> run H d x s = Some (r, s') \<Longrightarrow>
      trace s' = trace s @ [packet H (usb_device dv) x] \<and>
      (let res = rc (answer H (trace s) (packet H (usb_device dv) x))
       in if adequate x res then status r = HACKRF_SUCCESS \<and> last_libusb_error s' = last_libusb_error s
          else status r = HACKRF_ERROR_LIBUSB \<and> last_libusb_error s' = res)"
begin

lemma silent_iff_rejected:
  assumes "devs s d = Some dv" "run H d x s = Some (r, s')"
  shows "trace s' = trace s \<longleftrightarrow> \<not> accepts x"
  using rejects [OF _ assms(2)] sends [OF _ assms] by auto

lemma success_iff:
  assumes "devs s d = Some dv" "run H d x s = Some (r, s')"
  shows "status r = HACKRF_SUCCESS \<longleftrightarrow>
    accepts x \<and> adequate x (rc (answer H (trace s) (packet H (usb_device dv) x)))"
  using rejects [OF _ assms(2)] sends [OF _ assms]
  by (cases "accepts x") (auto simp: Let_def split: if_splits)

lemma status_cases:
  assumes "devs s d = Some dv" "run H d x s = Some (r, s')"
  shows "status r \<in> {HACKRF_SUCCESS, HACKRF_ERROR_LIBUSB, HACKRF_ERROR_INVALID_PARAM}"
  using rejects [OF _ assms(2)] sends [OF _ assms]
  by (cases "accepts x") (auto simp: Let_def split: if_splits)

end

locale gated_request = vendor_request run status fits
  for run :: "host \<Rightarrow> ptr \<Rightarrow> 'a \<Rightarrow> lib \<Rightarrow> ('r \<times> lib) option"
    and status :: "'r \<Rightarrow> hackrf_error"
    and fits :: "host \<Rightarrow> 'a \<Rightarrow> bool" +
  fixes needed :: u16
    and accepts :: "'a \<Rightarrow> bool"
    and packet :: "host \<Rightarrow> ptr \<Rightarrow> 'a \<Rightarrow> call"
    and adequate :: "'a \<Rightarrow> int \<Rightarrow> bool"
  assumes gate: "devs s d = Some dv \<Longrightarrow> run H d x s = Some (r, s') \<Longrightarrow>
      (let ask = Usb_get_own_descriptor (usb_device dv); v = answer H (trace s) ask;
           open_gate = (0 \<le> rc v \<and> needed \<le> bcdDevice (desc v));
           c = packet H (usb_device dv) x; res = rc (answer H (trace s @ [ask]) c)
       in if \<not> open_gate then status r = HACKRF_ERROR_USB_API_VERSION \<and> trace s' = trace s @ [ask]
          else if \<not> accepts x then status r = HACKRF_ERROR_INVALID_PARAM \<and> trace s' = trace s @ [ask]
          else trace s' = trace s @ [ask, c] \<and>
            (if adequate x res then status r = HACKRF_SUCCESS
             else status r = HACKRF_ERROR_LIBUSB \<and> last_libusb_error s' = res))"
begin

lemma old_firmware:
  assumes "devs s d = Some dv" "run H d x s = Some (r, s')"
    and "bcdDevice (desc (answer H (trace s) (Usb_get_own_descriptor (usb_device dv)))) < needed"
  shows "status r = HACKRF_ERROR_USB_API_VERSION \<and>
    trace s' = trace s @ [Usb_get_own_descriptor (usb_device dv)]"
  using gate [OF assms(1,2)] assms(3) by (simp add: Let_def not_le split: if_splits)

lemma packet_only_when_new_enough:
  assumes "devs s d = Some dv" "run H d x s = Some (r, s')"
    and "packet H (usb_device dv) x \<noteq> Usb_get_own_descriptor (usb_device dv)"
    and "trace s' = trace s @ cs" "packet H (usb_device dv) x \<in> set cs"
  shows "needed \<le> bcdDevice (desc (answer H (trace s) (Usb_get_own_descriptor (usb_device dv)))) \<and> accepts x"
  using gate [OF assms(1,2)] assms(3-) by (auto simp: Let_def split: if_splits)

end

text \<open>
  A gain request rounds the value down to the step of the amplifier, and reports every failure,
  also one of libusb, as an invalid parameter.
\<close>

locale gain_request = vendor_request run id "\<lambda>_ _. True"
  for run :: "host \<Rightarrow> ptr \<Rightarrow> u32 \<Rightarrow> lib \<Rightarrow> (hackrf_error \<times> lib) option" +
  fixes limit :: nat
    and step :: nat
    and code :: hackrf_vendor_request
  assumes too_high: "limit < unat v \<Longrightarrow> run H d v s = Some (HACKRF_ERROR_INVALID_PARAM, s)"
    and in_range: "unat v \<le> limit \<Longrightarrow> devs s d = Some dv \<Longrightarrow> run H d v s = Some (r, s') \<Longrightarrow>
      (\<exists>g. unat g = step * (unat v div step) \<and>
        (let c = Usb_control (usb_device dv) VENDOR_IN (request_code code) 0 g [] 1;
             a = answer H (trace s) c
         in s' = s\<lparr>trace := trace s @ [c]\<rparr> \<and>
            (r = HACKRF_SUCCESS \<longrightarrow> rc a = 1) \<and>
            r \<in> {HACKRF_SUCCESS, HACKRF_ERROR_INVALID_PARAM} \<and>
            (bytes a \<noteq> [] \<longrightarrow> (r = HACKRF_SUCCESS \<longleftrightarrow> rc a = 1 \<and> hd (bytes a) \<noteq> 0))))"
begin

lemma gain_on_wire:
  assumes "devs s d = Some dv" "run H d v s = Some (r, s')"
    and "trace s' = trace s @ [Usb_control h t q w g data n]"
  shows "unat v \<le> limit \<and> unat g = step * (unat v div step)"
proof (cases "unat v \<le> limit")
  case True
  with in_range [OF True assms(1,2)] assms(3) show ?thesis by (auto simp: Let_def)
next
  case False
  with too_high [of v H d s] assms(2,3) show ?thesis by simp
qed

lemma effect:
  assumes "devs s d = Some dv" "usb_device dv \<in> handles s"
  shows "\<exists>r s'. run H d v s = Some (r, s') \<and>
    (if unat v \<le> limit
     then \<exists>g. unat g = step * (unat v div step) \<and>
       trace s' = trace s @ [Usb_control (usb_device dv) VENDOR_IN (request_code code) 0 g [] 1]
     else r = HACKRF_ERROR_INVALID_PARAM \<and> s' = s)"
proof -
  have "on_bus d s" using assms by (simp add: on_bus_def)
  then obtain r s' where run: "run H d v s = Some (r, s')"
    using runs [OF _ TrueI] by blast
  show ?thesis
  proof (cases "unat v \<le> limit")
    case True
    from in_range [OF True assms(1) run] run True show ?thesis
      by (intro exI [of _ r] exI [of _ s']) (auto simp: Let_def)
  next
    case False
    with too_high [of v H d s] show ?thesis by simp
  qed
qed

end

section \<open>Establishing the contract\<close>

text \<open>
  What the three parts of a routine's definition have to show: its early returns, its packet
  with the verdict, and that it is undefined on a dead device or a short buffer.
\<close>

lemma checked_requestI:
  fixes run :: "host \<Rightarrow> ptr \<Rightarrow> 'a \<Rightarrow> lib \<Rightarrow> ('r \<times> lib) option"
  assumes rej: "\<And>H d x s. \<not> accepts x \<Longrightarrow>
      \<exists>r. run H d x s = Some (r, s) \<and> status r = HACKRF_ERROR_INVALID_PARAM"
    and acc: "\<And>H d x s dv c res. accepts x \<Longrightarrow> fits H x \<Longrightarrow> devs s d = Some dv \<Longrightarrow>
      usb_device dv \<in> handles s \<Longrightarrow> c = packet H (usb_device dv) x \<Longrightarrow>
      res = rc (answer H (trace s) c) \<Longrightarrow>
      \<exists>r. run H d x s = Some (r, s\<lparr>last_libusb_error := if adequate x res then last_libusb_error s else res,
                                   trace := trace s @ [c]\<rparr>)
        \<and> status r = (if adequate x res then HACKRF_SUCCESS else HACKRF_ERROR_LIBUSB)"
    and stuck: "\<And>H d x s. accepts x \<Longrightarrow> \<not> (on_bus d s \<and> fits H x) \<Longrightarrow> run H d x s = None"
  shows "checked_request run status fits accepts packet adequate"
proof
  fix H d x s r s'
  assume run: "run H d x s = Some (r, s')"
  show "confined s s'"
  proof (cases "accepts x")
    case True
    have "on_bus d s \<and> fits H x"
      by (rule ccontr) (use stuck [OF True] run in simp)
    then have "on_bus d s" "fits H x" by simp_all
    then obtain dv where "devs s d = Some dv" "usb_device dv \<in> handles s" by (elim on_busE)
    from acc [OF True \<open>fits H x\<close> this refl refl] run show ?thesis
      by (auto intro: confinedI)
  next
    case False
    from rej [OF False, of H d s] run show ?thesis by auto
  qed
next
  fix H d x and s :: lib
  assume bus: "on_bus d s" and fits: "fits H x"
  then obtain dv where dv: "devs s d = Some dv" "usb_device dv \<in> handles s" by (elim on_busE)
  show "\<exists>r s'. run H d x s = Some (r, s')"
  proof (cases "accepts x")
    case True
    from acc [OF True fits dv refl refl] show ?thesis by auto
  next
    case False
    from rej [OF False, of H d s] show ?thesis by auto
  qed
next
  fix H d x s r s'
  assume "\<not> accepts x" "run H d x s = Some (r, s')"
  then show "status r = HACKRF_ERROR_INVALID_PARAM \<and> s' = s"
    using rej [of x H d s] by auto
next
  fix H d x s r s' dv
  assume acp: "accepts x" and dv: "devs s d = Some dv" and run: "run H d x s = Some (r, s')"
  have "on_bus d s \<and> fits H x"
    by (rule ccontr) (use stuck [OF acp] run in simp)
  then have "on_bus d s" "fits H x" by simp_all
  with dv have "usb_device dv \<in> handles s" by (simp add: on_bus_def)
  from acc [OF acp \<open>fits H x\<close> dv this refl refl] run
  show "trace s' = trace s @ [packet H (usb_device dv) x] \<and>
      (let res = rc (answer H (trace s) (packet H (usb_device dv) x))
       in if adequate x res then status r = HACKRF_SUCCESS \<and> last_libusb_error s' = last_libusb_error s
          else status r = HACKRF_ERROR_LIBUSB \<and> last_libusb_error s' = res)"
    by (auto simp: Let_def)
qed

text \<open>A device off the bus answers nothing.\<close>

lemma off_bus [simp]: "\<not> on_bus d s \<Longrightarrow> get_dev d s = Some (dv, t) \<Longrightarrow> on_handle H (usb_device dv) c t = None"
  by (auto simp: on_bus_def get_dev_def on_handle_def split: option.splits)

lemma control_off_bus:
  "\<not> on_bus d s \<Longrightarrow> devs s d = Some dv \<Longrightarrow> libusb_control_transfer H (usb_device dv) t q v i data n s = None"
  by (auto simp: on_bus_def libusb_control_transfer_def on_handle_def ub_unless_def)

lemma control_short:
  "length data < unat n \<Longrightarrow> libusb_control_transfer H h t q v i data n s = None"
  by (simp add: libusb_control_transfer_def ub_unless_def)

lemma get_dev_cases: "get_dev d s = (case devs s d of None \<Rightarrow> None | Some dv \<Rightarrow> Some (dv, s))"
  by (simp add: get_dev_def)

lemmas request_simps = get_dev_cases fail_libusb_def control_off_bus control_short Let_def

end
