(* ===== verification/Baseband_Filter.thy ===== *)
theory Baseband_Filter
  imports Prelude
begin

text \<open>
  The MAX2837 filter table of hackrf.c and the two routines that pick a bandwidth from it.
  The C pointer \<open>p\<close> into the table is its index; the loop stops at the zero sentinel, so the
  index never leaves the table. The last section gives both routines in terms of the set of
  supported bandwidths.
\<close>

definition max2837_ft :: "u32 list" where
  "max2837_ft =
     [1750000, 2500000, 3500000, 5000000, 5500000, 6000000, 7000000, 8000000, 9000000,
      10000000, 12000000, 14000000, 15000000, 20000000, 24000000, 28000000, 0]"

text \<open>The \<open>while\<close> loop of both routines, from the table entry \<open>p\<close> on.\<close>

fun ft_walk :: "u32 list \<Rightarrow> u32 \<Rightarrow> nat \<Rightarrow> nat" where
  "ft_walk [] bandwidth_hz p = p"
| "ft_walk (x # xs) bandwidth_hz p =
     (if x \<noteq> 0 then if x \<ge> bandwidth_hz then p else ft_walk xs bandwidth_hz (Suc p) else p)"

definition hackrf_compute_baseband_filter_bw_round_down_lt :: "u32 \<Rightarrow> u32" where
  "hackrf_compute_baseband_filter_bw_round_down_lt bandwidth_hz =
     (let p = ft_walk max2837_ft bandwidth_hz 0;
          p = (if p \<noteq> 0 then p - 1 else p)
      in max2837_ft ! p)"

definition hackrf_compute_baseband_filter_bw :: "u32 \<Rightarrow> u32" where
  "hackrf_compute_baseband_filter_bw bandwidth_hz =
     (let p = ft_walk max2837_ft bandwidth_hz 0;
          p = (if p \<noteq> 0 then if max2837_ft ! p > bandwidth_hz then p - 1 else p else p)
      in max2837_ft ! p)"

section \<open>The supported bandwidths\<close>

definition supported :: "u32 list" where
  "supported = butlast max2837_ft"

lemma max2837_ft_supported: "max2837_ft = supported @ [0]"
  by (simp add: supported_def max2837_ft_def)

lemma supported_props:
  "sorted_wrt (<) supported" "0 \<notin> set supported" "length supported = 16"
  "supported ! 0 = 1750000" "supported ! 15 = 28000000"
  by (simp_all add: supported_def max2837_ft_def)

definition below :: "u32 \<Rightarrow> nat" where
  "below bw = length (takeWhile (\<lambda>x. x < bw) supported)"

lemma ft_walk_eq:
  "0 \<notin> set xs \<Longrightarrow> ft_walk (xs @ [0]) bw p = p + length (takeWhile (\<lambda>x. x < bw) xs)"
  by (induction xs arbitrary: p) auto

lemma ft_walk_below: "ft_walk max2837_ft bw 0 = below bw"
  using supported_props(2) by (simp add: max2837_ft_supported ft_walk_eq below_def)

lemma below_le: "below bw \<le> 16"
  using length_takeWhile_le [of "\<lambda>x. x < bw" supported] by (simp add: below_def supported_props)

lemma below_less: "i < below bw \<Longrightarrow> supported ! i < bw"
  by (metis below_def nth_mem set_takeWhileD takeWhile_nth)

lemma below_stop: "below bw < 16 \<Longrightarrow> bw \<le> supported ! below bw"
  using nth_length_takeWhile [of "\<lambda>x. x < bw" supported]
  by (simp add: below_def supported_props not_less)

lemma supported_mono: "i < j \<Longrightarrow> j < 16 \<Longrightarrow> supported ! i < supported ! j"
  using supported_props(1,3) by (simp add: sorted_wrt_iff_nth_less)

lemma supported_iff: "x \<in> set supported \<longleftrightarrow> (\<exists>i < 16. x = supported ! i)"
  by (auto simp: in_set_conv_nth supported_props)

lemma less_iff_below: "i < 16 \<Longrightarrow> supported ! i < bw \<longleftrightarrow> i < below bw"
proof
  assume i: "i < 16" and lt: "supported ! i < bw"
  show "i < below bw"
  proof (rule ccontr)
    assume "\<not> i < below bw"
    then have "bw \<le> supported ! below bw" "supported ! below bw \<le> supported ! i"
      using i below_stop [of bw] supported_mono [of "below bw" i]
      by (cases "i = below bw"; auto)+
    with lt show False by simp
  qed
qed (rule below_less)

lemma Max_supported_eq:
  assumes "k < 16" "P (supported ! k)" "\<And>i. i < 16 \<Longrightarrow> P (supported ! i) \<Longrightarrow> i \<le> k"
  shows "Max {x \<in> set supported. P x} = supported ! k"
proof (rule Max_eqI)
  show "finite {x \<in> set supported. P x}" by simp
  show "supported ! k \<in> {x \<in> set supported. P x}"
    using assms(1,2) by (auto simp: supported_iff)
  fix y assume "y \<in> {x \<in> set supported. P x}"
  then obtain i where "i < 16" "y = supported ! i" "i \<le> k"
    using assms(3) by (auto simp: supported_iff)
  then show "y \<le> supported ! k"
    using supported_mono [of i k] assms(1) by (cases "i = k") (auto intro: less_imp_le)
qed

lemma ft_nth: "i < 16 \<Longrightarrow> max2837_ft ! i = supported ! i" "max2837_ft ! 16 = 0"
  using supported_props(3) by (simp_all add: max2837_ft_supported nth_append)

section \<open>What the routines compute\<close>

lemma filter_bw_low: "bw < 1750000 \<Longrightarrow> hackrf_compute_baseband_filter_bw bw = 1750000"
proof -
  assume "bw < 1750000"
  then have "below bw = 0"
    using less_iff_below [of 0 bw] by (auto simp: supported_props not_less)
  then show "hackrf_compute_baseband_filter_bw bw = 1750000"
    by (simp add: hackrf_compute_baseband_filter_bw_def ft_walk_below ft_nth supported_props)
qed

lemma filter_bw_high: "28000000 < bw \<Longrightarrow> hackrf_compute_baseband_filter_bw bw = 0"
proof -
  assume "28000000 < bw"
  then have "below bw = 16"
    using less_iff_below [of 15 bw] below_le [of bw] by (simp add: supported_props)
  then show "hackrf_compute_baseband_filter_bw bw = 0"
    by (simp add: hackrf_compute_baseband_filter_bw_def ft_walk_below ft_nth)
qed

lemma filter_bw_inside:
  assumes "1750000 \<le> bw" "bw \<le> 28000000"
  shows "hackrf_compute_baseband_filter_bw bw = Max {x \<in> set supported. x \<le> bw}"
proof -
  have b: "below bw < 16"
    using less_iff_below [of 15 bw] assms(2) below_le [of bw] by (auto simp: supported_props not_less)
  have above: "bw \<le> supported ! i \<and> (i = below bw \<or> bw < supported ! i)" if "below bw \<le> i" "i < 16" for i
    using that below_stop [OF b] supported_mono [of "below bw" i] by (cases "i = below bw") auto
  show ?thesis
  proof (cases "supported ! below bw = bw")
    case True
    have "i \<le> below bw" if "i < 16" "supported ! i \<le> bw" for i
      using that above [of i] by (cases "below bw \<le> i") auto
    then have "Max {x \<in> set supported. x \<le> bw} = supported ! below bw"
      using True b by (intro Max_supported_eq) auto
    then show ?thesis
      using True b by (cases "below bw = 0")
        (simp_all add: hackrf_compute_baseband_filter_bw_def ft_walk_below ft_nth)
  next
    case False
    then have gt: "bw < supported ! below bw"
      using below_stop [OF b] by simp
    have pos: "0 < below bw"
      using less_iff_below [of 0 bw] assms(1) gt by (cases "below bw = 0") (auto simp: supported_props)
    have "i < below bw" if "i < 16" "supported ! i \<le> bw" for i
      using that above [of i] gt by (cases "i < below bw") auto
    then have "i \<le> below bw - 1" if "i < 16" "supported ! i \<le> bw" for i
      using that by fastforce
    then have "Max {x \<in> set supported. x \<le> bw} = supported ! (below bw - 1)"
      using below_less [of "below bw - 1" bw] pos b by (intro Max_supported_eq) auto
    then show ?thesis
      using gt pos b by (simp add: hackrf_compute_baseband_filter_bw_def ft_walk_below ft_nth)
  qed
qed

text \<open>
  C35. \<open>hackrf_compute_baseband_filter_bw\<close> returns the widest bandwidth of the table that does not
  exceed the request, the narrowest one for requests below the table, and 0, which is no
  bandwidth of the MAX2837, for requests above it.
\<close>

theorem filter_bw_is_best_fit:
  "hackrf_compute_baseband_filter_bw bw =
     (if bw < 1750000 then 1750000
      else if bw \<le> 28000000 then Max {x \<in> set supported. x \<le> bw}
      else 0)"
  using filter_bw_low [of bw] filter_bw_inside [of bw] filter_bw_high [of bw]
  by (auto simp: not_less not_le)

text \<open>
  The result of \<open>hackrf_compute_baseband_filter_bw\<close> is a bandwidth that the filter supports
  exactly for requests of at most 28 MHz.
\<close>

theorem filter_bw_supported_iff:
  "hackrf_compute_baseband_filter_bw bw \<in> set supported \<longleftrightarrow> bw \<le> 28000000"
proof (cases "bw \<le> 28000000")
  case True
  have low: "1750000 \<in> set supported"
    by (simp add: supported_def max2837_ft_def)
  moreover have "Max {x \<in> set supported. x \<le> bw} \<in> {x \<in> set supported. x \<le> bw}" if "1750000 \<le> bw"
    using low that by (intro Max_in) auto
  ultimately show ?thesis
    using True filter_bw_low [of bw] filter_bw_inside [of bw] by (cases "bw < 1750000") (auto simp: not_less)
next
  case False
  then show ?thesis
    using filter_bw_high [of bw] supported_props(2) by simp
qed

text \<open>
  \<open>hackrf_compute_baseband_filter_bw_round_down_lt\<close> returns the widest bandwidth of the table
  that is strictly below the request, and the narrowest one when there is none.
\<close>

theorem filter_bw_round_down_lt_correct:
  "hackrf_compute_baseband_filter_bw_round_down_lt bw =
     (if bw \<le> 1750000 then 1750000 else Max {x \<in> set supported. x < bw})"
proof (cases "bw \<le> 1750000")
  case True
  then have "below bw = 0"
    using less_iff_below [of 0 bw] by (auto simp: supported_props not_less)
  with True show ?thesis
    by (simp add: hackrf_compute_baseband_filter_bw_round_down_lt_def ft_walk_below ft_nth supported_props)
next
  case False
  then have pos: "0 < below bw"
    using less_iff_below [of 0 bw] by (auto simp: supported_props not_le)
  moreover have "i \<le> below bw - 1" if "i < 16" "supported ! i < bw" for i
    using that less_iff_below [of i bw] by simp
  ultimately have "Max {x \<in> set supported. x < bw} = supported ! (below bw - 1)"
    using below_less [of "below bw - 1" bw] below_le [of bw] by (intro Max_supported_eq) auto
  with False pos below_le [of bw] show ?thesis
    by (simp add: hackrf_compute_baseband_filter_bw_round_down_lt_def ft_walk_below ft_nth)
qed

end
