(* ===== verification/Requests.thy ===== *)
theory Requests
  imports Request_Contract Baseband_Filter
begin

text \<open>
  The vendor requests of hackrf.c that any firmware serves: transceiver mode, the registers of
  the three chips, the SPI flash, board identification, tuning, sample rate, gains and the
  amplifier and antenna switches. Each definition has the code's parameter checks in the code's
  order, the arguments of its \<open>libusb_control_transfer\<close> with the implicit conversions to the
  parameter types, and its test on the result. A routine with an out parameter takes the
  caller's variable and returns it with the status.
\<close>

datatype hackrf_transceiver_mode =
    HACKRF_TRANSCEIVER_MODE_OFF
  | HACKRF_TRANSCEIVER_MODE_RECEIVE
  | HACKRF_TRANSCEIVER_MODE_TRANSMIT
  | HACKRF_TRANSCEIVER_MODE_SS
  | TRANSCEIVER_MODE_CPLD_UPDATE

fun mode_code :: "hackrf_transceiver_mode \<Rightarrow> u16" where
  "mode_code HACKRF_TRANSCEIVER_MODE_OFF = 0"
| "mode_code HACKRF_TRANSCEIVER_MODE_RECEIVE = 1"
| "mode_code HACKRF_TRANSCEIVER_MODE_TRANSMIT = 2"
| "mode_code HACKRF_TRANSCEIVER_MODE_SS = 3"
| "mode_code TRANSCEIVER_MODE_CPLD_UPDATE = 4"

section \<open>Requests without a data stage\<close>

definition hackrf_set_transceiver_mode ::
  "host \<Rightarrow> ptr \<Rightarrow> hackrf_transceiver_mode \<Rightarrow> lib \<Rightarrow> (hackrf_error \<times> lib) option" where
  "hackrf_set_transceiver_mode H device mode s =
     do { (dv, s) \<leftarrow> get_dev device s;
          ((result, _), s) \<leftarrow> libusb_control_transfer H (usb_device dv) VENDOR_OUT
             (request_code SET_TRANSCEIVER_MODE) (mode_code mode) 0 [] 0 s;
          if result \<noteq> 0 then fail_libusb result s else Some (HACKRF_SUCCESS, s) }"

definition hackrf_max2837_write ::
  "host \<Rightarrow> ptr \<Rightarrow> u8 \<Rightarrow> u16 \<Rightarrow> lib \<Rightarrow> (hackrf_error \<times> lib) option" where
  "hackrf_max2837_write H device register_number v s =
     (if register_number \<ge> 32 then Some (HACKRF_ERROR_INVALID_PARAM, s)
      else if v \<ge> 0x400 then Some (HACKRF_ERROR_INVALID_PARAM, s)
      else do { (dv, s) \<leftarrow> get_dev device s;
                ((result, _), s) \<leftarrow> libusb_control_transfer H (usb_device dv) VENDOR_OUT
                   (request_code MAX2837_WRITE) v (ucast register_number) [] 0 s;
                if result \<noteq> 0 then fail_libusb result s else Some (HACKRF_SUCCESS, s) })"

definition hackrf_si5351c_write ::
  "host \<Rightarrow> ptr \<Rightarrow> u16 \<Rightarrow> u16 \<Rightarrow> lib \<Rightarrow> (hackrf_error \<times> lib) option" where
  "hackrf_si5351c_write H device register_number v s =
     (if register_number \<ge> 256 then Some (HACKRF_ERROR_INVALID_PARAM, s)
      else if v \<ge> 256 then Some (HACKRF_ERROR_INVALID_PARAM, s)
      else do { (dv, s) \<leftarrow> get_dev device s;
                ((result, _), s) \<leftarrow> libusb_control_transfer H (usb_device dv) VENDOR_OUT
                   (request_code SI5351C_WRITE) v register_number [] 0 s;
                if result \<noteq> 0 then fail_libusb result s else Some (HACKRF_SUCCESS, s) })"

definition hackrf_set_baseband_filter_bandwidth ::
  "host \<Rightarrow> ptr \<Rightarrow> u32 \<Rightarrow> lib \<Rightarrow> (hackrf_error \<times> lib) option" where
  "hackrf_set_baseband_filter_bandwidth H device bandwidth_hz s =
     do { (dv, s) \<leftarrow> get_dev device s;
          ((result, _), s) \<leftarrow> libusb_control_transfer H (usb_device dv) VENDOR_OUT
             (request_code BASEBAND_FILTER_BANDWIDTH_SET)
             (ucast (bandwidth_hz AND 0xffff)) (ucast (drop_bit 16 bandwidth_hz)) [] 0 s;
          if result \<noteq> 0 then fail_libusb result s else Some (HACKRF_SUCCESS, s) }"

definition hackrf_rffc5071_write ::
  "host \<Rightarrow> ptr \<Rightarrow> u8 \<Rightarrow> u16 \<Rightarrow> lib \<Rightarrow> (hackrf_error \<times> lib) option" where
  "hackrf_rffc5071_write H device register_number v s =
     (if register_number \<ge> 31 then Some (HACKRF_ERROR_INVALID_PARAM, s)
      else do { (dv, s) \<leftarrow> get_dev device s;
                ((result, _), s) \<leftarrow> libusb_control_transfer H (usb_device dv) VENDOR_OUT
                   (request_code RFFC5071_WRITE) v (ucast register_number) [] 0 s;
                if result \<noteq> 0 then fail_libusb result s else Some (HACKRF_SUCCESS, s) })"

definition hackrf_spiflash_erase :: "host \<Rightarrow> ptr \<Rightarrow> lib \<Rightarrow> (hackrf_error \<times> lib) option" where
  "hackrf_spiflash_erase H device s =
     do { (dv, s) \<leftarrow> get_dev device s;
          ((result, _), s) \<leftarrow> libusb_control_transfer H (usb_device dv) VENDOR_OUT
             (request_code SPIFLASH_ERASE) 0 0 [] 0 s;
          if result \<noteq> 0 then fail_libusb result s else Some (HACKRF_SUCCESS, s) }"

definition hackrf_set_amp_enable :: "host \<Rightarrow> ptr \<Rightarrow> u8 \<Rightarrow> lib \<Rightarrow> (hackrf_error \<times> lib) option" where
  "hackrf_set_amp_enable H device v s =
     do { (dv, s) \<leftarrow> get_dev device s;
          ((result, _), s) \<leftarrow> libusb_control_transfer H (usb_device dv) VENDOR_OUT
             (request_code AMP_ENABLE) (ucast v) 0 [] 0 s;
          if result \<noteq> 0 then fail_libusb result s else Some (HACKRF_SUCCESS, s) }"

definition hackrf_set_antenna_enable :: "host \<Rightarrow> ptr \<Rightarrow> u8 \<Rightarrow> lib \<Rightarrow> (hackrf_error \<times> lib) option" where
  "hackrf_set_antenna_enable H device v s =
     do { (dv, s) \<leftarrow> get_dev device s;
          ((result, _), s) \<leftarrow> libusb_control_transfer H (usb_device dv) VENDOR_OUT
             (request_code ANTENNA_ENABLE) (ucast v) 0 [] 0 s;
          if result \<noteq> 0 then fail_libusb result s else Some (HACKRF_SUCCESS, s) }"

section \<open>Requests that send a buffer\<close>

definition hackrf_spiflash_write ::
  "host \<Rightarrow> ptr \<Rightarrow> u32 \<Rightarrow> u16 \<Rightarrow> u8 list \<Rightarrow> lib \<Rightarrow> (hackrf_error \<times> lib) option" where
  "hackrf_spiflash_write H device address len data s =
     (if address > 0x0FFFFF then Some (HACKRF_ERROR_INVALID_PARAM, s)
      else do { (dv, s) \<leftarrow> get_dev device s;
                ((result, _), s) \<leftarrow> libusb_control_transfer H (usb_device dv) VENDOR_OUT
                   (request_code SPIFLASH_WRITE) (ucast (drop_bit 16 address))
                   (ucast (address AND 0xFFFF)) data len s;
                if result < uint len then fail_libusb result s else Some (HACKRF_SUCCESS, s) })"

text \<open>\<open>set_freq_params_t\<close>: two 32-bit words, no padding.\<close>

record set_freq_params_t =
  freq_mhz :: u32
  freq_hz :: u32

definition set_freq_params_bytes :: "host \<Rightarrow> set_freq_params_t \<Rightarrow> u8 list" where
  "set_freq_params_bytes H p = mem32 (big_endian H) (freq_mhz p) @ mem32 (big_endian H) (freq_hz p)"

definition FREQ_ONE_MHZ :: u64 where
  "FREQ_ONE_MHZ = 1000 * 1000"

definition hackrf_set_freq :: "host \<Rightarrow> ptr \<Rightarrow> u64 \<Rightarrow> lib \<Rightarrow> (hackrf_error \<times> lib) option" where
  "hackrf_set_freq H device f_hz s =
     (let l_freq_mhz = ucast (f_hz div FREQ_ONE_MHZ) :: u32;
          l_freq_hz = ucast (f_hz - ucast l_freq_mhz * FREQ_ONE_MHZ) :: u32;
          params = \<lparr>freq_mhz = TO_LE (big_endian H) l_freq_mhz, freq_hz = TO_LE (big_endian H) l_freq_hz\<rparr>;
          len = 8
      in do { (dv, s) \<leftarrow> get_dev device s;
              ((result, _), s) \<leftarrow> libusb_control_transfer H (usb_device dv) VENDOR_OUT
                 (request_code SET_FREQ) 0 0 (set_freq_params_bytes H params) len s;
              if result < uint len then fail_libusb result s else Some (HACKRF_SUCCESS, s) })"

text \<open>
  \<open>struct set_freq_explicit_params\<close> is 24 bytes: two 64-bit words, the path byte and seven
  bytes of padding that the code never writes. \<open>TO_LE\<close> is a 32-bit swap on a big-endian host,
  also where its argument has 64 bits.
\<close>

definition TO_LE_u64 :: "bool \<Rightarrow> u64 \<Rightarrow> u64" where
  "TO_LE_u64 be x = (if be then ucast (bswap32 (ucast x)) else x)"

definition set_freq_explicit_bytes :: "host \<Rightarrow> u64 \<Rightarrow> u64 \<Rightarrow> u8 \<Rightarrow> u8 list" where
  "set_freq_explicit_bytes H if_hz lo_hz path =
     mem64 (big_endian H) if_hz @ mem64 (big_endian H) lo_hz @ [path] @ map (stack H) [0..<7]"

definition hackrf_set_freq_explicit ::
  "host \<Rightarrow> ptr \<Rightarrow> u64 \<Rightarrow> u64 \<Rightarrow> u32 \<Rightarrow> lib \<Rightarrow> (hackrf_error \<times> lib) option" where
  "hackrf_set_freq_explicit H device if_freq_hz lo_freq_hz path s =
     (if if_freq_hz < 2150000000 \<or> if_freq_hz > 2750000000
      then Some (HACKRF_ERROR_INVALID_PARAM, s)
      else if path \<noteq> 0 \<and> (lo_freq_hz < 84375000 \<or> lo_freq_hz > 5400000000)
      then Some (HACKRF_ERROR_INVALID_PARAM, s)
      else if path > 2 then Some (HACKRF_ERROR_INVALID_PARAM, s)
      else
        let params = set_freq_explicit_bytes H (TO_LE_u64 (big_endian H) if_freq_hz)
                       (TO_LE_u64 (big_endian H) lo_freq_hz) (ucast path);
            len = 24
        in do { (dv, s) \<leftarrow> get_dev device s;
                ((result, _), s) \<leftarrow> libusb_control_transfer H (usb_device dv) VENDOR_OUT
                   (request_code SET_FREQ_EXPLICIT) 0 0 params len s;
                if result < uint len then fail_libusb result s else Some (HACKRF_SUCCESS, s) })"

text \<open>
  \<open>(uint32_t)(0.75*freq_hz/divider)\<close>. The product is exact in double precision and the
  rounding of the quotient never reaches the next integer (\<open>rate_bandwidth_of_double\<close> of
  theory Sample_Rate), so the conversion yields the integer quotient. A zero divider gives an
  infinity or a NaN, whose conversion to an integer is undefined.
\<close>

definition rate_bandwidth :: "u32 \<Rightarrow> u32 \<Rightarrow> u32 option" where
  "rate_bandwidth rate divider =
     (if divider = 0 then None else Some (of_nat (3 * unat rate div (4 * unat divider))))"

definition hackrf_set_sample_rate_manual ::
  "host \<Rightarrow> ptr \<Rightarrow> u32 \<Rightarrow> u32 \<Rightarrow> lib \<Rightarrow> (hackrf_error \<times> lib) option" where
  "hackrf_set_sample_rate_manual H device rate divider s =
     (let params = mem32 (big_endian H) (TO_LE (big_endian H) rate)
                 @ mem32 (big_endian H) (TO_LE (big_endian H) divider);
          len = 8
      in do { (dv, s) \<leftarrow> get_dev device s;
              ((result, _), s) \<leftarrow> libusb_control_transfer H (usb_device dv) VENDOR_OUT
                 (request_code SAMPLE_RATE_SET) 0 0 params len s;
              if result < uint len then fail_libusb result s
              else do { bw \<leftarrow> rate_bandwidth rate divider;
                        hackrf_set_baseband_filter_bandwidth H device
                          (hackrf_compute_baseband_filter_bw bw) s } })"

section \<open>Requests that fill the caller's buffer\<close>

definition hackrf_max2837_read ::
  "host \<Rightarrow> ptr \<Rightarrow> u8 \<Rightarrow> u16 \<Rightarrow> lib \<Rightarrow> ((hackrf_error \<times> u16) \<times> lib) option" where
  "hackrf_max2837_read H device register_number v s =
     (if register_number \<ge> 32 then Some ((HACKRF_ERROR_INVALID_PARAM, v), s)
      else do { (dv, s) \<leftarrow> get_dev device s;
                ((result, buf), s) \<leftarrow> libusb_control_transfer H (usb_device dv) VENDOR_IN
                   (request_code MAX2837_READ) 0 (ucast register_number)
                   (mem16 (big_endian H) v) 2 s;
                if result < 2
                then do { (e, s) \<leftarrow> fail_libusb result s; Some ((e, load16 (big_endian H) buf), s) }
                else Some ((HACKRF_SUCCESS, load16 (big_endian H) buf), s) })"

definition hackrf_si5351c_read ::
  "host \<Rightarrow> ptr \<Rightarrow> u16 \<Rightarrow> u16 \<Rightarrow> lib \<Rightarrow> ((hackrf_error \<times> u16) \<times> lib) option" where
  "hackrf_si5351c_read H device register_number v s =
     (if register_number \<ge> 256 then Some ((HACKRF_ERROR_INVALID_PARAM, v), s)
      else do { (dv, s) \<leftarrow> get_dev device s;
                ((result, temp_value), s) \<leftarrow> libusb_control_transfer H (usb_device dv) VENDOR_IN
                   (request_code SI5351C_READ) 0 register_number [0] 1 s;
                if result < 1 then do { (e, s) \<leftarrow> fail_libusb result s; Some ((e, v), s) }
                else Some ((HACKRF_SUCCESS, ucast (hd temp_value)), s) })"

definition hackrf_rffc5071_read ::
  "host \<Rightarrow> ptr \<Rightarrow> u8 \<Rightarrow> u16 \<Rightarrow> lib \<Rightarrow> ((hackrf_error \<times> u16) \<times> lib) option" where
  "hackrf_rffc5071_read H device register_number v s =
     (if register_number \<ge> 31 then Some ((HACKRF_ERROR_INVALID_PARAM, v), s)
      else do { (dv, s) \<leftarrow> get_dev device s;
                ((result, buf), s) \<leftarrow> libusb_control_transfer H (usb_device dv) VENDOR_IN
                   (request_code RFFC5071_READ) 0 (ucast register_number)
                   (mem16 (big_endian H) v) 2 s;
                if result < 2
                then do { (e, s) \<leftarrow> fail_libusb result s; Some ((e, load16 (big_endian H) buf), s) }
                else Some ((HACKRF_SUCCESS, load16 (big_endian H) buf), s) })"

definition hackrf_spiflash_read ::
  "host \<Rightarrow> ptr \<Rightarrow> u32 \<Rightarrow> u16 \<Rightarrow> u8 list \<Rightarrow> lib \<Rightarrow> ((hackrf_error \<times> u8 list) \<times> lib) option" where
  "hackrf_spiflash_read H device address len data s =
     (if address > 0x0FFFFF then Some ((HACKRF_ERROR_INVALID_PARAM, data), s)
      else do { (dv, s) \<leftarrow> get_dev device s;
                ((result, buf), s) \<leftarrow> libusb_control_transfer H (usb_device dv) VENDOR_IN
                   (request_code SPIFLASH_READ) (ucast (drop_bit 16 address))
                   (ucast (address AND 0xFFFF)) data len s;
                if result < uint len
                then do { (e, s) \<leftarrow> fail_libusb result s; Some ((e, buf), s) }
                else Some ((HACKRF_SUCCESS, buf), s) })"

definition hackrf_board_id_read ::
  "host \<Rightarrow> ptr \<Rightarrow> u8 \<Rightarrow> lib \<Rightarrow> ((hackrf_error \<times> u8) \<times> lib) option" where
  "hackrf_board_id_read H device v s =
     do { (dv, s) \<leftarrow> get_dev device s;
          ((result, buf), s) \<leftarrow> libusb_control_transfer H (usb_device dv) VENDOR_IN
             (request_code BOARD_ID_READ) 0 0 [v] 1 s;
          if result < 1 then do { (e, s) \<leftarrow> fail_libusb result s; Some ((e, hd buf), s) }
          else Some ((HACKRF_SUCCESS, hd buf), s) }"

text \<open>The terminating null byte is stored at index \<open>result\<close> of the caller's buffer.\<close>

definition hackrf_version_string_read ::
  "host \<Rightarrow> ptr \<Rightarrow> u8 list \<Rightarrow> u8 \<Rightarrow> lib \<Rightarrow> ((hackrf_error \<times> u8 list) \<times> lib) option" where
  "hackrf_version_string_read H device version len s =
     do { (dv, s) \<leftarrow> get_dev device s;
          ((result, buf), s) \<leftarrow> libusb_control_transfer H (usb_device dv) VENDOR_IN
             (request_code VERSION_STRING_READ) 0 0 version (ucast len) s;
          if result < 0 then do { (e, s) \<leftarrow> fail_libusb result s; Some ((e, buf), s) }
          else do { (_, s) \<leftarrow> ub_unless (nat result < length buf) s;
                    Some ((HACKRF_SUCCESS, buf[nat result := 0]), s) } }"

text \<open>\<open>read_partid_serialno_t\<close>: six 32-bit words, no padding.\<close>

record read_partid_serialno_t =
  part_id :: "u32 \<times> u32"
  serial_no :: "u32 \<times> u32 \<times> u32 \<times> u32"

definition partid_words :: "read_partid_serialno_t \<Rightarrow> u32 list" where
  "partid_words p =
     (case (part_id p, serial_no p) of ((a, b), (c, d, e, f)) \<Rightarrow> [a, b, c, d, e, f])"

definition partid_of_words :: "u32 list \<Rightarrow> read_partid_serialno_t" where
  "partid_of_words ws =
     \<lparr>part_id = (ws ! 0, ws ! 1), serial_no = (ws ! 2, ws ! 3, ws ! 4, ws ! 5)\<rparr>"

definition load32s :: "host \<Rightarrow> u8 list \<Rightarrow> u32 list" where
  "load32s H bs = map (\<lambda>i. load32 (big_endian H) (take 4 (drop (4 * i) bs))) [0, 1, 2, 3, 4, 5]"

definition hackrf_board_partid_serialno_read ::
  "host \<Rightarrow> ptr \<Rightarrow> read_partid_serialno_t \<Rightarrow> lib
     \<Rightarrow> ((hackrf_error \<times> read_partid_serialno_t) \<times> lib) option" where
  "hackrf_board_partid_serialno_read H device p s =
     (let len = 24
      in do { (dv, s) \<leftarrow> get_dev device s;
              ((result, buf), s) \<leftarrow> libusb_control_transfer H (usb_device dv) VENDOR_IN
                 (request_code BOARD_PARTID_SERIALNO_READ) 0 0
                 (concat (map (mem32 (big_endian H)) (partid_words p))) len s;
              if result < uint len
              then do { (e, s) \<leftarrow> fail_libusb result s; Some ((e, partid_of_words (load32s H buf)), s) }
              else Some ((HACKRF_SUCCESS,
                          partid_of_words (map (TO_LE (big_endian H)) (load32s H buf))), s) })"

text \<open>
  The gain requests: an IN request whose single answer byte tells whether the firmware took the
  value. \<open>retval\<close> is an uninitialised automatic variable.
\<close>

definition hackrf_set_lna_gain :: "host \<Rightarrow> ptr \<Rightarrow> u32 \<Rightarrow> lib \<Rightarrow> (hackrf_error \<times> lib) option" where
  "hackrf_set_lna_gain H device v s =
     (if v > 40 then Some (HACKRF_ERROR_INVALID_PARAM, s)
      else let v = v AND NOT 0x07
           in do { (dv, s) \<leftarrow> get_dev device s;
                   ((result, retval), s) \<leftarrow> libusb_control_transfer H (usb_device dv) VENDOR_IN
                      (request_code SET_LNA_GAIN) 0 (ucast v) [stack H 0] 1 s;
                   if result \<noteq> 1 \<or> hd retval = 0 then Some (HACKRF_ERROR_INVALID_PARAM, s)
                   else Some (HACKRF_SUCCESS, s) })"

definition hackrf_set_vga_gain :: "host \<Rightarrow> ptr \<Rightarrow> u32 \<Rightarrow> lib \<Rightarrow> (hackrf_error \<times> lib) option" where
  "hackrf_set_vga_gain H device v s =
     (if v > 62 then Some (HACKRF_ERROR_INVALID_PARAM, s)
      else let v = v AND NOT 0x01
           in do { (dv, s) \<leftarrow> get_dev device s;
                   ((result, retval), s) \<leftarrow> libusb_control_transfer H (usb_device dv) VENDOR_IN
                      (request_code SET_VGA_GAIN) 0 (ucast v) [stack H 0] 1 s;
                   if result \<noteq> 1 \<or> hd retval = 0 then Some (HACKRF_ERROR_INVALID_PARAM, s)
                   else Some (HACKRF_SUCCESS, s) })"

definition hackrf_set_txvga_gain :: "host \<Rightarrow> ptr \<Rightarrow> u32 \<Rightarrow> lib \<Rightarrow> (hackrf_error \<times> lib) option" where
  "hackrf_set_txvga_gain H device v s =
     (if v > 47 then Some (HACKRF_ERROR_INVALID_PARAM, s)
      else do { (dv, s) \<leftarrow> get_dev device s;
                ((result, retval), s) \<leftarrow> libusb_control_transfer H (usb_device dv) VENDOR_IN
                   (request_code SET_TXVGA_GAIN) 0 (ucast v) [stack H 0] 1 s;
                if result \<noteq> 1 \<or> hd retval = 0 then Some (HACKRF_ERROR_INVALID_PARAM, s)
                else Some (HACKRF_SUCCESS, s) })"

section \<open>The routines honour the request contract\<close>

abbreviation no_need :: "host \<Rightarrow> 'a \<Rightarrow> bool" where
  "no_need \<equiv> \<lambda>_ _. True"

interpretation set_transceiver_mode_request: checked_request
  hackrf_set_transceiver_mode
  id no_need "\<lambda>_. True"
  "\<lambda>H h m. Usb_control h VENDOR_OUT (request_code SET_TRANSCEIVER_MODE) (mode_code m) 0 [] 0"
  "\<lambda>_ res. res = 0"
  by (rule checked_requestI)
    (auto simp: hackrf_set_transceiver_mode_def request_simps not_le split: option.split if_splits)

interpretation max2837_write_request: checked_request
  "\<lambda>H d (reg, v). hackrf_max2837_write H d reg v"
  id no_need "\<lambda>(reg, v). reg < 32 \<and> v < 0x400"
  "\<lambda>H h (reg, v). Usb_control h VENDOR_OUT (request_code MAX2837_WRITE) v (ucast reg) [] 0"
  "\<lambda>_ res. res = 0"
  by (rule checked_requestI)
    (auto simp: hackrf_max2837_write_def request_simps not_le split: option.split if_splits)

interpretation si5351c_write_request: checked_request
  "\<lambda>H d (reg, v). hackrf_si5351c_write H d reg v"
  id no_need "\<lambda>(reg, v). reg < 256 \<and> v < 256"
  "\<lambda>H h (reg, v). Usb_control h VENDOR_OUT (request_code SI5351C_WRITE) v reg [] 0"
  "\<lambda>_ res. res = 0"
  by (rule checked_requestI)
    (auto simp: hackrf_si5351c_write_def request_simps not_le split: option.split if_splits)

interpretation set_baseband_filter_bandwidth_request: checked_request
  hackrf_set_baseband_filter_bandwidth
  id no_need "\<lambda>_. True"
  "\<lambda>H h bw. Usb_control h VENDOR_OUT (request_code BASEBAND_FILTER_BANDWIDTH_SET) (ucast (bw AND 0xffff)) (ucast (drop_bit 16 bw)) [] 0"
  "\<lambda>_ res. res = 0"
  by (rule checked_requestI)
    (auto simp: hackrf_set_baseband_filter_bandwidth_def request_simps not_le split: option.split if_splits)

interpretation rffc5071_write_request: checked_request
  "\<lambda>H d (reg, v). hackrf_rffc5071_write H d reg v"
  id no_need "\<lambda>(reg, v). reg < 31"
  "\<lambda>H h (reg, v). Usb_control h VENDOR_OUT (request_code RFFC5071_WRITE) v (ucast reg) [] 0"
  "\<lambda>_ res. res = 0"
  by (rule checked_requestI)
    (auto simp: hackrf_rffc5071_write_def request_simps not_le split: option.split if_splits)

interpretation spiflash_erase_request: checked_request
  "\<lambda>H d (u :: unit). hackrf_spiflash_erase H d"
  id no_need "\<lambda>_ :: unit. True"
  "\<lambda>H h u. Usb_control h VENDOR_OUT (request_code SPIFLASH_ERASE) 0 0 [] 0"
  "\<lambda>_ res. res = 0"
  by (rule checked_requestI)
    (auto simp: hackrf_spiflash_erase_def request_simps not_le split: option.split if_splits)

interpretation set_amp_enable_request: checked_request
  hackrf_set_amp_enable
  id no_need "\<lambda>_. True"
  "\<lambda>H h v. Usb_control h VENDOR_OUT (request_code AMP_ENABLE) (ucast v) 0 [] 0"
  "\<lambda>_ res. res = 0"
  by (rule checked_requestI)
    (auto simp: hackrf_set_amp_enable_def request_simps not_le split: option.split if_splits)

interpretation set_antenna_enable_request: checked_request
  hackrf_set_antenna_enable
  id no_need "\<lambda>_. True"
  "\<lambda>H h v. Usb_control h VENDOR_OUT (request_code ANTENNA_ENABLE) (ucast v) 0 [] 0"
  "\<lambda>_ res. res = 0"
  by (rule checked_requestI)
    (auto simp: hackrf_set_antenna_enable_def request_simps not_le split: option.split if_splits)

interpretation spiflash_write_request: checked_request
  "\<lambda>H d (a, n, data). hackrf_spiflash_write H d a n data"
  id "\<lambda>H (a, n, data). unat n \<le> length data" "\<lambda>(a, n, data). a \<le> 0x0FFFFF"
  "\<lambda>H h (a, n, data). Usb_control h VENDOR_OUT (request_code SPIFLASH_WRITE)
     (ucast (drop_bit 16 a)) (ucast (a AND 0xFFFF)) (take (unat n) data) n"
  "\<lambda>(a, n, data) res. uint n \<le> res"
  by (rule checked_requestI)
    (auto simp: hackrf_spiflash_write_def request_simps not_le split: option.split if_splits)

lemma length_set_freq_params [simp]: "length (set_freq_params_bytes H p) = 8"
  by (simp add: set_freq_params_bytes_def)

lemma length_set_freq_explicit [simp]: "length (set_freq_explicit_bytes H a b p) = 24"
  by (simp add: set_freq_explicit_bytes_def)

interpretation set_freq_request: checked_request
  hackrf_set_freq
  id no_need "\<lambda>_. True"
  "\<lambda>H h f. Usb_control h VENDOR_OUT (request_code SET_FREQ) 0 0
     (let mhz = ucast (f div FREQ_ONE_MHZ) :: u32
      in le32 mhz @ le32 (ucast (f - ucast mhz * FREQ_ONE_MHZ))) 8"
  "\<lambda>_ res. 8 \<le> res"
  by (rule checked_requestI)
    (auto simp: hackrf_set_freq_def set_freq_params_bytes_def request_simps not_le split: option.split if_splits)

interpretation set_freq_explicit_request: checked_request
  "\<lambda>H d (a, b, p). hackrf_set_freq_explicit H d a b p"
  id no_need "\<lambda>(a, b, p). 2150000000 \<le> a \<and> a \<le> 2750000000 \<and>
     (p = 0 \<or> 84375000 \<le> b \<and> b \<le> 5400000000) \<and> p \<le> 2"
  "\<lambda>H h (a, b, p). Usb_control h VENDOR_OUT (request_code SET_FREQ_EXPLICIT) 0 0
     (set_freq_explicit_bytes H (TO_LE_u64 (big_endian H) a) (TO_LE_u64 (big_endian H) b) (ucast p)) 24"
  "\<lambda>_ res. 24 \<le> res"
  by (rule checked_requestI)
    (auto simp: hackrf_set_freq_explicit_def request_simps not_le split: option.split if_splits)

interpretation max2837_read_request: checked_request
  "\<lambda>H d (reg, v). hackrf_max2837_read H d reg v"
  fst no_need "\<lambda>(reg, v). reg < 32"
  "\<lambda>H h (reg, v). Usb_control h VENDOR_IN (request_code MAX2837_READ) 0 (ucast reg) [] 2"
  "\<lambda>_ res. 2 \<le> res"
  by (rule checked_requestI)
    (auto simp: hackrf_max2837_read_def request_simps not_le split: option.split if_splits)

interpretation si5351c_read_request: checked_request
  "\<lambda>H d (reg, v). hackrf_si5351c_read H d reg v"
  fst no_need "\<lambda>(reg, v). reg < 256"
  "\<lambda>H h (reg, v). Usb_control h VENDOR_IN (request_code SI5351C_READ) 0 reg [] 1"
  "\<lambda>_ res. 1 \<le> res"
  by (rule checked_requestI)
    (auto simp: hackrf_si5351c_read_def request_simps not_le split: option.split if_splits)

interpretation rffc5071_read_request: checked_request
  "\<lambda>H d (reg, v). hackrf_rffc5071_read H d reg v"
  fst no_need "\<lambda>(reg, v). reg < 31"
  "\<lambda>H h (reg, v). Usb_control h VENDOR_IN (request_code RFFC5071_READ) 0 (ucast reg) [] 2"
  "\<lambda>_ res. 2 \<le> res"
  by (rule checked_requestI)
    (auto simp: hackrf_rffc5071_read_def request_simps not_le split: option.split if_splits)

interpretation spiflash_read_request: checked_request
  "\<lambda>H d (a, n, buf). hackrf_spiflash_read H d a n buf"
  fst "\<lambda>H (a, n, buf). unat n \<le> length buf" "\<lambda>(a, n, buf). a \<le> 0x0FFFFF"
  "\<lambda>H h (a, n, buf). Usb_control h VENDOR_IN (request_code SPIFLASH_READ) (ucast (drop_bit 16 a)) (ucast (a AND 0xFFFF)) [] n"
  "\<lambda>(a, n, buf) res. uint n \<le> res"
  by (rule checked_requestI)
    (auto simp: hackrf_spiflash_read_def request_simps not_le split: option.split if_splits)

interpretation board_id_read_request: checked_request
  hackrf_board_id_read
  fst no_need "\<lambda>_. True"
  "\<lambda>H h v. Usb_control h VENDOR_IN (request_code BOARD_ID_READ) 0 0 [] 1"
  "\<lambda>_ res. 1 \<le> res"
  by (rule checked_requestI)
    (auto simp: hackrf_board_id_read_def request_simps not_le split: option.split if_splits)

lemma length_partid [simp]: "length (concat (map (mem32 be) (partid_words p))) = 24"
  by (simp add: partid_words_def split: prod.split)

interpretation board_partid_serialno_read_request: checked_request
  hackrf_board_partid_serialno_read
  fst no_need "\<lambda>_. True"
  "\<lambda>H h v. Usb_control h VENDOR_IN (request_code BOARD_PARTID_SERIALNO_READ) 0 0 [] 24"
  "\<lambda>_ res. 24 \<le> res"
  by (rule checked_requestI)
    (auto simp: hackrf_board_partid_serialno_read_def request_simps not_le split: option.split if_splits)

text \<open>The gains.\<close>

lemma and_not_low_bits:
  fixes v :: "'a::len word"
  shows "v AND NOT (mask k) = push_bit k (drop_bit k v)"
  by (rule bit_word_eqI) (auto simp: bit_simps)

lemma unat_and_not_low_bits:
  fixes v :: "'a::len word"
  shows "unat (v AND NOT (mask k)) = 2 ^ k * (unat v div 2 ^ k)"
proof -
  have "2 ^ k * (unat v div 2 ^ k) < 2 ^ LENGTH('a)"
    by (rule le_less_trans [OF _ unsigned_less [of v]]) simp
  moreover have "unat (push_bit k (drop_bit k v)) = take_bit LENGTH('a) (push_bit k (drop_bit k (unat v)))"
    by (simp only: unsigned_push_bit_eq unat_drop_bit_eq)
  ultimately show ?thesis
    by (simp add: and_not_low_bits take_bit_nat_eq_self push_bit_eq_mult [where 'a = nat]
        drop_bit_eq_div [where 'a = nat] mult.commute)
qed

lemma unat_and_not_7: "unat ((v :: u32) AND NOT 7) = 8 * (unat v div 8)"
  using unat_and_not_low_bits [of v 3] by (simp add: mask_eq_exp_minus_1)

lemma unat_and_not_1: "unat ((v :: u32) AND NOT 1) = 2 * (unat v div 2)"
  using unat_and_not_low_bits [of v 1] by (simp add: mask_eq_exp_minus_1)

lemma unat_ucast_small: "unat (x :: u32) < 65536 \<Longrightarrow> unat (ucast x :: u16) = unat x"
  by (simp add: unsigned_ucast_eq take_bit_eq_mod)

lemma overlay_one: "bs \<noteq> [] \<Longrightarrow> hd (overlay bs (Suc 0) [x]) = hd bs"
  by (cases bs) (simp_all add: overlay_def)

lemma gain_requestI:
  assumes run: "\<And>H d v s. run H d v s =
     (if limit < unat v then Some (HACKRF_ERROR_INVALID_PARAM, s)
      else do { (dv, s) \<leftarrow> get_dev d s;
                ((result, retval), s) \<leftarrow> libusb_control_transfer H (usb_device dv) VENDOR_IN
                   (request_code code) 0 (ucast (rounded v)) [stack H 0] 1 s;
                if result \<noteq> 1 \<or> hd retval = 0 then Some (HACKRF_ERROR_INVALID_PARAM, s)
                else Some (HACKRF_SUCCESS, s) })"
    and rounded: "\<And>v. unat (rounded v :: u32) = step * (unat v div step)"
    and small: "limit < 65536"
  shows "gain_request run limit step code"
proof
  fix H d v and s :: lib
  show "limit < unat v \<Longrightarrow> run H d v s = Some (HACKRF_ERROR_INVALID_PARAM, s)"
    by (simp add: run)
  show "on_bus d s \<Longrightarrow> \<exists>r s'. run H d v s = Some (r, s')"
    by (elim on_busE) (auto simp: run Let_def)
next
  fix H d v and s :: lib and r s'
  show "run H d v s = Some (r, s') \<Longrightarrow> confined s s'"
    by (auto simp: run bind_pair_Some split: if_splits dest!: get_dev_confined control_confined)
next
  fix H d v and s :: lib and r s' dv
  assume v: "unat v \<le> limit" and dv: "devs s d = Some dv" and run': "run H d v s = Some (r, s')"
  let ?g = "ucast (rounded v) :: u16"
  let ?c = "Usb_control (usb_device dv) VENDOR_IN (request_code code) 0 ?g [] 1"
  let ?a = "answer H (trace s) ?c"
  have "unat (rounded v) \<le> unat v" by (simp add: rounded)
  then have g: "unat ?g = step * (unat v div step)"
    using v small unat_ucast_small [of "rounded v"] by (simp flip: rounded)
  have live: "usb_device dv \<in> handles s"
    by (rule ccontr) (use v dv run' in \<open>simp add: run libusb_control_transfer_def on_handle_def\<close>)
  show "\<exists>g. unat g = step * (unat v div step) \<and>
        (let c = Usb_control (usb_device dv) VENDOR_IN (request_code code) 0 g [] 1;
             a = answer H (trace s) c
         in s' = s\<lparr>trace := trace s @ [c]\<rparr> \<and>
            (r = HACKRF_SUCCESS \<longrightarrow> rc a = 1) \<and>
            r \<in> {HACKRF_SUCCESS, HACKRF_ERROR_INVALID_PARAM} \<and>
            (bytes a \<noteq> [] \<longrightarrow> (r = HACKRF_SUCCESS \<longleftrightarrow> rc a = 1 \<and> hd (bytes a) \<noteq> 0)))"
    using v dv live run' by (intro exI [of _ ?g] conjI g)
      (auto simp: run Let_def overlay_one split: if_splits)
qed

interpretation set_lna_gain_request: gain_request hackrf_set_lna_gain 40 8 SET_LNA_GAIN
  by (rule gain_requestI [OF _ unat_and_not_7]) (simp_all add: hackrf_set_lna_gain_def word_less_nat_alt)

interpretation set_vga_gain_request: gain_request hackrf_set_vga_gain 62 2 SET_VGA_GAIN
  by (rule gain_requestI [OF _ unat_and_not_1]) (simp_all add: hackrf_set_vga_gain_def word_less_nat_alt)

interpretation set_txvga_gain_request: gain_request hackrf_set_txvga_gain 47 1 SET_TXVGA_GAIN
  by (rule gain_requestI [where rounded = "\<lambda>v. v"])
    (simp_all add: hackrf_set_txvga_gain_def word_less_nat_alt)

text \<open>libusb documents that a control transfer never moves more than \<open>wLength\<close> bytes.\<close>

definition bounded_answers :: "host \<Rightarrow> bool" where
  "bounded_answers H \<longleftrightarrow>
     (\<forall>tr h t q v i data n. rc (answer H tr (Usb_control h t q v i data n)) \<le> uint n)"

lemma unat_u8_less: "unat (x :: u8) < 256"
  using unsigned_less [of x] by simp

lemma unat_ucast_up: "unat (ucast (x :: u8) :: u16) = unat x"
  using unat_u8_less [of x] by (simp add: unsigned_ucast_eq take_bit_nat_eq_self)

lemma bounded_answersD:
  "bounded_answers H \<Longrightarrow> nat (rc (answer H tr (Usb_control h t q v i data n))) \<le> unat n"
  by (simp add: bounded_answers_def nat_le_iff)

interpretation version_string_request: vendor_request
  "\<lambda>H d (buf, n). hackrf_version_string_read H d buf n" fst
  "\<lambda>H (buf, n). bounded_answers H \<and> unat n < length buf"
proof
  fix H d r and x :: "u8 list \<times> u8" and s s' :: lib
  assume "(\<lambda>(buf, n). hackrf_version_string_read H d buf n) x s = Some (r, s')"
  then show "confined s s'"
    by (cases x) (auto simp: hackrf_version_string_read_def fail_libusb_def bind_pair_Some
        split: if_splits dest!: get_dev_confined control_confined intro: confined_trans)
next
  fix H d and x :: "u8 list \<times> u8" and s :: lib
  assume bus: "on_bus d s" and fits: "case x of (buf, n) \<Rightarrow> bounded_answers H \<and> unat n < length buf"
  obtain buf n where x: "x = (buf, n)" by (cases x)
  have "nat (rc (answer H tr (Usb_control h t q v i data (ucast n)))) < length buf" for tr h t q v i data
    using fits bounded_answersD [of H tr h t q v i data "ucast n"] by (auto simp: x unat_ucast_up)
  with bus fits show "\<exists>r s'. (\<lambda>(buf, n). hackrf_version_string_read H d buf n) x s = Some (r, s')"
    by (elim on_busE) (auto simp: x hackrf_version_string_read_def fail_libusb_def Let_def unat_ucast_up)
qed

lemma set_baseband_runs:
  "on_bus d s \<Longrightarrow> \<exists>r s'. hackrf_set_baseband_filter_bandwidth H d bw s = Some (r, s')"
  by (rule set_baseband_filter_bandwidth_request.runs) simp_all

interpretation set_sample_rate_manual_request: vendor_request
  "\<lambda>H d (rate, divider). hackrf_set_sample_rate_manual H d rate divider" id
  "\<lambda>H (rate, divider). divider \<noteq> 0"
proof
  fix H d r and x :: "u32 \<times> u32" and s s' :: lib
  assume "(\<lambda>(rate, divider). hackrf_set_sample_rate_manual H d rate divider) x s = Some (r, s')"
  then show "confined s s'"
    by (cases x) (auto simp: hackrf_set_sample_rate_manual_def fail_libusb_def bind_pair_Some Let_def
        bind_eq_Some_conv split: if_splits
        dest!: get_dev_confined control_confined set_baseband_filter_bandwidth_request.confined intro: confined_trans)
next
  fix H d and x :: "u32 \<times> u32" and s :: lib
  assume bus: "on_bus d s" and fits: "case x of (rate, divider) \<Rightarrow> divider \<noteq> 0"
  have again: "on_bus d (s\<lparr>trace := tr\<rparr>)" for tr
    using bus by (simp add: on_bus_def split: option.splits)
  from bus fits show "\<exists>r s'. (\<lambda>(rate, divider). hackrf_set_sample_rate_manual H d rate divider) x s = Some (r, s')"
    by (elim on_busE) (auto simp: hackrf_set_sample_rate_manual_def rate_bandwidth_def fail_libusb_def
        Let_def set_baseband_runs [OF again])
qed

end
