(* ===== verification/Gated_Requests.thy ===== *)
theory Gated_Requests
  imports Requests
begin

text \<open>
  The requests of hackrf.c that need a firmware with a minimal USB API version. Each starts
  with the macro \<open>USB_API_REQUIRED\<close>, which reads the version out of the device descriptor,
  drops the status of that read and returns when the version is too old. The interpretations
  at the end show that all of them honour \<open>gated_request\<close>.
\<close>

section \<open>The version gate\<close>

definition hackrf_usb_api_version_read ::
  "host \<Rightarrow> ptr \<Rightarrow> u16 \<Rightarrow> lib \<Rightarrow> ((hackrf_error \<times> u16) \<times> lib) option" where
  "hackrf_usb_api_version_read H device version s =
     do { (dv, s) \<leftarrow> get_dev device s;
          (r, s) \<leftarrow> on_handle H (usb_device dv) (Usb_get_own_descriptor (usb_device dv)) s;
          if rc r < 0 then do { (e, s) \<leftarrow> fail_libusb (rc r) s; Some ((e, version), s) }
          else Some ((HACKRF_SUCCESS, bcdDevice (desc r)), s) }"

text \<open>The macro: \<open>False\<close> is its \<open>return HACKRF_ERROR_USB_API_VERSION\<close>.\<close>

definition USB_API_REQUIRED :: "host \<Rightarrow> ptr \<Rightarrow> u16 \<Rightarrow> lib \<Rightarrow> (bool \<times> lib) option" where
  "USB_API_REQUIRED H device version s =
     do { ((_, usb_version), s) \<leftarrow> hackrf_usb_api_version_read H device 0 s;
          Some (\<not> usb_version < version, s) }"

section \<open>Requests\<close>

definition hackrf_spiflash_status ::
  "host \<Rightarrow> ptr \<Rightarrow> u8 list \<Rightarrow> lib \<Rightarrow> ((hackrf_error \<times> u8 list) \<times> lib) option" where
  "hackrf_spiflash_status H device data s =
     do { (ok, s) \<leftarrow> USB_API_REQUIRED H device 0x0103 s;
          if \<not> ok then Some ((HACKRF_ERROR_USB_API_VERSION, data), s)
          else do { (dv, s) \<leftarrow> get_dev device s;
                    ((result, buf), s) \<leftarrow> libusb_control_transfer H (usb_device dv) VENDOR_IN
                       (request_code SPIFLASH_STATUS) 0 0 data 2 s;
                    if result < 1 then do { (e, s) \<leftarrow> fail_libusb result s; Some ((e, buf), s) }
                    else Some ((HACKRF_SUCCESS, buf), s) } }"

definition hackrf_spiflash_clear_status :: "host \<Rightarrow> ptr \<Rightarrow> lib \<Rightarrow> (hackrf_error \<times> lib) option" where
  "hackrf_spiflash_clear_status H device s =
     do { (ok, s) \<leftarrow> USB_API_REQUIRED H device 0x0103 s;
          if \<not> ok then Some (HACKRF_ERROR_USB_API_VERSION, s)
          else do { (dv, s) \<leftarrow> get_dev device s;
                    ((result, _), s) \<leftarrow> libusb_control_transfer H (usb_device dv) VENDOR_OUT
                       (request_code SPIFLASH_CLEAR_STATUS) 0 0 [] 0 s;
                    if result \<noteq> 0 then fail_libusb result s else Some (HACKRF_SUCCESS, s) } }"

definition hackrf_set_hw_sync_mode :: "host \<Rightarrow> ptr \<Rightarrow> u8 \<Rightarrow> lib \<Rightarrow> (hackrf_error \<times> lib) option" where
  "hackrf_set_hw_sync_mode H device v s =
     do { (ok, s) \<leftarrow> USB_API_REQUIRED H device 0x0102 s;
          if \<not> ok then Some (HACKRF_ERROR_USB_API_VERSION, s)
          else do { (dv, s) \<leftarrow> get_dev device s;
                    ((result, _), s) \<leftarrow> libusb_control_transfer H (usb_device dv) VENDOR_OUT
                       (request_code SET_HW_SYNC_MODE) (ucast v) 0 [] 0 s;
                    if result \<noteq> 0 then fail_libusb result s else Some (HACKRF_SUCCESS, s) } }"

text \<open>
  \<open>hackrf_init_sweep\<close>: the packet is built in an automatic array of 49 bytes, of which
  \<open>size\<close> are written and sent. \<open>style\<close> is an enum without negative members, an unsigned
  integer. Fewer than \<open>2 * num_ranges\<close> frequencies is an access outside the caller's array.
\<close>

definition BYTES_PER_BLOCK :: u32 where
  "BYTES_PER_BLOCK = 16384"

definition MAX_SWEEP_RANGES :: int where
  "MAX_SWEEP_RANGES = 10"

definition INTERLEAVED :: u32 where
  "INTERLEAVED = 1"

definition sweep_header :: "u32 \<Rightarrow> u32 \<Rightarrow> u32 \<Rightarrow> u8 list" where
  "sweep_header step_width offset style =
     [ucast (step_width AND 0xff), ucast (drop_bit 8 step_width AND 0xff),
      ucast (drop_bit 16 step_width AND 0xff), ucast (drop_bit 24 step_width AND 0xff),
      ucast (offset AND 0xff), ucast (drop_bit 8 offset AND 0xff),
      ucast (drop_bit 16 offset AND 0xff), ucast (drop_bit 24 offset AND 0xff), ucast style]"

definition sweep_frequency :: "u16 \<Rightarrow> u8 list" where
  "sweep_frequency f = [ucast (f AND 0xff), ucast (drop_bit 8 f AND 0xff)]"

definition sweep_data :: "host \<Rightarrow> u16 list \<Rightarrow> nat \<Rightarrow> u32 \<Rightarrow> u32 \<Rightarrow> u32 \<Rightarrow> u8 list" where
  "sweep_data H frequency_list num_ranges step_width offset style =
     overlay (sweep_header step_width offset style
                @ concat (map (\<lambda>i. sweep_frequency (frequency_list ! i)) [0..<2 * num_ranges]))
       49 (map (stack H) [0..<49])"

definition hackrf_init_sweep ::
  "host \<Rightarrow> ptr \<Rightarrow> u16 list \<Rightarrow> int \<Rightarrow> u32 \<Rightarrow> u32 \<Rightarrow> u32 \<Rightarrow> u32 \<Rightarrow> lib \<Rightarrow> (hackrf_error \<times> lib) option" where
  "hackrf_init_sweep H device frequency_list num_ranges num_bytes step_width offset style s =
     do { (ok, s) \<leftarrow> USB_API_REQUIRED H device 0x0102 s;
          if \<not> ok then Some (HACKRF_ERROR_USB_API_VERSION, s)
          else let size = 9 + num_ranges * 2 * 2 in
          if num_ranges < 1 \<or> num_ranges > MAX_SWEEP_RANGES then Some (HACKRF_ERROR_INVALID_PARAM, s)
          else if num_bytes mod BYTES_PER_BLOCK \<noteq> 0 then Some (HACKRF_ERROR_INVALID_PARAM, s)
          else if BYTES_PER_BLOCK > num_bytes then Some (HACKRF_ERROR_INVALID_PARAM, s)
          else if 1 > step_width then Some (HACKRF_ERROR_INVALID_PARAM, s)
          else if INTERLEAVED < style then Some (HACKRF_ERROR_INVALID_PARAM, s)
          else do { (_, s) \<leftarrow> ub_unless (2 * nat num_ranges \<le> length frequency_list) s;
                    let data = sweep_data H frequency_list (nat num_ranges) step_width offset style;
                    (dv, s) \<leftarrow> get_dev device s;
                    ((result, _), s) \<leftarrow> libusb_control_transfer H (usb_device dv) VENDOR_OUT
                       (request_code INIT_SWEEP) (ucast (num_bytes AND 0xffff))
                       (ucast (drop_bit 16 num_bytes AND 0xffff)) data (of_int size) s;
                    if result < size then fail_libusb result s else Some (HACKRF_SUCCESS, s) } }"

definition hackrf_get_operacake_boards ::
  "host \<Rightarrow> ptr \<Rightarrow> u8 list \<Rightarrow> lib \<Rightarrow> ((hackrf_error \<times> u8 list) \<times> lib) option" where
  "hackrf_get_operacake_boards H device boards s =
     do { (ok, s) \<leftarrow> USB_API_REQUIRED H device 0x0102 s;
          if \<not> ok then Some ((HACKRF_ERROR_USB_API_VERSION, boards), s)
          else do { (dv, s) \<leftarrow> get_dev device s;
                    ((result, buf), s) \<leftarrow> libusb_control_transfer H (usb_device dv) VENDOR_IN
                       (request_code OPERACAKE_GET_BOARDS) 0 0 boards 8 s;
                    if result < 8 then do { (e, s) \<leftarrow> fail_libusb result s; Some ((e, buf), s) }
                    else Some ((HACKRF_SUCCESS, buf), s) } }"

definition OPERACAKE_PA4 :: u8 where
  "OPERACAKE_PA4 = 3"

definition OPERACAKE_PB4 :: u8 where
  "OPERACAKE_PB4 = 7"

definition hackrf_set_operacake_ports ::
  "host \<Rightarrow> ptr \<Rightarrow> u8 \<Rightarrow> u8 \<Rightarrow> u8 \<Rightarrow> lib \<Rightarrow> (hackrf_error \<times> lib) option" where
  "hackrf_set_operacake_ports H device address port_a port_b s =
     do { (ok, s) \<leftarrow> USB_API_REQUIRED H device 0x0102 s;
          if \<not> ok then Some (HACKRF_ERROR_USB_API_VERSION, s)
          else if port_a > OPERACAKE_PB4 \<or> port_b > OPERACAKE_PB4
          then Some (HACKRF_ERROR_INVALID_PARAM, s)
          else if port_a \<le> OPERACAKE_PA4 \<and> port_b \<le> OPERACAKE_PA4
               \<or> port_a > OPERACAKE_PA4 \<and> port_b > OPERACAKE_PA4
          then Some (HACKRF_ERROR_INVALID_PARAM, s)
          else do { (dv, s) \<leftarrow> get_dev device s;
                    ((result, _), s) \<leftarrow> libusb_control_transfer H (usb_device dv) VENDOR_OUT
                       (request_code OPERACAKE_SET_PORTS) (ucast address)
                       (ucast port_a OR push_bit 8 (ucast port_b)) [] 0 s;
                    if result \<noteq> 0 then fail_libusb result s else Some (HACKRF_SUCCESS, s) } }"

definition hackrf_reset :: "host \<Rightarrow> ptr \<Rightarrow> lib \<Rightarrow> (hackrf_error \<times> lib) option" where
  "hackrf_reset H device s =
     do { (ok, s) \<leftarrow> USB_API_REQUIRED H device 0x0102 s;
          if \<not> ok then Some (HACKRF_ERROR_USB_API_VERSION, s)
          else do { (dv, s) \<leftarrow> get_dev device s;
                    ((result, _), s) \<leftarrow> libusb_control_transfer H (usb_device dv) VENDOR_OUT
                       (request_code RESET) 0 0 [] 0 s;
                    if result \<noteq> 0 then fail_libusb result s else Some (HACKRF_SUCCESS, s) } }"

definition hackrf_set_operacake_ranges ::
  "host \<Rightarrow> ptr \<Rightarrow> u8 list \<Rightarrow> u8 \<Rightarrow> lib \<Rightarrow> (hackrf_error \<times> lib) option" where
  "hackrf_set_operacake_ranges H device ranges len_ranges s =
     do { (ok, s) \<leftarrow> USB_API_REQUIRED H device 0x0103 s;
          if \<not> ok then Some (HACKRF_ERROR_USB_API_VERSION, s)
          else do { (dv, s) \<leftarrow> get_dev device s;
                    ((result, _), s) \<leftarrow> libusb_control_transfer H (usb_device dv) VENDOR_OUT
                       (request_code OPERACAKE_SET_RANGES) 0 0 ranges (ucast len_ranges) s;
                    if result < uint len_ranges then fail_libusb result s
                    else Some (HACKRF_SUCCESS, s) } }"

definition hackrf_set_clkout_enable :: "host \<Rightarrow> ptr \<Rightarrow> u8 \<Rightarrow> lib \<Rightarrow> (hackrf_error \<times> lib) option" where
  "hackrf_set_clkout_enable H device v s =
     do { (ok, s) \<leftarrow> USB_API_REQUIRED H device 0x0103 s;
          if \<not> ok then Some (HACKRF_ERROR_USB_API_VERSION, s)
          else do { (dv, s) \<leftarrow> get_dev device s;
                    ((result, _), s) \<leftarrow> libusb_control_transfer H (usb_device dv) VENDOR_OUT
                       (request_code CLKOUT_ENABLE) (ucast v) 0 [] 0 s;
                    if result \<noteq> 0 then fail_libusb result s else Some (HACKRF_SUCCESS, s) } }"

definition hackrf_operacake_gpio_test ::
  "host \<Rightarrow> ptr \<Rightarrow> u8 \<Rightarrow> u16 \<Rightarrow> lib \<Rightarrow> ((hackrf_error \<times> u16) \<times> lib) option" where
  "hackrf_operacake_gpio_test H device address test_result s =
     do { (ok, s) \<leftarrow> USB_API_REQUIRED H device 0x0103 s;
          if \<not> ok then Some ((HACKRF_ERROR_USB_API_VERSION, test_result), s)
          else do { (dv, s) \<leftarrow> get_dev device s;
                    ((result, buf), s) \<leftarrow> libusb_control_transfer H (usb_device dv) VENDOR_IN
                       (request_code OPERACAKE_GPIO_TEST) (ucast address) 0
                       (mem16 (big_endian H) test_result) 2 s;
                    if result < 1
                    then do { (e, s) \<leftarrow> fail_libusb result s; Some ((e, load16 (big_endian H) buf), s) }
                    else Some ((HACKRF_SUCCESS, load16 (big_endian H) buf), s) } }"

definition hackrf_cpld_checksum ::
  "host \<Rightarrow> ptr \<Rightarrow> u32 \<Rightarrow> lib \<Rightarrow> ((hackrf_error \<times> u32) \<times> lib) option" where
  "hackrf_cpld_checksum H device crc s =
     do { (ok, s) \<leftarrow> USB_API_REQUIRED H device 0x0103 s;
          if \<not> ok then Some ((HACKRF_ERROR_USB_API_VERSION, crc), s)
          else let len = 4 in
               do { (dv, s) \<leftarrow> get_dev device s;
                    ((result, buf), s) \<leftarrow> libusb_control_transfer H (usb_device dv) VENDOR_IN
                       (request_code CPLD_CHECKSUM) 0 0 (mem32 (big_endian H) crc) len s;
                    if result < uint len
                    then do { (e, s) \<leftarrow> fail_libusb result s; Some ((e, load32 (big_endian H) buf), s) }
                    else Some ((HACKRF_SUCCESS, TO_LE (big_endian H) (load32 (big_endian H) buf)), s) } }"

section \<open>The routines honour the gated contract\<close>

definition gate_open :: "host \<Rightarrow> ptr \<Rightarrow> u16 \<Rightarrow> lib \<Rightarrow> bool" where
  "gate_open H h needed s \<longleftrightarrow>
     (let v = answer H (trace s) (Usb_get_own_descriptor h)
      in 0 \<le> rc v \<and> needed \<le> bcdDevice (desc v))"

definition asked :: "host \<Rightarrow> ptr \<Rightarrow> lib \<Rightarrow> lib" where
  "asked H h s =
     (let c = Usb_get_own_descriptor h; e = rc (answer H (trace s) c)
      in s\<lparr>last_libusb_error := if e < 0 then e else last_libusb_error s, trace := trace s @ [c]\<rparr>)"

lemma asked_simps [simp]:
  "devs (asked H h s) = devs s" "handles (asked H h s) = handles s"
  "trace (asked H h s) = trace s @ [Usb_get_own_descriptor h]" "confined s (asked H h s)"
  by (simp_all add: asked_def Let_def)

lemma asked_open:
  "gate_open H h needed s \<Longrightarrow> asked H h s = s\<lparr>trace := trace s @ [Usb_get_own_descriptor h]\<rparr>"
  by (cases s) (simp add: asked_def gate_open_def Let_def)

lemma USB_API_REQUIRED_run:
  assumes "devs s d = Some dv" "usb_device dv \<in> handles s" "version \<noteq> 0"
  shows "USB_API_REQUIRED H d version s =
    Some (gate_open H (usb_device dv) version s, asked H (usb_device dv) s)"
proof -
  have "0 < version" using assms(3) by (simp add: word_neq_0_conv)
  with assms(1,2) show ?thesis
    by (cases s) (auto simp: USB_API_REQUIRED_def hackrf_usb_api_version_read_def fail_libusb_def
        gate_open_def asked_def Let_def)
qed

lemma USB_API_REQUIRED_off_bus: "\<not> on_bus d s \<Longrightarrow> USB_API_REQUIRED H d version s = None"
  by (auto simp: USB_API_REQUIRED_def hackrf_usb_api_version_read_def get_dev_def on_bus_def
      on_handle_def split: option.splits)

lemma gated_requestI:
  fixes run :: "host \<Rightarrow> ptr \<Rightarrow> 'a \<Rightarrow> lib \<Rightarrow> ('r \<times> lib) option"
  assumes closed: "\<And>H d x s dv. devs s d = Some dv \<Longrightarrow> usb_device dv \<in> handles s \<Longrightarrow>
      \<not> gate_open H (usb_device dv) needed s \<Longrightarrow>
      \<exists>r. run H d x s = Some (r, asked H (usb_device dv) s) \<and> status r = HACKRF_ERROR_USB_API_VERSION"
    and rej: "\<And>H d x s dv. devs s d = Some dv \<Longrightarrow> usb_device dv \<in> handles s \<Longrightarrow>
      gate_open H (usb_device dv) needed s \<Longrightarrow> \<not> accepts x \<Longrightarrow>
      \<exists>r. run H d x s = Some (r, asked H (usb_device dv) s) \<and> status r = HACKRF_ERROR_INVALID_PARAM"
    and acc: "\<And>H d x s dv c res. devs s d = Some dv \<Longrightarrow> usb_device dv \<in> handles s \<Longrightarrow>
      gate_open H (usb_device dv) needed s \<Longrightarrow> accepts x \<Longrightarrow> fits H x \<Longrightarrow>
      c = packet H (usb_device dv) x \<Longrightarrow>
      res = rc (answer H (trace s @ [Usb_get_own_descriptor (usb_device dv)]) c) \<Longrightarrow>
      \<exists>r. run H d x s = Some (r, s\<lparr>last_libusb_error := if adequate x res then last_libusb_error s else res,
                                   trace := trace s @ [Usb_get_own_descriptor (usb_device dv), c]\<rparr>)
        \<and> status r = (if adequate x res then HACKRF_SUCCESS else HACKRF_ERROR_LIBUSB)"
    and stuck: "\<And>H d x s dv. devs s d = Some dv \<Longrightarrow> usb_device dv \<in> handles s \<Longrightarrow>
      gate_open H (usb_device dv) needed s \<Longrightarrow> accepts x \<Longrightarrow> \<not> fits H x \<Longrightarrow> run H d x s = None"
    and dead: "\<And>H d x s. \<not> on_bus d s \<Longrightarrow> run H d x s = None"
  shows "gated_request run status fits needed accepts packet adequate"
proof
  fix H d x s r s'
  assume run: "run H d x s = Some (r, s')"
  then have "on_bus d s" using dead [of d s H x] by fastforce
  then obtain dv where dv: "devs s d = Some dv" "usb_device dv \<in> handles s" by (elim on_busE)
  consider "\<not> gate_open H (usb_device dv) needed s"
    | "gate_open H (usb_device dv) needed s" "\<not> accepts x"
    | "gate_open H (usb_device dv) needed s" "accepts x" "fits H x"
    using stuck [OF dv, of H x] run by fastforce
  then show "confined s s'"
  proof cases
    case 1
    from closed [OF dv 1, of x] run show ?thesis by auto
  next
    case 2
    from rej [OF dv 2] run show ?thesis by auto
  next
    case 3
    from acc [OF dv 3 refl refl] run show ?thesis by (auto intro: confinedI)
  qed
next
  fix H d x and s :: lib
  assume bus: "on_bus d s" and fits: "fits H x"
  from bus obtain dv where dv: "devs s d = Some dv" "usb_device dv \<in> handles s" by (elim on_busE)
  show "\<exists>r s'. run H d x s = Some (r, s')"
    using closed [OF dv, of H x] rej [OF dv, of H x] acc [OF dv _ _ fits refl refl] by blast
next
  fix H d x s r s' dv
  assume at: "devs s d = Some dv" and run: "run H d x s = Some (r, s')"
  then have "on_bus d s" using dead [of d s H x] by fastforce
  with at have dv: "devs s d = Some dv" "usb_device dv \<in> handles s" by (simp_all add: on_bus_def)
  let ?ask = "Usb_get_own_descriptor (usb_device dv)"
  let ?c = "packet H (usb_device dv) x"
  let ?res = "rc (answer H (trace s @ [?ask]) ?c)"
  consider (closed) "\<not> gate_open H (usb_device dv) needed s"
    | (rej) "gate_open H (usb_device dv) needed s" "\<not> accepts x"
    | (acc) "gate_open H (usb_device dv) needed s" "accepts x" "fits H x"
    using stuck [OF dv, of H x] run by fastforce
  then have "if \<not> gate_open H (usb_device dv) needed s
      then status r = HACKRF_ERROR_USB_API_VERSION \<and> trace s' = trace s @ [?ask]
      else if \<not> accepts x then status r = HACKRF_ERROR_INVALID_PARAM \<and> trace s' = trace s @ [?ask]
      else trace s' = trace s @ [?ask, ?c] \<and>
        (if adequate x ?res then status r = HACKRF_SUCCESS
         else status r = HACKRF_ERROR_LIBUSB \<and> last_libusb_error s' = ?res)"
  proof cases
    case closed
    from assms(1) [OF dv this, of x] run closed show ?thesis by auto
  next
    case rej
    from assms(2) [OF dv rej] run rej show ?thesis by auto
  next
    case acc
    from assms(3) [OF dv acc refl refl] run acc show ?thesis by auto
  qed
  then show "let ask = Usb_get_own_descriptor (usb_device dv); v = answer H (trace s) ask;
           open_gate = (0 \<le> rc v \<and> needed \<le> bcdDevice (desc v));
           c = packet H (usb_device dv) x; res = rc (answer H (trace s @ [ask]) c)
       in if \<not> open_gate then status r = HACKRF_ERROR_USB_API_VERSION \<and> trace s' = trace s @ [ask]
          else if \<not> accepts x then status r = HACKRF_ERROR_INVALID_PARAM \<and> trace s' = trace s @ [ask]
          else trace s' = trace s @ [ask, c] \<and>
            (if adequate x res then status r = HACKRF_SUCCESS
             else status r = HACKRF_ERROR_LIBUSB \<and> last_libusb_error s' = res)"
    by (simp add: gate_open_def Let_def)
qed

lemmas gated_simps = USB_API_REQUIRED_run USB_API_REQUIRED_off_bus asked_open request_simps not_le not_less

interpretation spiflash_status_request: gated_request
  "hackrf_spiflash_status"
  fst "\<lambda>H buf. 2 \<le> length buf" "0x0103" "\<lambda>_. True"
  "\<lambda>H h buf. Usb_control h VENDOR_IN (request_code SPIFLASH_STATUS) 0 0 [] 2"
  "\<lambda>_ res. 1 \<le> res"
  by (rule gated_requestI)
    (auto simp: hackrf_spiflash_status_def gated_simps split: option.split if_splits)

interpretation spiflash_clear_status_request: gated_request
  "\<lambda>H d (u :: unit). hackrf_spiflash_clear_status H d"
  id "\<lambda>_ _. True" "0x0103" "\<lambda>_ :: unit. True"
  "\<lambda>H h u. Usb_control h VENDOR_OUT (request_code SPIFLASH_CLEAR_STATUS) 0 0 [] 0"
  "\<lambda>_ res. res = 0"
  by (rule gated_requestI)
    (auto simp: hackrf_spiflash_clear_status_def gated_simps split: option.split if_splits)

interpretation set_hw_sync_mode_request: gated_request
  "hackrf_set_hw_sync_mode"
  id "\<lambda>_ _. True" "0x0102" "\<lambda>_. True"
  "\<lambda>H h v. Usb_control h VENDOR_OUT (request_code SET_HW_SYNC_MODE) (ucast v) 0 [] 0"
  "\<lambda>_ res. res = 0"
  by (rule gated_requestI)
    (auto simp: hackrf_set_hw_sync_mode_def gated_simps split: option.split if_splits)

interpretation get_operacake_boards_request: gated_request
  "hackrf_get_operacake_boards"
  fst "\<lambda>H buf. 8 \<le> length buf" "0x0102" "\<lambda>_. True"
  "\<lambda>H h buf. Usb_control h VENDOR_IN (request_code OPERACAKE_GET_BOARDS) 0 0 [] 8"
  "\<lambda>_ res. 8 \<le> res"
  by (rule gated_requestI)
    (auto simp: hackrf_get_operacake_boards_def gated_simps split: option.split if_splits)

interpretation set_operacake_ports_request: gated_request
  "\<lambda>H d (address, a, b). hackrf_set_operacake_ports H d address a b"
  id "\<lambda>_ _. True" "0x0102" "\<lambda>(address, a, b). a \<le> 7 \<and> b \<le> 7 \<and> (a \<le> 3) \<noteq> (b \<le> 3)"
  "\<lambda>H h (address, a, b). Usb_control h VENDOR_OUT (request_code OPERACAKE_SET_PORTS) (ucast address)
     (ucast a OR push_bit 8 (ucast b)) [] 0"
  "\<lambda>_ res. res = 0"
  by (rule gated_requestI)
    (auto simp: hackrf_set_operacake_ports_def gated_simps OPERACAKE_PA4_def OPERACAKE_PB4_def split: option.split if_splits)

interpretation reset_request: gated_request
  "\<lambda>H d (u :: unit). hackrf_reset H d"
  id "\<lambda>_ _. True" "0x0102" "\<lambda>_ :: unit. True"
  "\<lambda>H h u. Usb_control h VENDOR_OUT (request_code RESET) 0 0 [] 0"
  "\<lambda>_ res. res = 0"
  by (rule gated_requestI)
    (auto simp: hackrf_reset_def gated_simps split: option.split if_splits)

interpretation set_operacake_ranges_request: gated_request
  "\<lambda>H d (ranges, n). hackrf_set_operacake_ranges H d ranges n"
  id "\<lambda>H (ranges, n). unat n \<le> length ranges" "0x0103" "\<lambda>_. True"
  "\<lambda>H h (ranges, n). Usb_control h VENDOR_OUT (request_code OPERACAKE_SET_RANGES) 0 0
     (take (unat n) ranges) (ucast n)"
  "\<lambda>(ranges, n) res. uint n \<le> res"
  by (rule gated_requestI)
    (auto simp: hackrf_set_operacake_ranges_def gated_simps unat_ucast_up split: option.split if_splits)

interpretation set_clkout_enable_request: gated_request
  "hackrf_set_clkout_enable"
  id "\<lambda>_ _. True" "0x0103" "\<lambda>_. True"
  "\<lambda>H h v. Usb_control h VENDOR_OUT (request_code CLKOUT_ENABLE) (ucast v) 0 [] 0"
  "\<lambda>_ res. res = 0"
  by (rule gated_requestI)
    (auto simp: hackrf_set_clkout_enable_def gated_simps split: option.split if_splits)

interpretation operacake_gpio_test_request: gated_request
  "\<lambda>H d (address, v). hackrf_operacake_gpio_test H d address v"
  fst "\<lambda>_ _. True" "0x0103" "\<lambda>_. True"
  "\<lambda>H h (address, v). Usb_control h VENDOR_IN (request_code OPERACAKE_GPIO_TEST) (ucast address) 0 [] 2"
  "\<lambda>_ res. 1 \<le> res"
  by (rule gated_requestI)
    (auto simp: hackrf_operacake_gpio_test_def gated_simps split: option.split if_splits)

interpretation cpld_checksum_request: gated_request
  "hackrf_cpld_checksum"
  fst "\<lambda>_ _. True" "0x0103" "\<lambda>_. True"
  "\<lambda>H h v. Usb_control h VENDOR_IN (request_code CPLD_CHECKSUM) 0 0 [] 4"
  "\<lambda>_ res. 4 \<le> res"
  by (rule gated_requestI)
    (auto simp: hackrf_cpld_checksum_def gated_simps split: option.split if_splits)

text \<open>The sweep packet: nine bytes of parameters, then the range limits.\<close>

definition sweep_packet :: "u16 list \<Rightarrow> u32 \<Rightarrow> u32 \<Rightarrow> u32 \<Rightarrow> u8 list" where
  "sweep_packet fs step_width offset style =
     sweep_header step_width offset style @ concat (map sweep_frequency fs)"

lemma length_sweep_header [simp]: "length (sweep_header a b c) = 9"
  by (simp add: sweep_header_def)

lemma length_sweep_frequencies [simp]: "length (concat (map sweep_frequency fs)) = 2 * length fs"
  by (induction fs) (simp_all add: sweep_frequency_def)

lemma length_sweep_packet [simp]: "length (sweep_packet fs a b c) = 9 + 2 * length fs"
  by (simp add: sweep_packet_def)

lemma map_nth_take: "n \<le> length xs \<Longrightarrow> map (\<lambda>i. f (xs ! i)) [0..<n] = map f (take n xs)"
  by (simp add: list_eq_iff_nth_eq)

lemma sweep_data_sent:
  assumes "2 * n \<le> length fs" "n \<le> 10"
  shows "length (sweep_data H fs n a b c) = 49"
    and "take (9 + 4 * n) (sweep_data H fs n a b c) = sweep_packet (take (2 * n) fs) a b c"
  using assms map_nth_take [OF assms(1), of sweep_frequency]
  by (simp_all add: sweep_data_def overlay_def sweep_packet_def)

lemma sweep_size:
  assumes "1 \<le> n" "n \<le> (10 :: int)"
  shows "unat (9 + 4 * of_int n :: u16) = 9 + 4 * nat n"
proof -
  have "(9 + 4 * of_int n :: u16) = of_nat (9 + 4 * nat n)" using assms by simp
  with assms show ?thesis by (simp only: unat_of_nat) (simp add: take_bit_nat_eq_self)
qed

interpretation init_sweep_request: gated_request
  "\<lambda>H d (fs, n, num_bytes, step_width, offset, style).
     hackrf_init_sweep H d fs n num_bytes step_width offset style"
  id "\<lambda>H (fs, n, _). 2 * nat n \<le> length fs" "0x0102"
  "\<lambda>(fs, n, num_bytes, step_width, offset, style). 1 \<le> n \<and> n \<le> 10 \<and>
     num_bytes mod 16384 = 0 \<and> 16384 \<le> num_bytes \<and> step_width \<noteq> 0 \<and> style \<le> 1"
  "\<lambda>H h (fs, n, num_bytes, step_width, offset, style).
     Usb_control h VENDOR_OUT (request_code INIT_SWEEP) (ucast (num_bytes AND 0xffff))
       (ucast (drop_bit 16 num_bytes AND 0xffff))
       (sweep_packet (take (2 * nat n) fs) step_width offset style) (9 + 4 * of_int n)"
  "\<lambda>(fs, n, _) res. 9 + 4 * n \<le> res"
  by (rule gated_requestI)
    (auto simp: hackrf_init_sweep_def gated_simps sweep_data_sent sweep_size BYTES_PER_BLOCK_def
        MAX_SWEEP_RANGES_def INTERLEAVED_def split: option.split if_splits
        del: mod_0_imp_dvd)

end
