(* ===== verification/Scenario.thy ===== *)
theory Scenario
  imports Host
begin

text \<open>
  Concrete hosts and library states on which the results of the development are evaluated: a
  host that gives every call the same answer, and the state of a library with one open device.
\<close>

definition sample_descriptor :: device_descriptor where
  "sample_descriptor = \<lparr>idVendor = 0x1d50, idProduct = 0x6089, bcdDevice = 0x0104, iSerialNumber = 3\<rparr>"

text \<open>Every call answers the code \<open>n\<close>; allocations succeed.\<close>

definition steady_reply :: "int \<Rightarrow> reply" where
  "steady_reply n = \<lparr>rc = n, ptr_ok = True, bytes = [], val = 1, garbage = (\<lambda>_. 0),
     desc = sample_descriptor, devices = [], completed = []\<rparr>"

definition steady_host :: "int \<Rightarrow> host" where
  "steady_host n = \<lparr>big_endian = False, stack = (\<lambda>_. 0), answer = (\<lambda>_ _. steady_reply n)\<rparr>"

lemma steady_host_simps [simp]:
  "answer (steady_host n) tr c = steady_reply n" "\<not> big_endian (steady_host n)" "rc (steady_reply n) = n"
  "ptr_ok (steady_reply n)" "desc (steady_reply n) = sample_descriptor"
  "bcdDevice sample_descriptor = 0x0104" "val (steady_reply n) = 1" "garbage (steady_reply n) i = 0"
  "completed (steady_reply n) = []" "devices (steady_reply n) = []" "bytes (steady_reply n) = []"
  by (simp_all add: steady_host_def steady_reply_def sample_descriptor_def)

lemma init_lib_simps [simp]:
  "trace init_lib = []" "devs init_lib = Map.empty" "xfers init_lib = Map.empty" "handles init_lib = {}"
  "active init_lib = {}" "open_devices init_lib = 0" "g_libusb_context init_lib = NULL"
  by (simp_all add: init_lib_def)

definition sample_device :: hackrf_device where
  "sample_device = \<lparr>usb_device = 7, transfers = Some [2, 3, 4, 5], callback = 0,
     transfer_thread_started = False, transfer_thread = 0, streaming = False, rx_ctx = 0, tx_ctx = 0,
     do_exit = False\<rparr>"

definition sample_transfer :: usb_transfer where
  "sample_transfer = \<lparr>x_dev_handle = 7, x_endpoint = 0, x_buffer = (9, 0), x_length = TRANSFER_BUFFER_SIZE,
     x_callback = No_callback, x_user_data = 9, x_timeout = 0\<rparr>"

definition sample_lib :: lib where
  "sample_lib = init_lib\<lparr>open_devices := 1, g_libusb_context := 1, devs := [9 \<mapsto> sample_device],
     xfers := [2 \<mapsto> sample_transfer, 3 \<mapsto> sample_transfer, 4 \<mapsto> sample_transfer, 5 \<mapsto> sample_transfer],
     handles := {7}\<rparr>"

lemma sample_lib_simps [simp]:
  "devs sample_lib = [9 \<mapsto> sample_device]" "usb_device sample_device = 7" "handles sample_lib = {7}"
  "trace sample_lib = []" "transfers sample_device = Some [2, 3, 4, 5]" "open_devices sample_lib = 1"
  "active sample_lib = {}" "x_user_data sample_transfer = 9" "callback sample_device = 0"
  "\<not> do_exit sample_device" "\<not> transfer_thread_started sample_device"
  "xfers sample_lib = [2 \<mapsto> sample_transfer, 3 \<mapsto> sample_transfer, 4 \<mapsto> sample_transfer, 5 \<mapsto> sample_transfer]"
  by (simp_all add: sample_lib_def sample_device_def sample_transfer_def init_lib_def)

end
