(* ===== verification/Request_Results.thy ===== *)
theory Request_Results
  imports Gated_Requests Scenario
begin

text \<open>
  What the requests of hackrf.c put on the wire and when they refuse: the tuning words, the SPI
  flash address, the gains, the sweep packet, the Opera Cake ports, the firmware gate, and the
  memory that a request may write.
\<close>

section \<open>Tuning\<close>

lemma unat_ucast_u64: "unat (ucast (x :: u32) :: u64) = unat x"
proof -
  have "unat x < 2 ^ 32" using unsigned_less [of x] by simp
  then have "unat x < 2 ^ 64" by simp
  then show ?thesis by (simp add: unsigned_ucast_eq take_bit_nat_eq_self)
qed

lemma unat_ucast_u32: "unat (x :: u64) < 2 ^ 32 \<Longrightarrow> unat (ucast x :: u32) = unat x"
  by (simp add: unsigned_ucast_eq take_bit_nat_eq_self)

lemma split_mhz:
  fixes f :: u64
  assumes "unat f < 2 ^ 32 * 1000000"
  defines "mhz \<equiv> ucast (f div FREQ_ONE_MHZ) :: u32"
  shows "unat mhz = unat f div 1000000"
    and "unat (ucast (f - ucast mhz * FREQ_ONE_MHZ) :: u32) = unat f mod 1000000"
proof -
  have one: "unat FREQ_ONE_MHZ = 1000000"
    by (simp add: FREQ_ONE_MHZ_def)
  have q: "unat (f div FREQ_ONE_MHZ) = unat f div 1000000"
    by (simp add: unat_div_distrib one)
  have "unat f div 1000000 < 2 ^ 32"
    using assms(1) by (simp add: less_mult_imp_div_less)
  with q show mhz: "unat mhz = unat f div 1000000"
    by (simp add: mhz_def unat_ucast_u32)
  have le: "unat f div 1000000 * 1000000 \<le> unat f" by simp
  moreover have "unat f < 2 ^ 64" using unsigned_less [of f] by simp
  ultimately have lt: "unat (ucast mhz :: u64) * unat FREQ_ONE_MHZ < 2 ^ LENGTH(64)"
    unfolding unat_ucast_u64 mhz one by simp
  have prod: "unat (ucast mhz * FREQ_ONE_MHZ :: u64) = unat f div 1000000 * 1000000"
    using unat_mult_lem [THEN iffD1, OF lt] unfolding unat_ucast_u64 mhz one .
  then have "ucast mhz * FREQ_ONE_MHZ \<le> f"
    using le by (simp add: word_le_nat_alt)
  then have "unat (f - ucast mhz * FREQ_ONE_MHZ) = unat f mod 1000000"
    by (simp add: unat_sub prod minus_div_mult_eq_mod)
  then show "unat (ucast (f - ucast mhz * FREQ_ONE_MHZ) :: u32) = unat f mod 1000000"
    by (simp add: unat_ucast_u32 less_trans [OF mod_less_divisor])
qed



text \<open>The memory image of the explicit tuning packet.\<close>

lemma explicit_packet_fields:
  fixes H :: host and a b :: u64 and path :: u8
  defines "p \<equiv> set_freq_explicit_bytes H (TO_LE_u64 (big_endian H) a) (TO_LE_u64 (big_endian H) b) path"
  shows "big_endian H \<or> of_le (take 8 p) = a \<and> of_le (take 8 (drop 8 p)) = b"
    and "p ! 16 = path"
    and "take 8 p = mem64 (big_endian H) (TO_LE_u64 (big_endian H) a)"
  by (simp_all add: p_def set_freq_explicit_bytes_def TO_LE_u64_def mem64_def nth_append)

lemma le_bytes_add: "le_bytes (m + n) x = le_bytes m x @ le_bytes n (drop_bit (8 * m) x)"
  by (induction m arbitrary: x) (simp_all add: ac_simps)

lemma le_bytes_ucast_u64:
  fixes x :: u32
  shows "le_bytes 4 (ucast x :: u64) = le32 x"
  by (simp add: eval_nat_numeral)
    (intro conjI bit_word_eqI; auto simp: bit_simps dest: bit_imp_le_length)

lemma le_bytes_ucast_u32:
  fixes x :: u64
  shows "le32 (ucast x) = le_bytes 4 x"
  by (simp add: eval_nat_numeral) (intro conjI bit_word_eqI; auto simp: bit_simps)

lemma le_bytes_0 [simp]: "le_bytes n 0 = replicate n 0"
  by (induction n) simp_all

lemma le64_ucast: "le64 (ucast (x :: u32)) = le32 x @ [0, 0, 0, 0]"
proof -
  have "drop_bit 32 (ucast x :: u64) = 0"
    by (intro bit_word_eqI) (auto simp: bit_simps dest: bit_imp_le_length)
  moreover have "replicate 4 (0 :: u8) = [0, 0, 0, 0]"
    by (simp add: eval_nat_numeral)
  ultimately show ?thesis
    using le_bytes_add [of 4 4 "ucast x :: u64"] by (simp add: le_bytes_ucast_u64)
qed

definition explicit_tuning_ok :: "u64 \<Rightarrow> u64 \<Rightarrow> u32 \<Rightarrow> bool" where
  "explicit_tuning_ok if_hz lo_hz path \<longleftrightarrow>
     2150000000 \<le> if_hz \<and> if_hz \<le> 2750000000 \<and>
     (path \<noteq> 0 \<longrightarrow> 84375000 \<le> lo_hz \<and> lo_hz \<le> 5400000000) \<and> path \<le> 2"

text \<open>
  \<open>hackrf_set_freq_explicit\<close> sends a request exactly when the intermediate frequency is in
  2.15 to 2.75 GHz, the filter path is one of the three and, unless the mixer is bypassed, the
  oscillator is in 84.375 MHz to 5.4 GHz; otherwise it reports an invalid parameter and has no
  effect. On a little-endian host the packet carries both frequencies and the path unchanged.
\<close>

theorem set_freq_explicit_packet:
  assumes "devs s d = Some dv" "usb_device dv \<in> handles s"
  shows "\<exists>r s'. hackrf_set_freq_explicit H d a b path s = Some (r, s')
    \<and> (\<not> explicit_tuning_ok a b path \<longrightarrow> r = HACKRF_ERROR_INVALID_PARAM \<and> s' = s)
    \<and> (explicit_tuning_ok a b path \<longrightarrow> (\<exists>p. trace s' = trace s @ [Usb_control (usb_device dv) VENDOR_OUT 24 0 0 p 24]
          \<and> p ! 16 = ucast path
          \<and> (\<not> big_endian H \<longrightarrow> of_le (take 8 p) = a \<and> of_le (take 8 (drop 8 p)) = b)
          \<and> r \<in> {HACKRF_SUCCESS, HACKRF_ERROR_LIBUSB}))"
proof -
  obtain r s' where run: "hackrf_set_freq_explicit H d a b path s = Some (r, s')"
    using set_freq_explicit_request.runs [of d s H "(a, b, path)"] assms(1,2) by (auto simp: on_bus_def)
  define p where "p = set_freq_explicit_bytes H (TO_LE_u64 (big_endian H) a) (TO_LE_u64 (big_endian H) b) (ucast path)"
  note fields = explicit_packet_fields [of H a b "ucast path", folded p_def]
  show ?thesis
  proof (cases "explicit_tuning_ok a b path")
    case True
    then have "trace s' = trace s @ [Usb_control (usb_device dv) VENDOR_OUT 24 0 0 p 24]"
      "r \<in> {HACKRF_SUCCESS, HACKRF_ERROR_LIBUSB}"
      using set_freq_explicit_request.sends [of "(a, b, path)" s d dv H] assms(1) run
      by (auto simp: explicit_tuning_ok_def p_def Let_def split: if_splits)
    with True run fields show ?thesis by (intro exI [of _ r] exI [of _ s']) auto
  next
    case False
    then have "r = HACKRF_ERROR_INVALID_PARAM \<and> s' = s"
      using set_freq_explicit_request.rejects [of "(a, b, path)" H d s] run
      by (auto simp: explicit_tuning_ok_def)
    with False run show ?thesis by auto
  qed
qed

theorem set_freq_explicit_packet_witness:
  "\<exists>r s' p. hackrf_set_freq_explicit (steady_host 24) 9 2500000000 1000000000 1 sample_lib = Some (r, s')
    \<and> trace s' = [Usb_control 7 VENDOR_OUT 24 0 0 p 24] \<and> of_le (take 8 p) = (2500000000 :: u64)"
  using set_freq_explicit_packet [of sample_lib 9 sample_device "steady_host 24" 2500000000 1000000000 1]
  by (auto simp: explicit_tuning_ok_def)

text \<open>
  On a big-endian host the frequencies of \<open>hackrf_set_freq_explicit\<close> are not what the
  packet says: \<open>TO_LE\<close> swaps only 32 bits, so the device reads the low word of the
  intermediate frequency in the upper half of the field and zero in the lower half.
\<close>

theorem set_freq_explicit_big_endian:
  assumes "big_endian H"
  shows "of_le (take 8 (set_freq_explicit_bytes H (TO_LE_u64 (big_endian H) a) (TO_LE_u64 (big_endian H) b) path))
    = push_bit 32 (take_bit 32 a)"
proof -
  let ?b = "le_bytes 4 a"
  have "take 8 (set_freq_explicit_bytes H (TO_LE_u64 (big_endian H) a) (TO_LE_u64 (big_endian H) b) path)
      = [0, 0, 0, 0] @ ?b"
    unfolding explicit_packet_fields using assms by (simp add: mem64_def TO_LE_u64_def le64_ucast le32_bswap32 le_bytes_ucast_u32)
  moreover have "of_le ([0, 0, 0, 0] @ ?b) = push_bit 32 (of_le ?b :: u64)"
    by (simp add: push_bit_push_bit)
  ultimately show ?thesis by (simp add: of_le_le_bytes)
qed

theorem set_freq_explicit_big_endian_witness:
  "\<exists>H. big_endian H \<and> (of_le (take 8 (set_freq_explicit_bytes H (TO_LE_u64 True 2500000000)
    (TO_LE_u64 True 1000000000) 1)) :: u64) \<noteq> 2500000000"
  using set_freq_explicit_big_endian [of "(steady_host 0)\<lparr>big_endian := True\<rparr>" 2500000000 1000000000 1]
  by (intro exI [of _ "(steady_host 0)\<lparr>big_endian := True\<rparr>"]) simp

section \<open>SPI flash addresses\<close>

lemma split_halves:
  fixes x :: u32
  shows "unat (ucast (drop_bit 16 x) :: u16) * 65536 + unat (ucast (x AND 0xFFFF) :: u16) = unat x"
proof -
  have "unat (ucast (drop_bit 16 x) :: u16) = unat x div 65536"
  proof -
    have "unat x < 65536 * 65536" using unsigned_less [of x] by simp
    then have "unat (drop_bit 16 x) < 65536"
      unfolding unat_drop_bit_eq by (simp add: drop_bit_eq_div less_mult_imp_div_less)
    from unat_ucast_small [OF this] show ?thesis
      unfolding unat_drop_bit_eq by (simp add: drop_bit_eq_div)
  qed
  moreover have low: "unat (x AND 0xFFFF) = unat x mod 65536"
    using take_bit_eq_mask [of 16 x] unsigned_take_bit_eq [of 16 x]
    by (simp add: mask_eq_exp_minus_1 take_bit_eq_mod)
  moreover have "unat (ucast (x AND 0xFFFF) :: u16) = unat (x AND 0xFFFF)"
    by (rule unat_ucast_small) (simp add: low)
  ultimately show ?thesis by simp
qed

text \<open>
  \<open>hackrf_spiflash_write\<close> and \<open>hackrf_spiflash_read\<close> refuse every address of 1 MiB or
  more without effect, and otherwise send one request in which \<open>wValue\<close> and \<open>wIndex\<close> together
  are the address.
\<close>

theorem spiflash_address_split:
  assumes "devs s d = Some dv" "usb_device dv \<in> handles s" "unat n \<le> length data"
  shows "\<exists>r s' r2 s2 buf v i. hackrf_spiflash_write H d a n data s = Some (r, s')
    \<and> hackrf_spiflash_read H d a n data s = Some ((r2, buf), s2)
    \<and> (if unat a < 2 ^ 20
       then unat v * 65536 + unat i = unat a
         \<and> trace s' = trace s @ [Usb_control (usb_device dv) VENDOR_OUT 11 v i (take (unat n) data) n]
         \<and> trace s2 = trace s @ [Usb_control (usb_device dv) VENDOR_IN 12 v i [] n]
         \<and> length buf = length data
       else r = HACKRF_ERROR_INVALID_PARAM \<and> s' = s \<and> r2 = HACKRF_ERROR_INVALID_PARAM \<and> s2 = s \<and> buf = data)"
proof -
  have bound: "a \<le> 0x0FFFFF \<longleftrightarrow> unat a < 2 ^ 20"
    by (simp add: word_le_nat_alt, linarith)
  obtain r s' r2 s2 buf where
    run: "hackrf_spiflash_write H d a n data s = Some (r, s')"
    "hackrf_spiflash_read H d a n data s = Some ((r2, buf), s2)"
    using spiflash_write_request.runs [of d s "(a, n, data)" H] spiflash_read_request.runs [of d s "(a, n, data)" H] assms
    by (auto simp: on_bus_def)
  have len: "length buf = length data"
    using run(2) assms by (auto simp: hackrf_spiflash_read_def fail_libusb_def Let_def split: if_splits)
  show ?thesis
  proof (cases "a \<le> 0x0FFFFF")
    case True
    with bound run len split_halves [of a] show ?thesis
      using spiflash_write_request.sends [of "(a, n, data)" s d dv H r s']
        spiflash_read_request.sends [of "(a, n, data)" s d dv H "(r2, buf)" s2] assms(1)
      by (intro exI [of _ r] exI [of _ s'] exI [of _ r2] exI [of _ s2] exI [of _ buf]
          exI [of _ "ucast (drop_bit 16 a)"] exI [of _ "ucast (a AND 0xFFFF)"]) simp
  next
    case False
    with bound run show ?thesis
      by (auto simp: hackrf_spiflash_write_def hackrf_spiflash_read_def not_le not_less)
  qed
qed

theorem spiflash_address_split_witness:
  "\<exists>r s'. hackrf_spiflash_write (steady_host 2) 9 0x100000 2 [1, 2] sample_lib = Some (r, s')
    \<and> r = HACKRF_ERROR_INVALID_PARAM \<and> s' = sample_lib"
  using spiflash_address_split [of sample_lib 9 sample_device 2 "[1, 2]" "steady_host 2" "0x100000"] by auto

section \<open>Gains\<close>

text \<open>The effect of a gain routine with request code \<open>q\<close> on a device with the handle \<open>h\<close>.\<close>

definition gain_rule ::
  "(host \<Rightarrow> ptr \<Rightarrow> u32 \<Rightarrow> lib \<Rightarrow> (hackrf_error \<times> lib) option) \<Rightarrow> nat \<Rightarrow> nat \<Rightarrow> u8
     \<Rightarrow> host \<Rightarrow> ptr \<Rightarrow> ptr \<Rightarrow> u32 \<Rightarrow> lib \<Rightarrow> bool" where
  "gain_rule run limit step q H d h v s \<longleftrightarrow>
     (\<exists>r s'. run H d v s = Some (r, s') \<and>
       (if unat v \<le> limit
        then \<exists>g. unat g = step * (unat v div step) \<and>
          trace s' = trace s @ [Usb_control h VENDOR_IN q 0 g [] 1]
        else r = HACKRF_ERROR_INVALID_PARAM \<and> s' = s))"

text \<open>
  The gain routines refuse, without effect, more than 40 dB for the LNA, 62 dB for the VGA
  and 47 dB for the transmit VGA. Up to these limits each sends one request whose \<open>wIndex\<close> is
  the gain rounded down to the amplifier's step of 8, 2 or 1 dB.
\<close>

theorem gains_on_wire:
  assumes "devs s d = Some dv" "usb_device dv \<in> handles s"
  shows "gain_rule hackrf_set_lna_gain 40 8 19 H d (usb_device dv) v s
    \<and> gain_rule hackrf_set_vga_gain 62 2 20 H d (usb_device dv) v s
    \<and> gain_rule hackrf_set_txvga_gain 47 1 21 H d (usb_device dv) v s"
  using set_lna_gain_request.effect [OF assms, of H v] set_vga_gain_request.effect [OF assms, of H v]
    set_txvga_gain_request.effect [OF assms, of H v]
  unfolding gain_rule_def request_code.simps by blast

theorem gains_on_wire_witness:
  "gain_rule hackrf_set_lna_gain 40 8 19 (steady_host 1) 9 7 39 sample_lib"
  using gains_on_wire [of sample_lib 9 sample_device "steady_host 1" 39] by simp

section \<open>Requests behind the firmware gate\<close>

lemma low_high_byte:
  fixes a b :: u8
  shows "ucast (ucast a OR push_bit 8 (ucast b) :: u16) = a"
    and "ucast (drop_bit 8 (ucast a OR push_bit 8 (ucast b) :: u16)) = b"
  by (intro bit_word_eqI; auto simp: bit_simps dest: bit_imp_le_length)+

text \<open>
  On firmware that has Opera Cake support, \<open>hackrf_set_operacake_ports\<close> configures a board
  exactly when both ports exist and lie on different sides of the switch, and the request's
  \<open>wIndex\<close> then carries port A in its low byte and port B in its high byte; otherwise it
  refuses without a request.
\<close>

theorem operacake_ports_opposite_sides:
  assumes "devs s d = Some dv" "usb_device dv \<in> handles s" "gate_open H (usb_device dv) 0x0102 s"
  shows "\<exists>r s'. hackrf_set_operacake_ports H d address a b s = Some (r, s') \<and>
    (if a \<le> 7 \<and> b \<le> 7 \<and> (a \<le> 3) \<noteq> (b \<le> 3)
     then \<exists>i. ucast i = a \<and> ucast (drop_bit 8 i) = b \<and>
       trace s' = trace s @ [Usb_get_own_descriptor (usb_device dv),
         Usb_control (usb_device dv) VENDOR_OUT 28 (ucast address) i [] 0]
     else r = HACKRF_ERROR_INVALID_PARAM \<and> trace s' = trace s @ [Usb_get_own_descriptor (usb_device dv)])"
proof -
  obtain r s' where run: "hackrf_set_operacake_ports H d address a b s = Some (r, s')"
    using set_operacake_ports_request.runs [of d s H "(address, a, b)"] assms(1,2)
    by (auto simp: on_bus_def)
  define i :: u16 where "i = ucast a OR push_bit 8 (ucast b)"
  have "ucast i = a" "ucast (drop_bit 8 i) = b"
    using low_high_byte [of a b] by (simp_all only: i_def)
  with run set_operacake_ports_request.gate [of s d dv H "(address, a, b)" r s'] assms(1,3) show ?thesis
    by (intro exI [of _ r] exI [of _ s'])
      (auto simp: gate_open_def Let_def simp flip: i_def split: if_splits)
qed

theorem operacake_ports_opposite_sides_witness:
  "\<exists>r s'. hackrf_set_operacake_ports (steady_host 0) 9 1 2 3 sample_lib = Some (r, s')
    \<and> r = HACKRF_ERROR_INVALID_PARAM"
  using operacake_ports_opposite_sides [of sample_lib 9 sample_device "steady_host 0" 1 2 3]
  by (auto simp: gate_open_def)

lemma ucast_and_ff:
  fixes x :: "'a::len word"
  shows "(ucast (x AND 0xff) :: u8) = ucast x"
proof -
  have "x AND 0xff = take_bit 8 x"
    using take_bit_eq_mask [of 8 x] by (simp add: mask_eq_exp_minus_1)
  then show ?thesis
    by (intro bit_word_eqI) (auto simp: bit_simps)
qed

lemma ucast_and_ffff:
  fixes x :: u32
  shows "(ucast (x AND 0xffff) :: u16) = ucast x"
proof -
  have "x AND 0xffff = take_bit 16 x"
    using take_bit_eq_mask [of 16 x] by (simp add: mask_eq_exp_minus_1)
  then show ?thesis
    by (intro bit_word_eqI) (auto simp: bit_simps)
qed

lemma sweep_header_le: "sweep_header a b c = le32 a @ le32 b @ [ucast c]"
  by (simp add: sweep_header_def ucast_and_ff eval_nat_numeral)

lemma sweep_frequency_le: "sweep_frequency f = le16 f"
  by (simp add: sweep_frequency_def ucast_and_ff eval_nat_numeral)

lemma nth_sweep_frequency:
  "k < length fs \<Longrightarrow> take 2 (drop (2 * k) (concat (map sweep_frequency fs))) = le16 (fs ! k)"
proof (induction fs arbitrary: k)
  case Nil
  then show ?case by simp
next
  case (Cons f fs)
  then show ?case by (cases k) (simp_all add: sweep_frequency_le)
qed

lemma sweep_packet_fields:
  "of_le (take 4 (sweep_packet fs a b c)) = a"
  "of_le (take 4 (drop 4 (sweep_packet fs a b c))) = b"
  "sweep_packet fs a b c ! 8 = ucast c"
  "k < length fs \<Longrightarrow> of_le (take 2 (drop (9 + 2 * k) (sweep_packet fs a b c))) = fs ! k"
proof -
  show "of_le (take 4 (sweep_packet fs a b c)) = a" "of_le (take 4 (drop 4 (sweep_packet fs a b c))) = b"
    "sweep_packet fs a b c ! 8 = ucast c"
    by (simp_all add: sweep_packet_def sweep_header_le nth_append)
  assume k: "k < length fs"
  have "drop (9 + 2 * k) (sweep_packet fs a b c) = drop (2 * k) (concat (map sweep_frequency fs))"
    by (simp add: sweep_packet_def)
  with k show "of_le (take 2 (drop (9 + 2 * k) (sweep_packet fs a b c))) = fs ! k"
    by (simp only: nth_sweep_frequency of_le_le16)
qed

text \<open>The parameters that \<open>hackrf_init_sweep\<close> takes, and what its packet \<open>p\<close> says.\<close>

definition sweep_ok :: "int \<Rightarrow> u32 \<Rightarrow> u32 \<Rightarrow> u32 \<Rightarrow> bool" where
  "sweep_ok n num_bytes step_width style \<longleftrightarrow>
     1 \<le> n \<and> n \<le> 10 \<and> num_bytes mod 16384 = 0 \<and> 16384 \<le> num_bytes \<and> step_width \<noteq> 0 \<and> style \<le> 1"

definition sweep_decodes :: "u8 list \<Rightarrow> u16 list \<Rightarrow> int \<Rightarrow> u32 \<Rightarrow> u32 \<Rightarrow> u32 \<Rightarrow> bool" where
  "sweep_decodes p fs n step_width offset style \<longleftrightarrow>
     length p = 9 + 4 * nat n \<and> length p \<le> 49 \<and> of_le (take 4 p) = step_width \<and>
     of_le (take 4 (drop 4 p)) = offset \<and> p ! 8 = ucast style \<and>
     (\<forall>k < 2 * nat n. of_le (take 2 (drop (9 + 2 * k) p)) = fs ! k)"

text \<open>
  C11. On firmware with sweep support \<open>hackrf_init_sweep\<close> takes 1 to 10 ranges, a positive
  multiple of the block size as byte count, a step width of at least 1 Hz and one of the two
  styles, and nothing else. The packet then fits the 49-byte array, decodes to exactly the
  caller's step width, offset, style and range limits, and \<open>wIndex\<close> and \<open>wValue\<close> are the two
  halves of the byte count.
\<close>

theorem init_sweep_packet:
  assumes "devs s d = Some dv" "usb_device dv \<in> handles s" "gate_open H (usb_device dv) 0x0102 s"
    and "2 * nat n \<le> length fs"
  shows "\<exists>r s'. hackrf_init_sweep H d fs n num_bytes step_width offset style s = Some (r, s') \<and>
    (if sweep_ok n num_bytes step_width style
     then \<exists>v i p len. trace s' = trace s @ [Usb_get_own_descriptor (usb_device dv),
         Usb_control (usb_device dv) VENDOR_OUT 26 v i p len]
       \<and> unat i * 65536 + unat v = unat num_bytes \<and> unat len = length p
       \<and> sweep_decodes p fs n step_width offset style
     else r = HACKRF_ERROR_INVALID_PARAM \<and> trace s' = trace s @ [Usb_get_own_descriptor (usb_device dv)])"
proof -
  let ?x = "(fs, n, num_bytes, step_width, offset, style)"
  obtain r s' where run: "hackrf_init_sweep H d fs n num_bytes step_width offset style s = Some (r, s')"
    using init_sweep_request.runs [of d s ?x H] assms(1,2,4) by (auto simp: on_bus_def)
  note gate = init_sweep_request.gate [of s d dv H ?x r s']
  show ?thesis
  proof (cases "sweep_ok n num_bytes step_width style")
    case True
    let ?p = "sweep_packet (take (2 * nat n) fs) step_width offset style"
    have "sweep_decodes ?p fs n step_width offset style"
      using True assms(4) by (auto simp: sweep_decodes_def sweep_ok_def sweep_packet_fields)
    moreover have "unat (9 + 4 * of_int n :: u16) = length ?p"
      using True assms(4) sweep_size [of n] by (simp add: sweep_ok_def mult.commute)
    moreover have "unat (ucast (drop_bit 16 num_bytes AND 0xffff) :: u16) * 65536
        + unat (ucast (num_bytes AND 0xffff) :: u16) = unat num_bytes"
      using split_halves [of num_bytes] by (simp add: ucast_and_ffff)
    ultimately show ?thesis
      using gate assms(1,3) run True
      by (intro exI [of _ r] exI [of _ s'])
        (auto simp: gate_open_def sweep_ok_def Let_def split: if_splits intro!: exI)
  next
    case False
    with gate assms(1,3) run show ?thesis
      by (auto simp: gate_open_def sweep_ok_def Let_def split: if_splits)
  qed
qed

theorem init_sweep_packet_witness:
  "\<exists>r s' v i p len. hackrf_init_sweep (steady_host 13) 9 [2400, 2490] 1 16384 20000000 7500000 1 sample_lib
      = Some (r, s')
    \<and> trace s' = [Usb_get_own_descriptor 7, Usb_control 7 VENDOR_OUT 26 v i p len]
    \<and> sweep_decodes p [2400, 2490] 1 20000000 7500000 1"
  using init_sweep_packet [of sample_lib 9 sample_device "steady_host 13" 1 "[2400, 2490]" 16384 20000000 7500000 1]
  by (auto simp: gate_open_def sweep_ok_def)

text \<open>
  \<open>refused H d h f s\<close>: the routine \<open>f\<close> reads the device descriptor and returns
  \<open>HACKRF_ERROR_USB_API_VERSION\<close>. \<open>just_status\<close> drops an out parameter.
\<close>

definition refused :: "host \<Rightarrow> ptr \<Rightarrow> (lib \<Rightarrow> (hackrf_error \<times> lib) option) \<Rightarrow> lib \<Rightarrow> bool" where
  "refused H h f s \<longleftrightarrow>
     (\<exists>s'. f s = Some (HACKRF_ERROR_USB_API_VERSION, s') \<and> confined s s' \<and>
       trace s' = trace s @ [Usb_get_own_descriptor h])"

definition just_status ::
  "(lib \<Rightarrow> ((hackrf_error \<times> 'a) \<times> lib) option) \<Rightarrow> lib \<Rightarrow> (hackrf_error \<times> lib) option" where
  "just_status f s = map_option (\<lambda>((e, _), s). (e, s)) (f s)"

definition old_firmware :: "host \<Rightarrow> ptr \<Rightarrow> u16 \<Rightarrow> lib \<Rightarrow> bool" where
  "old_firmware H h needed s \<longleftrightarrow>
     (let v = answer H (trace s) (Usb_get_own_descriptor h) in rc v < 0 \<or> bcdDevice (desc v) < needed)"

lemma old_firmware_closed: "old_firmware H h needed s \<Longrightarrow> \<not> gate_open H h needed s"
  by (auto simp: old_firmware_def gate_open_def Let_def)

lemma old_firmware_mono: "old_firmware H h m s \<Longrightarrow> m \<le> n \<Longrightarrow> old_firmware H h n s"
  by (auto simp: old_firmware_def Let_def intro: order.strict_trans2)

lemmas gated_defs =
  hackrf_spiflash_status_def hackrf_spiflash_clear_status_def hackrf_set_hw_sync_mode_def
  hackrf_init_sweep_def hackrf_get_operacake_boards_def hackrf_set_operacake_ports_def hackrf_reset_def
  hackrf_set_operacake_ranges_def hackrf_set_clkout_enable_def hackrf_operacake_gpio_test_def
  hackrf_cpld_checksum_def

text \<open>
  C28. Firmware without the required USB API version, or whose version cannot be read, never sees
  one of the eleven newer requests: the routine reads the device descriptor, sends nothing, and
  reports that the feature is not supported, whatever its arguments.
\<close>

theorem old_firmware_refused:
  assumes "devs s d = Some dv" "usb_device dv \<in> handles s" "old_firmware H (usb_device dv) 0x0102 s"
  shows "list_all (\<lambda>f. refused H (usb_device dv) f s)
    [hackrf_set_hw_sync_mode H d v, hackrf_init_sweep H d fs n num_bytes step_width offset style,
     just_status (hackrf_get_operacake_boards H d boards), hackrf_set_operacake_ports H d address a b,
     hackrf_reset H d, just_status (hackrf_spiflash_status H d data), hackrf_spiflash_clear_status H d,
     hackrf_set_operacake_ranges H d ranges m, hackrf_set_clkout_enable H d v,
     just_status (hackrf_operacake_gpio_test H d address t), just_status (hackrf_cpld_checksum H d crc)]"
proof -
  have "old_firmware H (usb_device dv) 0x0103 s"
    by (rule old_firmware_mono [OF assms(3)]) simp
  note closed = old_firmware_closed [OF assms(3)] old_firmware_closed [OF this]
  show ?thesis
    using assms(1,2) closed
    by (simp add: refused_def just_status_def gated_defs USB_API_REQUIRED_run Let_def)
qed

theorem old_firmware_refused_witness:
  "refused (steady_host (- 4)) 7 (hackrf_reset (steady_host (- 4)) 9) sample_lib"
  using old_firmware_refused [of sample_lib 9 sample_device "steady_host (- 4)"]
  by (simp add: old_firmware_def)

section \<open>The version string\<close>

text \<open>
  When the caller's buffer has at least one byte more than the length it passes,
  \<open>hackrf_version_string_read\<close> stays inside the buffer, leaves everything past the
  terminator's last possible place untouched, and a successful call leaves a null byte at or
  before that place.
\<close>

theorem version_string_in_bounds:
  assumes "devs s d = Some dv" "usb_device dv \<in> handles s" "bounded_answers H" "unat n < length buf"
  shows "\<exists>r buf' s'. hackrf_version_string_read H d buf n s = Some ((r, buf'), s')
    \<and> length buf' = length buf \<and> drop (Suc (unat n)) buf' = drop (Suc (unat n)) buf
    \<and> (r = HACKRF_SUCCESS \<longrightarrow> (\<exists>k \<le> unat n. buf' ! k = 0))"
proof -
  let ?c = "Usb_control (usb_device dv) VENDOR_IN 15 0 0 [] (ucast n)"
  let ?a = "answer H (trace s) ?c"
  let ?buf = "overlay (bytes ?a) (unat n) buf"
  have k: "nat (rc ?a) \<le> unat n"
    using bounded_answersD [OF assms(3), of "trace s" "usb_device dv" VENDOR_IN 15 0 0 "[]" "ucast n"]
    by (simp only: unat_ucast_up)
  have len: "length ?buf = length buf" using assms(4) by simp
  have tail: "drop (Suc (unat n)) ?buf = drop (Suc (unat n)) buf"
    by (auto simp: overlay_def min_def)
  show ?thesis
  proof (cases "rc ?a < 0")
    case True
    then show ?thesis
      using assms len tail
      by (simp add: hackrf_version_string_read_def fail_libusb_def Let_def unat_ucast_up)
  next
    case False
    have "hackrf_version_string_read H d buf n s =
        Some ((HACKRF_SUCCESS, ?buf[nat (rc ?a) := 0]), s\<lparr>trace := trace s @ [?c]\<rparr>)"
      using False assms k by (simp add: hackrf_version_string_read_def Let_def unat_ucast_up)
    moreover have "?buf[nat (rc ?a) := 0] ! nat (rc ?a) = 0"
      using k assms(4) by (intro nth_list_update_eq) simp
    moreover have "drop (Suc (unat n)) (?buf[nat (rc ?a) := 0]) = drop (Suc (unat n)) buf"
      using k tail by (simp add: drop_update_cancel)
    ultimately show ?thesis
      using k len by auto
  qed
qed

theorem version_string_in_bounds_witness:
  "\<exists>r buf' s'. hackrf_version_string_read (steady_host 0) 9 [1, 2, 3] 2 sample_lib = Some ((r, buf'), s')
    \<and> length buf' = 3"
  using version_string_in_bounds [of sample_lib 9 sample_device "steady_host 0" 2 "[1, 2, 3]"]
  by (fastforce simp: bounded_answers_def)

text \<open>
  With a buffer of exactly the length it passes, as the parameter's name suggests,
  \<open>hackrf_version_string_read\<close> writes its terminator one byte past the buffer as soon as the
  device sends a version string of that length.
\<close>

theorem version_string_off_by_one:
  assumes "devs s d = Some dv" "usb_device dv \<in> handles s" "unat n = length buf"
    and "rc (answer H (trace s) (Usb_control (usb_device dv) VENDOR_IN 15 0 0 [] (ucast n))) = uint n"
  shows "hackrf_version_string_read H d buf n s = None"
  using assms by (simp add: hackrf_version_string_read_def Let_def unat_ucast_up)

theorem version_string_off_by_one_witness:
  "hackrf_version_string_read (steady_host 3) 9 [1, 2, 3] 3 sample_lib = None"
  using version_string_off_by_one [of sample_lib 9 sample_device 3 "[1, 2, 3]" "steady_host 3"] by simp

end
