(* ===== verification/Sample_Rate.thy ===== *)
theory Sample_Rate
  imports Request_Results Complex_Main
begin

text \<open>
  The sample rate and the anti-aliasing filter that \<open>hackrf_set_sample_rate_manual\<close> sets with
  it: the justification of the integer form of \<open>(uint32_t)(0.75*freq_hz/divider)\<close>, the filter
  that results, and the two packets.
\<close>

section \<open>The double expression\<close>

text \<open>
  \<open>x\<close> is the double that the C expression computes for the exact quotient \<open>q\<close>: a value
  within half a unit in the last place, and \<open>q\<close> itself when \<open>q\<close> is an integer of at most
  53 bits. Truncation gives the integer quotient.
\<close>

lemma rate_bandwidth_of_double:
  fixes rate divider :: nat and x q :: real
  assumes "rate < 2 ^ 32" "0 < divider"
    and q: "q = 0.75 * real rate / real divider"
    and near: "\<bar>x - q\<bar> \<le> q / 2 ^ 53" and exact: "q \<in> \<int> \<Longrightarrow> x = q"
  shows "nat \<lfloor>x\<rfloor> = 3 * rate div (4 * divider)"
proof -
  define m r where "m = 3 * rate div (4 * divider)" and "r = 3 * rate mod (4 * divider)"
  have split: "3 * rate = 4 * divider * m + r" and r: "r < 4 * divider"
    using assms(2) by (simp_all add: m_def r_def)
  define D where "D = 4 * real divider"
  have D: "0 < D" using assms(2) by (simp add: D_def)
  have "q = real (3 * rate) / D"
    by (simp add: q D_def)
  also have "real (3 * rate) = D * real m + real r"
    by (simp only: split D_def) simp
  finally have qm: "q = real m + real r / D"
    using D by (simp add: add_divide_distrib)
  have "real m \<le> x \<and> x < real m + 1"
  proof (cases "r = 0")
    case True
    with qm have "q = real m" by simp
    with exact show ?thesis by simp
  next
    case False
    have "q = real (3 * rate) / D" by (simp add: q D_def)
    also have "\<dots> < (3 * 2 ^ 32) / D"
      using assms(1) D by (intro divide_strict_right_mono) auto
    finally have "q / 2 ^ 53 < (3 * 2 ^ 32) / D / 2 ^ 53"
      by (intro divide_strict_right_mono) simp_all
    also have "\<dots> = 1 / D * (3 * 2 ^ 32 / 2 ^ 53)"
      by simp
    also have "\<dots> \<le> 1 / D * 1"
      using D by (intro mult_left_mono) simp_all
    finally have "\<bar>x - q\<bar> < 1 / D" using near by simp
    moreover have "1 / D \<le> real r / D"
      using False D by (intro divide_right_mono) auto
    moreover have "real r + 1 \<le> D"
      using r by (simp add: D_def flip: of_nat_Suc of_nat_mult)
    then have "real r / D + 1 / D \<le> 1"
      using D by (simp add: field_simps)
    ultimately show ?thesis using qm by linarith
  qed
  then have "\<lfloor>x\<rfloor> = int m"
    by (simp add: floor_eq_iff)
  then show ?thesis by (simp add: m_def)
qed

section \<open>The filter that goes with a rate\<close>

lemma unat_rate_bandwidth:
  assumes "divider \<noteq> 0"
  shows "rate_bandwidth rate divider = Some (of_nat (3 * unat rate div (4 * unat divider)))"
    and "unat (of_nat (3 * unat rate div (4 * unat divider)) :: u32) = 3 * unat rate div (4 * unat divider)"
proof -
  show "rate_bandwidth rate divider = Some (of_nat (3 * unat rate div (4 * unat divider)))"
    using assms by (simp add: rate_bandwidth_def)
  have "0 < unat divider" using assms by (simp add: unat_gt_0)
  have rate: "unat rate < 2 ^ 32" using unsigned_less [of rate] by simp
  have "3 * unat rate div (4 * unat divider) \<le> 3 * unat rate div 4"
    using \<open>0 < unat divider\<close> by (intro div_le_mono2) simp_all
  also have "\<dots> < 2 ^ 32" using rate by simp
  finally show "unat (of_nat (3 * unat rate div (4 * unat divider)) :: u32) = 3 * unat rate div (4 * unat divider)"
    by (rule unat_of_nat_u32)
qed

definition auto_filter :: "u32 \<Rightarrow> u32 \<Rightarrow> u32" where
  "auto_filter rate divider = hackrf_compute_baseband_filter_bw (the (rate_bandwidth rate divider))"

text \<open>\<open>x\<close> is the widest supported filter of at most three quarters of the rate.\<close>

definition widest_within :: "u32 \<Rightarrow> u32 \<Rightarrow> u32 \<Rightarrow> bool" where
  "widest_within rate divider x \<longleftrightarrow>
     x \<in> set supported \<and> 4 * unat divider * unat x \<le> 3 * unat rate \<and>
     (\<forall>y \<in> set supported. 4 * unat divider * unat y \<le> 3 * unat rate \<longrightarrow> y \<le> x)"

text \<open>
  The documented rule, the widest available filter of no more than 75% of the sample
  rate, is what \<open>hackrf_set_sample_rate_manual\<close> applies exactly when 75% of the rate, in whole
  hertz, is between 1.75 MHz and 28 MHz. (Below, the narrowest filter is wider than that;
  above, the routine asks for a bandwidth of zero.)
\<close>

theorem automatic_filter_rule:
  assumes "divider \<noteq> 0"
  shows "widest_within rate divider (auto_filter rate divider) \<longleftrightarrow>
    3 * unat rate div (4 * unat divider) \<in> {1750000..28000000}"
proof -
  let ?m = "3 * unat rate div (4 * unat divider)"
  define bw :: u32 where "bw = of_nat ?m"
  note rb = unat_rate_bandwidth [OF assms, of rate, folded bw_def]
  have pos: "0 < 4 * unat divider" using assms by (simp add: unat_gt_0)
  have within: "4 * unat divider * unat x \<le> 3 * unat rate \<longleftrightarrow> x \<le> bw" for x :: u32
    using pos by (simp add: word_le_nat_alt rb(2) less_eq_div_iff_mult_less_eq mult.commute)
  have rule: "widest_within rate divider x \<longleftrightarrow> x \<in> set supported \<and> x \<le> bw \<and> (\<forall>y \<in> set supported. y \<le> bw \<longrightarrow> y \<le> x)" for x
    by (simp add: widest_within_def within)
  have auto: "auto_filter rate divider = hackrf_compute_baseband_filter_bw bw"
    by (simp add: auto_filter_def rb(1))
  have range: "?m \<in> {1750000..28000000} \<longleftrightarrow> 1750000 \<le> bw \<and> bw \<le> 28000000"
    by (simp add: word_le_nat_alt rb(2))
  consider "bw < 1750000" | "1750000 \<le> bw" "bw \<le> 28000000" | "28000000 < bw"
    by fastforce
  then show ?thesis
  proof cases
    case 1
    then show ?thesis unfolding range rule auto using leD by (auto simp: filter_bw_low)
  next
    case 2
    let ?S = "{x \<in> set supported. x \<le> bw}"
    have "1750000 \<in> ?S" using 2 by (simp add: supported_def max2837_ft_def)
    then have "Max ?S \<in> ?S" by (intro Max_in) auto
    moreover have "\<forall>y \<in> ?S. y \<le> Max ?S" by simp
    ultimately show ?thesis
      using 2 unfolding range rule auto filter_bw_inside [OF 2] by simp
  next
    case 3
    then show ?thesis
      unfolding range rule auto using supported_props(2) by (auto simp: filter_bw_high)
  qed
qed

theorem automatic_filter_rule_witness:
  "widest_within 20000000 2 (auto_filter 20000000 2) \<and> \<not> widest_within 2000000 1 (auto_filter 2000000 1)"
  using automatic_filter_rule [of 2 20000000] automatic_filter_rule [of 1 2000000] by simp

definition rate_packet :: "ptr \<Rightarrow> u32 \<Rightarrow> u32 \<Rightarrow> call" where
  "rate_packet h rate divider = Usb_control h VENDOR_OUT 6 0 0 (le32 rate @ le32 divider) 8"

text \<open>
  \<open>hackrf_set_sample_rate_manual\<close> sends the rate and the divider, little-endian on every
  host, and then, only if the device took them, the bandwidth of the automatic filter; its
  status is a success exactly when the device took both.
\<close>

theorem set_sample_rate_manual_packets:
  assumes "devs s d = Some dv" "usb_device dv \<in> handles s" "divider \<noteq> 0"
  shows "\<exists>r s' v i. hackrf_set_sample_rate_manual H d rate divider s = Some (r, s')
    \<and> unat i * 65536 + unat v = unat (auto_filter rate divider)
    \<and> (let c1 = rate_packet (usb_device dv) rate divider; ok1 = (8 \<le> rc (answer H (trace s) c1));
           c2 = Usb_control (usb_device dv) VENDOR_OUT 7 v i [] 0
       in trace s' = trace s @ c1 # (if ok1 then [c2] else [])
        \<and> (r = HACKRF_SUCCESS \<longleftrightarrow> ok1 \<and> rc (answer H (trace s @ [c1]) c2) = 0))"
proof -
  let ?bw = "auto_filter rate divider"
  let ?c1 = "rate_packet (usb_device dv) rate divider"
  let ?e1 = "rc (answer H (trace s) ?c1)"
  let ?c2 = "Usb_control (usb_device dv) VENDOR_OUT 7 (ucast (?bw AND 0xffff)) (ucast (drop_bit 16 ?bw)) [] 0"
  let ?e2 = "rc (answer H (trace s @ [?c1]) ?c2)"
  have run: "hackrf_set_sample_rate_manual H d rate divider s =
    (if ?e1 < 8 then Some (HACKRF_ERROR_LIBUSB, s\<lparr>last_libusb_error := ?e1, trace := trace s @ [?c1]\<rparr>)
     else if ?e2 \<noteq> 0 then Some (HACKRF_ERROR_LIBUSB, s\<lparr>last_libusb_error := ?e2, trace := trace s @ [?c1, ?c2]\<rparr>)
     else Some (HACKRF_SUCCESS, s\<lparr>trace := trace s @ [?c1, ?c2]\<rparr>))"
    using assms unat_rate_bandwidth(1) [OF assms(3), of rate]
    by (simp add: hackrf_set_sample_rate_manual_def hackrf_set_baseband_filter_bandwidth_def
        fail_libusb_def auto_filter_def rate_packet_def Let_def)
  obtain r s' where some: "hackrf_set_sample_rate_manual H d rate divider s = Some (r, s')"
    unfolding run by (cases "?e1 < 8"; cases "?e2 = 0") auto
  then show ?thesis
    using split_halves [of ?bw] run
    by (intro exI [of _ r] exI [of _ s'] exI [of _ "ucast (?bw AND 0xffff)"]
        exI [of _ "ucast (drop_bit 16 ?bw)"]) (auto simp: Let_def split: if_splits)
qed

theorem set_sample_rate_manual_packets_witness:
  "\<exists>r s' v i. hackrf_set_sample_rate_manual (steady_host 0) 9 20000000 2 sample_lib = Some (r, s')
    \<and> trace s' = [rate_packet 7 20000000 2] \<and> r \<noteq> HACKRF_SUCCESS"
  using set_sample_rate_manual_packets [of sample_lib 9 sample_device 2 "steady_host 0" 20000000]
  by (simp add: Let_def) blast

end
