(* ===== verification/Cpld_Update.thy ===== *)
theory Cpld_Update
  imports Requests Scenario
begin

text \<open>
  The CPLD update of hackrf.c: \<open>hackrf_cpld_write\<close> switches the transceiver and streams the
  image in chunks of 512 bytes. The lemmas give the chunks on the wire and what happens when
  the image does not end with a full chunk.
\<close>

section \<open>CPLD update\<close>

text \<open>
  \<open>hackrf_cpld_write\<close>: the loop index is an \<open>unsigned int\<close> and every chunk is 512 bytes, read
  from \<open>data + i\<close>; a chunk that leaves the caller's buffer is undefined behaviour.
\<close>

definition libusb_bulk_transfer ::
  "host \<Rightarrow> ptr \<Rightarrow> u8 \<Rightarrow> u8 list \<Rightarrow> nat \<Rightarrow> nat \<Rightarrow> nat \<Rightarrow> lib \<Rightarrow> (int \<times> lib) option" where
  "libusb_bulk_transfer H h ep data i len timeout s =
     do { (_, s) \<leftarrow> ub_unless (i + len \<le> length data) s;
          (r, s) \<leftarrow> on_handle H h (Usb_bulk h ep (take len (drop i data)) timeout) s;
          Some (rc r, s) }"

definition chunk_size :: u32 where
  "chunk_size = 512"

partial_function (option) cpld_loop ::
  "host \<Rightarrow> ptr \<Rightarrow> u8 list \<Rightarrow> u32 \<Rightarrow> u32 \<Rightarrow> lib \<Rightarrow> (hackrf_error \<times> lib) option" where
  "cpld_loop H device data total_length i s =
     (if i < total_length
      then do { (dv, s) \<leftarrow> get_dev device s;
                (result, s) \<leftarrow> libusb_bulk_transfer H (usb_device dv) (0x00 OR 2) data (unat i)
                   (unat chunk_size) 10000 s;
                if result \<noteq> LIBUSB_SUCCESS then fail_libusb result s
                else cpld_loop H device data total_length (i + chunk_size) s }
      else Some (HACKRF_SUCCESS, s))"

definition hackrf_cpld_write ::
  "host \<Rightarrow> ptr \<Rightarrow> u8 list \<Rightarrow> u32 \<Rightarrow> lib \<Rightarrow> (hackrf_error \<times> lib) option" where
  "hackrf_cpld_write H device data total_length s =
     do { (result, s) \<leftarrow> hackrf_set_transceiver_mode H device TRANSCEIVER_MODE_CPLD_UPDATE s;
          if result \<noteq> HACKRF_SUCCESS then Some (result, s)
          else cpld_loop H device data total_length 0 s }"

section \<open>What goes over the wire\<close>

text \<open>One 512-byte chunk on the wire.\<close>

definition chunk :: "ptr \<Rightarrow> u8 list \<Rightarrow> nat \<Rightarrow> call" where
  "chunk h data j = Usb_bulk h 2 (take 512 (drop (512 * j) data)) 10000"

lemma total_less: "unat (n_bytes :: u32) < 2 ^ 32"
  using unsigned_less [of n_bytes] by simp

definition chunk_at :: "nat \<Rightarrow> u32" where
  "chunk_at j = of_nat (512 * j)"

lemma chunk_at_simps [simp]: "chunk_at 0 = 0" "chunk_at j + chunk_size = chunk_at (Suc j)"
  by (simp_all add: chunk_at_def chunk_size_def)

lemma unat_chunk_at: "512 * j < 2 ^ 32 \<Longrightarrow> unat (chunk_at j) = 512 * j"
  unfolding chunk_at_def by (rule unat_of_nat_u32)

lemma cpld_step:
  assumes "devs s d = Some dv" "usb_device dv \<in> handles s" "512 * j < unat n_bytes"
  shows "cpld_loop H d data n_bytes (chunk_at j) s =
    (if 512 * Suc j \<le> length data
     then let c = chunk (usb_device dv) data j; s' = s\<lparr>trace := trace s @ [c]\<rparr>
          in if rc (answer H (trace s) c) \<noteq> 0
             then Some (HACKRF_ERROR_LIBUSB, s'\<lparr>last_libusb_error := rc (answer H (trace s) c)\<rparr>)
             else cpld_loop H d data n_bytes (chunk_at (Suc j)) s'
     else None)"
proof -
  have j: "unat (chunk_at j) = 512 * j"
    using assms(3) total_less [of n_bytes] by (intro unat_chunk_at) simp
  then have "chunk_at j < n_bytes"
    using assms(3) by (simp add: word_less_nat_alt)
  moreover have "unat chunk_size = 512"
    by (simp add: chunk_size_def)
  ultimately show ?thesis
    using assms(1,2) j
    by (subst cpld_loop.simps)
      (simp add: libusb_bulk_transfer_def chunk_def fail_libusb_def LIBUSB_SUCCESS_def Let_def ub_unless_def)
qed

lemma cpld_stop:
  assumes "unat n_bytes \<le> 512 * j" "512 * j < 2 ^ 32"
  shows "cpld_loop H d data n_bytes (chunk_at j) s = Some (HACKRF_SUCCESS, s)"
proof -
  have "\<not> chunk_at j < n_bytes"
    using assms by (simp add: word_less_nat_alt unat_chunk_at)
  then show ?thesis by (subst cpld_loop.simps) simp
qed

lemma cpld_loop_outcome:
  assumes "devs s d = Some dv" "usb_device dv \<in> handles s" "unat n_bytes = 512 * n"
    "512 * n \<le> length data" "j \<le> n"
  shows "\<exists>r s' k. cpld_loop H d data n_bytes (chunk_at j) s = Some (r, s') \<and> confined s s'
    \<and> trace s' = trace s @ map (chunk (usb_device dv) data) [j..<k] \<and> j \<le> k \<and> k \<le> n
    \<and> (r = HACKRF_SUCCESS \<and> k = n \<or> r = HACKRF_ERROR_LIBUSB)"
  using assms
proof (induction "n - j" arbitrary: j s)
  case 0
  then have "cpld_loop H d data n_bytes (chunk_at j) s = Some (HACKRF_SUCCESS, s)"
    using total_less [of n_bytes] by (intro cpld_stop) simp_all
  with 0 show ?case
    by (intro exI [of _ HACKRF_SUCCESS] exI [of _ s] exI [of _ n]) simp
next
  case (Suc m)
  let ?c = "chunk (usb_device dv) data j"
  let ?e = "rc (answer H (trace s) ?c)"
  let ?s = "s\<lparr>trace := trace s @ [?c]\<rparr>"
  have step: "cpld_loop H d data n_bytes (chunk_at j) s =
    (if ?e \<noteq> 0 then Some (HACKRF_ERROR_LIBUSB, ?s\<lparr>last_libusb_error := ?e\<rparr>)
     else cpld_loop H d data n_bytes (chunk_at (Suc j)) ?s)"
    using Suc.prems Suc.hyps(2) by (subst cpld_step) (auto simp: Let_def)
  show ?case
  proof (cases "?e = 0")
    case False
    then show ?thesis
      using Suc.hyps(2) unfolding step
      by (intro exI [of _ HACKRF_ERROR_LIBUSB] exI [of _ "?s\<lparr>last_libusb_error := ?e\<rparr>"] exI [of _ "Suc j"]) simp
  next
    case True
    have now: "m = n - Suc j" "devs ?s d = Some dv" "usb_device dv \<in> handles ?s" "Suc j \<le> n"
      using Suc.hyps(2) Suc.prems by auto
    obtain r s' k where "cpld_loop H d data n_bytes (chunk_at (Suc j)) ?s = Some (r, s')"
      "confined ?s s'" "trace s' = trace ?s @ map (chunk (usb_device dv) data) [Suc j..<k]"
      "Suc j \<le> k" "k \<le> n" "r = HACKRF_SUCCESS \<and> k = n \<or> r = HACKRF_ERROR_LIBUSB"
      using Suc.hyps(1) [OF now(1,2,3) Suc.prems(3,4) now(4)] by blast
    moreover from this have "confined s s'"
      by (blast intro: confined_trans)
    ultimately show ?thesis
      using True unfolding step
      by (intro exI [of _ r] exI [of _ s'] exI [of _ k]) (simp add: upt_conv_Cons)
  qed
qed

lemma concat_chunks: "concat (map (\<lambda>j. take 512 (drop (512 * j) data)) [0..<n]) = take (512 * n) data"
proof (induction n)
  case 0
  then show ?case by simp
next
  case (Suc n)
  then show ?case using take_add [of "512 * n" 512 data] by (simp add: add.commute)
qed

lemma cpld_overrun:
  assumes "devs s d = Some dv" "usb_device dv \<in> handles s" "length data = unat n_bytes"
    "\<not> 512 dvd unat n_bytes" "j \<le> unat n_bytes div 512"
    "\<And>tr k. rc (answer H tr (chunk (usb_device dv) data k)) = 0"
  shows "cpld_loop H d data n_bytes (chunk_at j) s = None"
  using assms
proof (induction "unat n_bytes div 512 - j" arbitrary: j s)
  case 0
  then have j: "j = unat n_bytes div 512" by simp
  have "unat n_bytes mod 512 \<noteq> 0" using 0(5) by (simp add: dvd_eq_mod_eq_0)
  moreover have "unat n_bytes = 512 * j + unat n_bytes mod 512" by (simp add: j)
  moreover have "unat n_bytes mod 512 < 512" by simp
  ultimately have "512 * j < unat n_bytes" "\<not> 512 * Suc j \<le> length data"
    using 0(4) by auto
  with 0 show ?case by (subst cpld_step) auto
next
  case (Suc m)
  then have "Suc j \<le> unat n_bytes div 512" by simp
  from mult_le_mono2 [OF this, of 512] have "512 * Suc j \<le> unat n_bytes"
    using times_div_less_eq_dividend [of 512 "unat n_bytes"] by (rule order_trans)
  then show ?case
    using Suc.prems Suc.hyps by (subst cpld_step) (auto simp: Let_def)
qed

lemma bulk_confined: "libusb_bulk_transfer H h ep data i n timeout s = Some (r, s') \<Longrightarrow> confined s s'"
  by (auto simp: libusb_bulk_transfer_def on_handle_def ub_unless_def bind_pair_Some split: if_splits)

lemma cpld_loop_confined:
  assumes ret: "cpld_loop H d data n_bytes i s = Some (r, s')"
  shows "confined s s'"
proof -
  have "case (r, s') of (_, s') \<Rightarrow> confined s s'"
  proof (rule cpld_loop.raw_induct
      [where P = "\<lambda>H d data n_bytes i s y. case y of (_, s') \<Rightarrow> confined s s'", OF _ ret])
    fix loop and H :: host and d data and n_bytes i :: u32 and s :: lib and y :: "hackrf_error \<times> lib"
    assume IH: "\<And>H d data n_bytes i s y. loop H d data n_bytes i s = Some y \<Longrightarrow>
        case y of (_, s') \<Rightarrow> confined s s'"
      and eq: "(if i < n_bytes
      then do { (dv, s) \<leftarrow> get_dev d s;
                (result, s) \<leftarrow> libusb_bulk_transfer H (usb_device dv) (0x00 OR 2) data (unat i)
                   (unat chunk_size) 10000 s;
                if result \<noteq> LIBUSB_SUCCESS then fail_libusb result s
                else loop H d data n_bytes (i + chunk_size) s }
      else Some (HACKRF_SUCCESS, s)) = Some y"
    show "case y of (_, s') \<Rightarrow> confined s s'"
    proof (cases "i < n_bytes")
      case True
      with eq have "\<exists>(dv :: hackrf_device) result t.
        libusb_bulk_transfer H (usb_device dv) 2 data (unat i) (unat chunk_size) 10000 s = Some (result, t) \<and>
        (if result \<noteq> LIBUSB_SUCCESS then fail_libusb result t
                else loop H d data n_bytes (i + chunk_size) t) = Some y"
        by (auto simp: bind_pair_Some split del: if_split dest!: get_dev_confined)
      then obtain result t where "confined s t"
        and rest: "(if result \<noteq> LIBUSB_SUCCESS then fail_libusb result t
                else loop H d data n_bytes (i + chunk_size) t) = Some y"
        by (blast dest: bulk_confined)
      have "case y of (_, s') \<Rightarrow> confined t s'"
        using rest by (auto split: if_splits dest: IH fail_libusb_confined)
      with \<open>confined s t\<close> show ?thesis by (auto intro: confined_trans)
    next
      case False
      with eq show ?thesis by auto
    qed
  qed
  then show ?thesis by simp
qed

interpretation cpld_write_request: vendor_request
  "\<lambda>H d (data, n). hackrf_cpld_write H d data n" id
  "\<lambda>H (data, n). 512 dvd unat n \<and> unat n \<le> length data"
proof
  fix H d r and x :: "u8 list \<times> u32" and s s' :: lib
  assume "(\<lambda>(data, n). hackrf_cpld_write H d data n) x s = Some (r, s')"
  then show "confined s s'"
    by (cases x) (auto simp: hackrf_cpld_write_def bind_pair_Some split: if_splits
        dest!: set_transceiver_mode_request.confined cpld_loop_confined intro: confined_trans)
next
  fix H d and x :: "u8 list \<times> u32" and s :: lib
  assume bus: "on_bus d s" and fits: "case x of (data, n) \<Rightarrow> 512 dvd unat n \<and> unat n \<le> length data"
  obtain data n k where x: "x = (data, n)" and n: "unat n = 512 * k" "512 * k \<le> length data"
    using fits by (cases x) (auto elim: dvdE)
  obtain r1 s1 where first: "hackrf_set_transceiver_mode H d TRANSCEIVER_MODE_CPLD_UPDATE s = Some (r1, s1)"
    using set_transceiver_mode_request.runs [OF bus] by fastforce
  have "on_bus d s1"
    using set_transceiver_mode_request.keeps_on_bus [OF first] bus by simp
  then obtain dv where "devs s1 d = Some dv" "usb_device dv \<in> handles s1" by (elim on_busE)
  from cpld_loop_outcome [OF this n le0, of H] first
  show "\<exists>r s'. (\<lambda>(data, n). hackrf_cpld_write H d data n) x s = Some (r, s')"
    by (auto simp: x hackrf_cpld_write_def)
qed

lemma cpld_write_runs:
  assumes "devs s d = Some dv" "usb_device dv \<in> handles s" "512 dvd length data" "length data = unat n"
  shows "\<exists>r s'. hackrf_cpld_write H d data n s = Some (r, s')"
  using cpld_write_request.runs [of d s "(data, n)" H] assms by (simp add: on_bus_def)

section \<open>Results\<close>

text \<open>
  C25. A successful \<open>hackrf_cpld_write\<close> of an image whose size is a multiple of 512 puts the
  device into CPLD update mode and then sends the whole image, byte for byte and in order, in
  512-byte chunks to bulk endpoint 2; a failing one reports a libusb error and has sent a
  prefix of the image.
\<close>

theorem cpld_write_sends_image:
  assumes "devs s d = Some dv" "usb_device dv \<in> handles s"
    and "512 dvd length data" "length data = unat n"
  shows "\<exists>r s' k. hackrf_cpld_write H d data n s = Some (r, s')
    \<and> trace s' = trace s @ Usb_control (usb_device dv) VENDOR_OUT 1 4 0 [] 0
        # map (chunk (usb_device dv) data) [0..<k]
    \<and> concat (map (\<lambda>j. take 512 (drop (512 * j) data)) [0..<k]) = take (512 * k) data
    \<and> (r = HACKRF_SUCCESS \<and> 512 * k = length data \<or> r = HACKRF_ERROR_LIBUSB \<and> 512 * k \<le> length data)"
proof -
  obtain m where m: "unat n = 512 * m" "512 * m \<le> length data" "length data = 512 * m"
    using assms(3,4) by (auto elim: dvdE)
  let ?c = "Usb_control (usb_device dv) VENDOR_OUT 1 4 0 [] 0"
  let ?e = "rc (answer H (trace s) ?c)"
  let ?s = "s\<lparr>trace := trace s @ [?c]\<rparr>"
  have mode: "hackrf_set_transceiver_mode H d TRANSCEIVER_MODE_CPLD_UPDATE s =
    (if ?e \<noteq> 0 then Some (HACKRF_ERROR_LIBUSB, s\<lparr>last_libusb_error := ?e, trace := trace s @ [?c]\<rparr>)
     else Some (HACKRF_SUCCESS, ?s))"
    using assms(1,2) by (simp add: hackrf_set_transceiver_mode_def fail_libusb_def Let_def)
  show ?thesis
  proof (cases "?e = 0")
    case False
    then show ?thesis
      by (intro exI [of _ HACKRF_ERROR_LIBUSB] exI [of _ "s\<lparr>last_libusb_error := ?e, trace := trace s @ [?c]\<rparr>"]
          exI [of _ 0]) (simp add: hackrf_cpld_write_def mode)
  next
    case True
    have "devs ?s d = Some dv" "usb_device dv \<in> handles ?s" using assms by simp_all
    from cpld_loop_outcome [OF this m(1,2) le0, of H] obtain r s' k where
      "cpld_loop H d data n 0 ?s = Some (r, s')" "k \<le> m"
      "trace s' = trace ?s @ map (chunk (usb_device dv) data) [0..<k]"
      "r = HACKRF_SUCCESS \<and> k = m \<or> r = HACKRF_ERROR_LIBUSB" by auto
    with True m(3) show ?thesis
      by (intro exI [of _ r] exI [of _ s'] exI [of _ k])
        (auto simp: hackrf_cpld_write_def mode concat_chunks)
  qed
qed

theorem cpld_write_sends_image_witness:
  "\<exists>r s' k. hackrf_cpld_write (steady_host 0) 9 (replicate 1024 0) 1024 sample_lib = Some (r, s')
    \<and> trace s' = Usb_control 7 VENDOR_OUT 1 4 0 [] 0 # map (chunk 7 (replicate 1024 0)) [0..<k]"
  using cpld_write_sends_image [of sample_lib 9 sample_device "replicate 1024 0" 1024 "steady_host 0"] by auto

text \<open>
  C36. On a device that accepts every transfer, \<open>hackrf_cpld_write\<close> of an image stays within the
  caller's buffer exactly when the size of the image is a multiple of 512: the last chunk is
  read in full also when fewer bytes are left, past the end of \<open>data\<close>.
\<close>

theorem cpld_write_in_bounds_iff:
  assumes "devs s d = Some dv" "usb_device dv \<in> handles s" "length data = unat n"
    and "\<And>tr c. rc (answer H tr c) = 0"
  shows "hackrf_cpld_write H d data n s \<noteq> None \<longleftrightarrow> 512 dvd length data"
proof
  assume "512 dvd length data"
  from cpld_write_runs [OF assms(1,2) this assms(3)] show "hackrf_cpld_write H d data n s \<noteq> None" by auto
next
  assume some: "hackrf_cpld_write H d data n s \<noteq> None"
  show "512 dvd length data"
  proof (rule ccontr)
    assume "\<not> 512 dvd length data"
    then have "cpld_loop H d data n (chunk_at 0) (s\<lparr>trace := trace s @ cs\<rparr>) = None" for cs
      using assms by (intro cpld_overrun) simp_all
    with some assms show False
      by (simp add: hackrf_cpld_write_def hackrf_set_transceiver_mode_def Let_def)
  qed
qed

theorem cpld_write_in_bounds_iff_witness:
  "hackrf_cpld_write (steady_host 0) 9 (replicate 600 0) 600 sample_lib = None"
  using cpld_write_in_bounds_iff [of sample_lib 9 sample_device "replicate 600 0" 600 "steady_host 0"]
  by (simp del: not_None_eq)

end
