(* ===== verification/Transfers.thy ===== *)
theory Transfers
  imports Host
begin

text \<open>
  The asynchronous transfers of a device: \<open>cancel_transfers\<close>, \<open>free_transfers\<close>,
  \<open>allocate_transfers\<close> and \<open>prepare_transfers\<close> of hackrf.c. The four loops run over the
  index \<open>transfer_index\<close> and read \<open>device->transfers\<close> anew in every iteration, as the code
  does. The lemmas give what each routine does to a device whose transfers are allocated.
\<close>

section \<open>Operations\<close>

definition transfer_at :: "nat \<Rightarrow> hackrf_device \<Rightarrow> ptr option" where
  "transfer_at i dv =
     (case transfers dv of None \<Rightarrow> None | Some ts \<Rightarrow> if i < length ts then Some (ts ! i) else None)"

definition set_transfer :: "nat \<Rightarrow> ptr \<Rightarrow> hackrf_device \<Rightarrow> hackrf_device" where
  "set_transfer i t dv = dv\<lparr>transfers := map_option (\<lambda>ts. ts[i := t]) (transfers dv)\<rparr>"

definition libusb_cancel_transfer :: "host \<Rightarrow> ptr \<Rightarrow> lib \<Rightarrow> (int \<times> lib) option" where
  "libusb_cancel_transfer H t s =
     (if xfers s t = None then None
      else do { (r, s) \<leftarrow> invoke H (Usb_cancel_transfer t) s; Some (rc r, s) })"

text \<open>Freeing a transfer that is still submitted is undefined behaviour.\<close>

definition libusb_free_transfer :: "host \<Rightarrow> ptr \<Rightarrow> lib \<Rightarrow> (unit \<times> lib) option" where
  "libusb_free_transfer H t s =
     (if xfers s t = None \<or> t \<in> active s then None
      else do { (r, s) \<leftarrow> invoke H (Usb_free_transfer t) s;
                Some ((), s\<lparr>xfers := (xfers s)(t := None)\<rparr>) })"

definition blank_transfer :: usb_transfer where
  "blank_transfer = \<lparr>x_dev_handle = NULL, x_endpoint = 0, x_buffer = (NULL, 0), x_length = 0,
     x_callback = No_callback, x_user_data = NULL, x_timeout = 0\<rparr>"

definition libusb_alloc_transfer :: "host \<Rightarrow> lib \<Rightarrow> (ptr \<times> lib) option" where
  "libusb_alloc_transfer H s =
     do { (r, s') \<leftarrow> invoke H Usb_alloc_transfer s;
          Some (if ptr_ok r then (fresh s, s'\<lparr>xfers := (xfers s')(fresh s \<mapsto> blank_transfer)\<rparr>)
                else (NULL, s')) }"

definition mod_xfer :: "ptr \<Rightarrow> (usb_transfer \<Rightarrow> usb_transfer) \<Rightarrow> lib \<Rightarrow> (unit \<times> lib) option" where
  "mod_xfer t f s =
     (case xfers s t of None \<Rightarrow> None | Some x \<Rightarrow> Some ((), s\<lparr>xfers := (xfers s)(t \<mapsto> f x)\<rparr>))"

definition libusb_submit_transfer :: "host \<Rightarrow> ptr \<Rightarrow> lib \<Rightarrow> (int \<times> lib) option" where
  "libusb_submit_transfer H t s =
     (case xfers s t of None \<Rightarrow> None
      | Some x \<Rightarrow>
          do { (r, s) \<leftarrow> invoke H (Usb_submit_transfer t x) s;
               Some (rc r, if rc r = 0 then s\<lparr>active := insert t (active s)\<rparr> else s) })"

text \<open>\<open>cancel_transfers\<close>.\<close>

fun cancel_loop :: "host \<Rightarrow> ptr \<Rightarrow> nat list \<Rightarrow> lib \<Rightarrow> (unit \<times> lib) option" where
  "cancel_loop H d [] s = Some ((), s)"
| "cancel_loop H d (i # is) s =
     do { (dv, s) \<leftarrow> get_dev d s;
          t \<leftarrow> transfer_at i dv;
          if t \<noteq> NULL
          then do { (_, s) \<leftarrow> libusb_cancel_transfer H t s; cancel_loop H d is s }
          else cancel_loop H d is s }"

definition cancel_transfers :: "host \<Rightarrow> ptr \<Rightarrow> lib \<Rightarrow> (hackrf_error \<times> lib) option" where
  "cancel_transfers H d s =
     do { (dv, s) \<leftarrow> get_dev d s;
          if transfers dv \<noteq> None
          then do { (_, s) \<leftarrow> cancel_loop H d [0..<TRANSFER_COUNT] s; Some (HACKRF_SUCCESS, s) }
          else Some (HACKRF_ERROR_OTHER, s) }"

text \<open>\<open>free_transfers\<close>.\<close>

fun free_loop :: "host \<Rightarrow> ptr \<Rightarrow> nat list \<Rightarrow> lib \<Rightarrow> (unit \<times> lib) option" where
  "free_loop H d [] s = Some ((), s)"
| "free_loop H d (i # is) s =
     do { (dv, s) \<leftarrow> get_dev d s;
          t \<leftarrow> transfer_at i dv;
          if t \<noteq> NULL
          then do { (_, s) \<leftarrow> libusb_free_transfer H t s;
                    (_, s) \<leftarrow> mod_dev d (set_transfer i NULL) s;
                    free_loop H d is s }
          else free_loop H d is s }"

definition free_transfers :: "host \<Rightarrow> ptr \<Rightarrow> lib \<Rightarrow> (hackrf_error \<times> lib) option" where
  "free_transfers H d s =
     do { (dv, s) \<leftarrow> get_dev d s;
          if transfers dv \<noteq> None
          then do { (_, s) \<leftarrow> free_loop H d [0..<TRANSFER_COUNT] s;
                    (_, s) \<leftarrow> mod_dev d (transfers_update (\<lambda>_. None)) s;
                    Some (HACKRF_SUCCESS, s) }
          else Some (HACKRF_SUCCESS, s) }"

text \<open>\<open>allocate_transfers\<close>, with the fields that \<open>libusb_fill_bulk_transfer\<close> sets.\<close>

definition fill_bulk_transfer :: "ptr \<Rightarrow> ptr \<Rightarrow> nat \<Rightarrow> usb_transfer \<Rightarrow> usb_transfer" where
  "fill_bulk_transfer h d i x =
     x\<lparr>x_dev_handle := h, x_endpoint := 0, x_buffer := (d, i * TRANSFER_BUFFER_SIZE),
       x_length := TRANSFER_BUFFER_SIZE, x_callback := No_callback, x_user_data := d,
       x_timeout := 0\<rparr>"

fun allocate_loop :: "host \<Rightarrow> ptr \<Rightarrow> nat list \<Rightarrow> lib \<Rightarrow> (hackrf_error \<times> lib) option" where
  "allocate_loop H d [] s = Some (HACKRF_SUCCESS, s)"
| "allocate_loop H d (i # is) s =
     do { (t, s) \<leftarrow> libusb_alloc_transfer H s;
          (_, s) \<leftarrow> mod_dev d (set_transfer i t) s;
          if t = NULL then Some (HACKRF_ERROR_LIBUSB, s)
          else do { (dv, s) \<leftarrow> get_dev d s;
                    (_, s) \<leftarrow> mod_xfer t (fill_bulk_transfer (usb_device dv) d i) s;
                    if d = NULL then Some (HACKRF_ERROR_NO_MEM, s)
                    else allocate_loop H d is s } }"

definition allocate_transfers :: "host \<Rightarrow> ptr \<Rightarrow> lib \<Rightarrow> (hackrf_error \<times> lib) option" where
  "allocate_transfers H d s =
     do { (dv, s) \<leftarrow> get_dev d s;
          if transfers dv = None
          then do { (r, s) \<leftarrow> invoke H C_calloc s;
                    if \<not> ptr_ok r then Some (HACKRF_ERROR_NO_MEM, s)
                    else do { (_, s) \<leftarrow> mod_dev d (transfers_update
                                (\<lambda>_. Some (replicate TRANSFER_COUNT NULL))) s;
                              allocate_loop H d [0..<TRANSFER_COUNT] s } }
          else Some (HACKRF_ERROR_BUSY, s) }"

text \<open>\<open>prepare_transfers\<close>: it dereferences each entry without a null check.\<close>

fun prepare_loop ::
  "host \<Rightarrow> ptr \<Rightarrow> u8 \<Rightarrow> transfer_cb \<Rightarrow> nat list \<Rightarrow> lib \<Rightarrow> (hackrf_error \<times> lib) option" where
  "prepare_loop H d ep cb [] s = Some (HACKRF_SUCCESS, s)"
| "prepare_loop H d ep cb (i # is) s =
     do { (dv, s) \<leftarrow> get_dev d s;
          t \<leftarrow> transfer_at i dv;
          (_, s) \<leftarrow> mod_xfer t (\<lambda>x. x\<lparr>x_endpoint := ep, x_callback := cb\<rparr>) s;
          (error, s) \<leftarrow> libusb_submit_transfer H t s;
          if error \<noteq> 0 then fail_libusb error s
          else prepare_loop H d ep cb is s }"

definition prepare_transfers ::
  "host \<Rightarrow> ptr \<Rightarrow> u8 \<Rightarrow> transfer_cb \<Rightarrow> lib \<Rightarrow> (hackrf_error \<times> lib) option" where
  "prepare_transfers H d ep cb s =
     do { (dv, s) \<leftarrow> get_dev d s;
          if transfers dv \<noteq> None then prepare_loop H d ep cb [0..<TRANSFER_COUNT] s
          else Some (HACKRF_ERROR_OTHER, s) }"

section \<open>What the routines do\<close>

text \<open>
  \<open>allocated d dv ts s\<close>: the device \<open>dv\<close> at address \<open>d\<close> holds a complete array \<open>ts\<close> of
  live transfers.
\<close>

definition allocated :: "ptr \<Rightarrow> hackrf_device \<Rightarrow> ptr list \<Rightarrow> lib \<Rightarrow> bool" where
  "allocated d dv ts s \<longleftrightarrow>
     devs s d = Some dv \<and> transfers dv = Some ts \<and> length ts = TRANSFER_COUNT \<and> distinct ts \<and>
     NULL \<notin> set ts \<and> set ts \<subseteq> dom (xfers s)"

lemma allocatedD:
  assumes "allocated d dv ts s"
  shows "devs s d = Some dv" "transfers dv = Some ts" "length ts = TRANSFER_COUNT" "distinct ts"
    "NULL \<notin> set ts" "set ts \<subseteq> dom (xfers s)"
  using assms by (simp_all add: allocated_def)

lemma map_nth_upt: "length ts = n \<Longrightarrow> map (\<lambda>i. f (ts ! i)) [0..<n] = map f ts"
  by (simp add: list_eq_iff_nth_eq)

lemma allocated_nth:
  assumes "allocated d dv ts s" "i < TRANSFER_COUNT"
  shows "i < length ts \<and> ts ! i \<noteq> NULL \<and> ts ! i \<in> dom (xfers s)"
  using allocatedD [OF assms(1)] assms(2) by (metis nth_mem subsetD)

lemma cancel_loop_run:
  assumes "devs s d = Some dv" "transfers dv = Some ts"
    and "\<forall>i \<in> set is. i < length ts \<and> ts ! i \<noteq> NULL \<and> ts ! i \<in> dom (xfers s)"
  shows "cancel_loop H d is s =
    Some ((), s\<lparr>trace := trace s @ map (\<lambda>i. Usb_cancel_transfer (ts ! i)) is\<rparr>)"
  using assms
proof (induction "is" arbitrary: s)
  case Nil
  then show ?case by simp
next
  case (Cons i "is")
  then show ?case
    by (auto simp: transfer_at_def libusb_cancel_transfer_def)
qed

lemma cancel_transfers_run [outcome_simps]:
  assumes "allocated d dv ts s"
  shows "cancel_transfers H d s =
    Some (HACKRF_SUCCESS, s\<lparr>trace := trace s @ map Usb_cancel_transfer ts\<rparr>)"
proof -
  note a = allocatedD [OF assms]
  have "cancel_loop H d [0..<TRANSFER_COUNT] s =
    Some ((), s\<lparr>trace := trace s @ map (\<lambda>i. Usb_cancel_transfer (ts ! i)) [0..<TRANSFER_COUNT]\<rparr>)"
    using a(1,2) by (rule cancel_loop_run) (use allocated_nth [OF assms] in auto)
  with a show ?thesis by (simp add: cancel_transfers_def map_nth_upt)
qed

lemma transfers_idem [simp]: "transfers dv = x \<Longrightarrow> dv\<lparr>transfers := x\<rparr> = dv"
  by (cases dv) simp

lemma devs_idem [simp]: "devs s d = Some dv \<Longrightarrow> s\<lparr>devs := (devs s)(d \<mapsto> dv)\<rparr> = s"
  by (cases s) (simp add: fun_upd_idem)

lemma free_loop_step:
  assumes "devs s d = Some dv" "transfers dv = Some ts" "i < length ts" "ts ! i \<noteq> NULL"
    "ts ! i \<in> dom (xfers s) - active s"
  shows "free_loop H d (i # is) s = free_loop H d is
    (s\<lparr>devs := (devs s)(d \<mapsto> dv\<lparr>transfers := Some (ts[i := NULL])\<rparr>),
       xfers := (xfers s)(ts ! i := None), trace := trace s @ [Usb_free_transfer (ts ! i)]\<rparr>)"
  using assms by (auto simp: transfer_at_def libusb_free_transfer_def set_transfer_def)

lemma free_loop_run:
  assumes "devs s d = Some dv" "transfers dv = Some ts" "distinct is" "inj_on ((!) ts) (set is)"
    and "\<forall>i \<in> set is. i < length ts \<and> ts ! i \<noteq> NULL \<and> ts ! i \<in> dom (xfers s) - active s"
  shows "\<exists>ts'. free_loop H d is s =
    Some ((), s\<lparr>devs := (devs s)(d \<mapsto> dv\<lparr>transfers := Some ts'\<rparr>),
                xfers := xfers s |` (- (!) ts ` set is),
                trace := trace s @ map (\<lambda>i. Usb_free_transfer (ts ! i)) is\<rparr>)"
  using assms
proof (induction "is" arbitrary: s dv ts)
  case Nil
  then show ?case by (intro exI [of _ ts], cases s) (simp add: fun_upd_idem)
next
  case (Cons i "is")
  let ?ts = "ts[i := NULL]"
  let ?dv = "dv\<lparr>transfers := Some ?ts\<rparr>"
  let ?s = "s\<lparr>devs := (devs s)(d \<mapsto> ?dv), xfers := (xfers s)(ts ! i := None),
              trace := trace s @ [Usb_free_transfer (ts ! i)]\<rparr>"
  have same: "?ts ! j = ts ! j" "ts ! j \<noteq> ts ! i" if "j \<in> set is" for j
    using that Cons.prems by (cases "j = i"; auto simp: inj_on_def)+
  have now: "devs ?s d = Some ?dv" "transfers ?dv = Some ?ts" "distinct is"
    "inj_on ((!) ?ts) (set is)"
    "\<forall>j \<in> set is. j < length ?ts \<and> ?ts ! j \<noteq> NULL \<and> ?ts ! j \<in> dom (xfers ?s) - active ?s"
    using Cons.prems same by (auto simp: inj_on_def set_transfer_def)
  then obtain ts' where
    "free_loop H d is ?s =
      Some ((), ?s\<lparr>devs := (devs ?s)(d \<mapsto> ?dv\<lparr>transfers := Some ts'\<rparr>),
                   xfers := xfers ?s |` (- (!) ?ts ` set is),
                   trace := trace ?s @ map (\<lambda>i. Usb_free_transfer (?ts ! i)) is\<rparr>)"
    using Cons.IH [OF now] by blast
  moreover have "(!) ?ts ` set is = (!) ts ` set is"
    using same by auto
  moreover have "(xfers s)(ts ! i := None) |` (- (!) ts ` set is) = xfers s |` (- (!) ts ` set (i # is))"
    by (auto simp: restrict_map_def)
  moreover have "map (\<lambda>i. Usb_free_transfer (?ts ! i)) is = map (\<lambda>i. Usb_free_transfer (ts ! i)) is"
    using same by simp
  moreover have "free_loop H d (i # is) s = free_loop H d is ?s"
    using Cons.prems by (intro free_loop_step) auto
  ultimately have "free_loop H d (i # is) s =
    Some ((), s\<lparr>devs := (devs s)(d \<mapsto> dv\<lparr>transfers := Some ts'\<rparr>),
                xfers := xfers s |` (- (!) ts ` set (i # is)),
                trace := trace s @ map (\<lambda>i. Usb_free_transfer (ts ! i)) (i # is)\<rparr>)"
    by (simp del: free_loop.simps image_insert)
  then show ?case by blast
qed

lemma free_transfers_run [outcome_simps]:
  assumes "allocated d dv ts s" "set ts \<inter> active s = {}"
  shows "free_transfers H d s =
    Some (HACKRF_SUCCESS, s\<lparr>devs := (devs s)(d \<mapsto> dv\<lparr>transfers := None\<rparr>),
                             xfers := xfers s |` (- set ts),
                             trace := trace s @ map Usb_free_transfer ts\<rparr>)"
proof -
  note a = allocatedD [OF assms(1)]
  have inj: "inj_on ((!) ts) (set [0..<TRANSFER_COUNT])"
    using a(3,4) by (simp add: inj_on_nth)
  have free: "\<forall>i \<in> set [0..<TRANSFER_COUNT]. i < length ts \<and> ts ! i \<noteq> NULL \<and> ts ! i \<in> dom (xfers s) - active s"
    using allocated_nth [OF assms(1)] assms(2) nth_mem [of _ ts] by fastforce
  have img: "(!) ts ` {0..<TRANSFER_COUNT} = set ts"
    using a(3) nth_image [of TRANSFER_COUNT ts] by (simp add: atLeast0LessThan)
  obtain ts' where "free_loop H d [0..<TRANSFER_COUNT] s =
    Some ((), s\<lparr>devs := (devs s)(d \<mapsto> dv\<lparr>transfers := Some ts'\<rparr>), xfers := xfers s |` (- set ts),
                trace := trace s @ map Usb_free_transfer ts\<rparr>)"
    using free_loop_run [OF a(1,2) distinct_upt inj free, of H]
    by (auto simp: img map_nth_upt a(3))
  with a show ?thesis by (simp add: free_transfers_def)
qed


text \<open>
  Allocation. \<open>filled h d i\<close> is the transfer of slot \<open>i\<close> after
  \<open>libusb_fill_bulk_transfer\<close>. The loop may stop at any slot; what it leaves in that case
  are transfers that nothing frees.
\<close>

definition filled :: "ptr \<Rightarrow> ptr \<Rightarrow> nat \<Rightarrow> usb_transfer" where
  "filled h d i = fill_bulk_transfer h d i blank_transfer"

lemma allocate_loop_step:
  assumes "devs s d = Some dv" "transfers dv = Some ts" "d \<noteq> NULL"
  shows "allocate_loop H d (i # is) s =
    (if ptr_ok (answer H (trace s) Usb_alloc_transfer)
     then allocate_loop H d is
       (s\<lparr>devs := (devs s)(d \<mapsto> dv\<lparr>transfers := Some (ts[i := fresh s])\<rparr>),
          xfers := (xfers s)(fresh s \<mapsto> filled (usb_device dv) d i),
          trace := trace s @ [Usb_alloc_transfer]\<rparr>)
     else Some (HACKRF_ERROR_LIBUSB,
       s\<lparr>devs := (devs s)(d \<mapsto> dv\<lparr>transfers := Some (ts[i := NULL])\<rparr>),
         trace := trace s @ [Usb_alloc_transfer]\<rparr>))"
  using assms
  by (simp add: libusb_alloc_transfer_def mod_xfer_def set_transfer_def filled_def)

text \<open>
  \<open>alloc_frame d dv ts X cs s\<close>: in \<open>s\<close> only the transfer array \<open>ts\<close> of the device \<open>d\<close>, the
  fresh transfers \<open>X\<close> and the trace, by the calls \<open>cs\<close>, have changed.
\<close>

definition alloc_frame :: "ptr \<Rightarrow> hackrf_device \<Rightarrow> ptr list \<Rightarrow> (ptr \<rightharpoonup> usb_transfer) \<Rightarrow> call list \<Rightarrow> lib \<Rightarrow> lib" where
  "alloc_frame d dv ts X cs s =
     s\<lparr>devs := (devs s)(d \<mapsto> dv\<lparr>transfers := Some ts\<rparr>), xfers := xfers s ++ X,
       trace := trace s @ cs\<rparr>"

lemma allocate_loop_outcome:
  assumes "devs s d = Some dv" "transfers dv = Some ts" "d \<noteq> NULL" "distinct is"
    "set is \<subseteq> {..<length ts}"
  shows "\<exists>r ts' X k. allocate_loop H d is s =
      Some (r, alloc_frame d dv ts' X (replicate k Usb_alloc_transfer) s)
    \<and> (\<forall>t \<in> dom X. length (trace s) < t \<and> t \<le> length (trace s) + k)
    \<and> length ts' = length ts \<and> (\<forall>i. i \<notin> set is \<longrightarrow> ts' ! i = ts ! i)
    \<and> (r = HACKRF_SUCCESS \<or> r = HACKRF_ERROR_LIBUSB)
    \<and> (r = HACKRF_SUCCESS \<longrightarrow> k = length is \<and>
         (\<forall>j < length is. ts' ! (is ! j) = Suc (length (trace s) + j) \<and>
            X (Suc (length (trace s) + j)) = Some (filled (usb_device dv) d (is ! j))))"
  using assms
proof (induction "is" arbitrary: s dv ts)
  case Nil
  have "allocate_loop H d [] s = Some (HACKRF_SUCCESS, alloc_frame d dv ts Map.empty (replicate 0 Usb_alloc_transfer) s)"
    using Nil.prems by (simp add: alloc_frame_def)
  then show ?case by (intro exI [of _ HACKRF_SUCCESS] exI [of _ ts] exI [of _ Map.empty] exI [of _ 0]) simp
next
  case (Cons i "is")
  show ?case
  proof (cases "ptr_ok (answer H (trace s) Usb_alloc_transfer)")
    case False
    then have "allocate_loop H d (i # is) s =
      Some (HACKRF_ERROR_LIBUSB, alloc_frame d dv (ts[i := NULL]) Map.empty (replicate 1 Usb_alloc_transfer) s)"
      using Cons.prems by (simp add: allocate_loop_step alloc_frame_def del: allocate_loop.simps)
    then show ?thesis
      by (intro exI [of _ HACKRF_ERROR_LIBUSB] exI [of _ "ts[i := NULL]"] exI [of _ Map.empty] exI [of _ 1])
        (auto simp: nth_list_update)
  next
    case True
    let ?ts = "ts[i := fresh s]"
    let ?dv = "dv\<lparr>transfers := Some ?ts\<rparr>"
    let ?x = "filled (usb_device dv) d i"
    let ?s = "s\<lparr>devs := (devs s)(d \<mapsto> ?dv), xfers := (xfers s)(fresh s \<mapsto> ?x),
                trace := trace s @ [Usb_alloc_transfer]\<rparr>"
    obtain r ts' X k where run: "allocate_loop H d is ?s =
        Some (r, alloc_frame d ?dv ts' X (replicate k Usb_alloc_transfer) ?s)"
      and fr: "\<forall>t \<in> dom X. length (trace ?s) < t \<and> t \<le> length (trace ?s) + k"
      and ts': "length ts' = length ?ts" "\<forall>i. i \<notin> set is \<longrightarrow> ts' ! i = ?ts ! i"
      and r: "r = HACKRF_SUCCESS \<or> r = HACKRF_ERROR_LIBUSB"
      and ok: "r = HACKRF_SUCCESS \<longrightarrow> k = length is \<and>
         (\<forall>j < length is. ts' ! (is ! j) = Suc (length (trace ?s) + j) \<and>
            X (Suc (length (trace ?s) + j)) = Some (filled (usb_device ?dv) d (is ! j)))"
      using Cons.IH [of ?s ?dv ?ts] Cons.prems by auto
    let ?X = "[fresh s \<mapsto> ?x] ++ X"
    have "alloc_frame d ?dv ts' X (replicate k Usb_alloc_transfer) ?s
        = alloc_frame d dv ts' ?X (replicate (Suc k) Usb_alloc_transfer) s"
      by (simp add: alloc_frame_def map_add_assoc [symmetric])
    with True Cons.prems run have "allocate_loop H d (i # is) s =
        Some (r, alloc_frame d dv ts' ?X (replicate (Suc k) Usb_alloc_transfer) s)"
      by (simp add: allocate_loop_step del: allocate_loop.simps)
    moreover have "X (fresh s) = None"
      using fr by (fastforce simp: fresh_def)
    moreover have "\<forall>t \<in> dom ?X. length (trace s) < t \<and> t \<le> length (trace s) + Suc k"
      using fr by (auto simp: fresh_def map_add_def dest!: bspec split: option.splits if_splits)
    moreover have "length ts' = length ts" "\<forall>j. j \<notin> set (i # is) \<longrightarrow> ts' ! j = ts ! j"
      using ts' by (simp_all add: nth_list_update)
    moreover have "ts' ! ((i # is) ! j) = Suc (length (trace s) + j) \<and>
        ?X (Suc (length (trace s) + j)) = Some (filled (usb_device dv) d ((i # is) ! j))"
      if "r = HACKRF_SUCCESS" "j < length (i # is)" for j
    proof (cases j)
      case 0
      with \<open>X (fresh s) = None\<close> ts' Cons.prems show ?thesis
        by (simp add: fresh_def map_add_def)
    next
      case (Suc j')
      with that ok show ?thesis by (auto simp: fresh_def map_add_Some_iff)
    qed
    moreover have "r = HACKRF_SUCCESS \<longrightarrow> Suc k = length (i # is)"
      using ok by simp
    ultimately show ?thesis
      using r by (intro exI [of _ r] exI [of _ ts'] exI [of _ ?X] exI [of _ "Suc k"]) blast
  qed
qed


lemma allocate_transfers_outcome:
  assumes "devs s d = Some dv" "transfers dv = None" "d \<noteq> NULL"
  shows "(\<exists>ts X. allocate_transfers H d s =
        Some (HACKRF_SUCCESS, alloc_frame d dv ts X (C_calloc # replicate TRANSFER_COUNT Usb_alloc_transfer) s)
      \<and> ts = map (\<lambda>j. length (trace s) + 2 + j) [0..<TRANSFER_COUNT] \<and> dom X = set ts
      \<and> (\<forall>i < TRANSFER_COUNT. X (ts ! i) = Some (filled (usb_device dv) d i)))
    \<or> (\<exists>r dv' X cs. allocate_transfers H d s =
        Some (r, s\<lparr>devs := (devs s)(d \<mapsto> dv'), xfers := xfers s ++ X, trace := trace s @ cs\<rparr>)
      \<and> r \<in> {HACKRF_ERROR_NO_MEM, HACKRF_ERROR_LIBUSB}
      \<and> (\<forall>t \<in> dom X. length (trace s) < t \<and> t \<le> length (trace s) + length cs))"
proof (cases "ptr_ok (answer H (trace s) C_calloc)")
  case False
  with assms have "allocate_transfers H d s =
    Some (HACKRF_ERROR_NO_MEM, s\<lparr>devs := (devs s)(d \<mapsto> dv), xfers := xfers s ++ Map.empty, trace := trace s @ [C_calloc]\<rparr>)"
    by (cases s) (auto simp: allocate_transfers_def fun_upd_idem)
  then show ?thesis by (intro disjI2 exI conjI) auto
next
  case True
  let ?is = "[0..<TRANSFER_COUNT]"
  let ?nulls = "replicate TRANSFER_COUNT NULL"
  let ?dv = "dv\<lparr>transfers := Some ?nulls\<rparr>"
  let ?s = "s\<lparr>devs := (devs s)(d \<mapsto> ?dv), trace := trace s @ [C_calloc]\<rparr>"
  have start: "devs ?s d = Some ?dv" "transfers ?dv = Some ?nulls" "distinct ?is"
    "set ?is \<subseteq> {..<length ?nulls}"
    by auto
  obtain r ts X k where run: "allocate_loop H d ?is ?s =
      Some (r, alloc_frame d ?dv ts X (replicate k Usb_alloc_transfer) ?s)"
    and fr: "\<forall>t \<in> dom X. length (trace ?s) < t \<and> t \<le> length (trace ?s) + k"
    and len: "length ts = length ?nulls"
    and r: "r = HACKRF_SUCCESS \<or> r = HACKRF_ERROR_LIBUSB"
    and ok: "r = HACKRF_SUCCESS \<longrightarrow> k = length ?is \<and>
         (\<forall>j < length ?is. ts ! (?is ! j) = Suc (length (trace ?s) + j) \<and>
            X (Suc (length (trace ?s) + j)) = Some (filled (usb_device ?dv) d (?is ! j)))"
    using allocate_loop_outcome [OF start(1,2) assms(3) start(3,4), of H] by blast
  have all: "allocate_transfers H d s =
      Some (r, alloc_frame d dv ts X (C_calloc # replicate k Usb_alloc_transfer) s)"
    using True assms run by (simp add: allocate_transfers_def alloc_frame_def)
  show ?thesis
  proof (cases "r = HACKRF_SUCCESS")
    case True
    have ts: "ts = map (\<lambda>j. length (trace s) + 2 + j) ?is"
      using True ok len by (intro nth_equalityI) auto
    moreover have "dom X = set ts"
    proof
      show "dom X \<subseteq> set ts"
      proof
        fix t assume "t \<in> dom X"
        then have "length (trace s) + 1 < t" "t \<le> length (trace s) + 1 + TRANSFER_COUNT"
          using bspec [OF fr, of t] True ok by simp_all
        then have "length (trace s) + 2 \<le> t" "t - (length (trace s) + 2) < TRANSFER_COUNT"
          by arith+
        then show "t \<in> set ts"
          by (auto simp: ts intro!: image_eqI [of _ _ "t - (length (trace s) + 2)"])
      qed
      show "set ts \<subseteq> dom X"
        using True ok by (auto simp: ts)
    qed
    ultimately show ?thesis
      using all True ok by (intro disjI1 exI [of _ ts] exI [of _ X]) auto
  next
    case False
    have "length (trace s) < t \<and> t \<le> length (trace s) + Suc k" if "t \<in> dom X" for t
      using bspec [OF fr that] by simp
    with False r all show ?thesis
      by (intro disjI2 exI [of _ r] exI [of _ "dv\<lparr>transfers := Some ts\<rparr>"] exI [of _ X]
            exI [of _ "C_calloc # replicate k Usb_alloc_transfer"]) (simp add: alloc_frame_def)
  qed
qed


text \<open>
  Submission. \<open>armed ep cb\<close> is what \<open>prepare_transfers\<close> writes into a transfer before it
  submits it. The loop stops at the first submission that fails: the transfers before it
  stay submitted.
\<close>

definition armed :: "u8 \<Rightarrow> transfer_cb \<Rightarrow> usb_transfer \<Rightarrow> usb_transfer" where
  "armed ep cb x = x\<lparr>x_endpoint := ep, x_callback := cb\<rparr>"

lemma armed_armed [simp]: "armed ep cb (armed ep' cb' x) = armed ep cb x"
  by (simp add: armed_def)

definition arm :: "u8 \<Rightarrow> transfer_cb \<Rightarrow> ptr set \<Rightarrow> (ptr \<rightharpoonup> usb_transfer) \<Rightarrow> (ptr \<rightharpoonup> usb_transfer)" where
  "arm ep cb T m = (\<lambda>t. if t \<in> T then map_option (armed ep cb) (m t) else m t)"

lemma dom_arm [simp]: "dom (arm ep cb T m) = dom m"
  by (auto simp: arm_def dom_def)

definition submission :: "u8 \<Rightarrow> transfer_cb \<Rightarrow> (ptr \<rightharpoonup> usb_transfer) \<Rightarrow> ptr \<Rightarrow> call" where
  "submission ep cb m t = Usb_submit_transfer t (armed ep cb (the (m t)))"

lemma prepare_loop_step:
  assumes "devs s d = Some dv" "transfers dv = Some ts" "i < length ts" "xfers s (ts ! i) = Some x"
  shows "prepare_loop H d ep cb (i # is) s =
    (let t = ts ! i; c = Usb_submit_transfer t (armed ep cb x); e = rc (answer H (trace s) c);
         s' = s\<lparr>xfers := (xfers s)(t \<mapsto> armed ep cb x), trace := trace s @ [c]\<rparr>
     in if e \<noteq> 0 then Some (HACKRF_ERROR_LIBUSB, s'\<lparr>last_libusb_error := e\<rparr>)
        else prepare_loop H d ep cb is (s'\<lparr>active := insert t (active s)\<rparr>))"
  using assms
  by (simp add: transfer_at_def mod_xfer_def libusb_submit_transfer_def armed_def fail_libusb_def Let_def)

lemma prepare_loop_outcome:
  assumes "devs s d = Some dv" "transfers dv = Some ts" "distinct is" "inj_on ((!) ts) (set is)"
    and "\<forall>i \<in> set is. i < length ts \<and> ts ! i \<in> dom (xfers s)"
  shows "\<exists>r e k m. prepare_loop H d ep cb is s = Some (r, s\<lparr>last_libusb_error := e,
        xfers := arm ep cb ((!) ts ` set (take k is)) (xfers s),
        active := active s \<union> (!) ts ` set (take m is),
        trace := trace s @ map (\<lambda>i. submission ep cb (xfers s) (ts ! i)) (take k is)\<rparr>)
    \<and> (r = HACKRF_SUCCESS \<and> k = length is \<and> m = length is \<and> e = last_libusb_error s
       \<or> r = HACKRF_ERROR_LIBUSB \<and> k = Suc m \<and> m < length is \<and> e \<noteq> 0)"
  using assms
proof (induction "is" arbitrary: s)
  case Nil
  have "prepare_loop H d ep cb [] s = Some (HACKRF_SUCCESS, s\<lparr>last_libusb_error := last_libusb_error s,
        xfers := arm ep cb ((!) ts ` set (take 0 [])) (xfers s),
        active := active s \<union> (!) ts ` set (take 0 []),
        trace := trace s @ map (\<lambda>i. submission ep cb (xfers s) (ts ! i)) (take 0 [])\<rparr>)"
    by (cases s) (simp add: arm_def)
  then show ?case by fastforce
next
  case (Cons i "is")
  obtain x where x: "xfers s (ts ! i) = Some x"
    using Cons.prems(5) by auto
  let ?c = "Usb_submit_transfer (ts ! i) (armed ep cb x)"
  let ?e = "rc (answer H (trace s) ?c)"
  let ?s = "s\<lparr>xfers := (xfers s)(ts ! i \<mapsto> armed ep cb x), active := insert (ts ! i) (active s),
              trace := trace s @ [?c]\<rparr>"
  have c: "?c = submission ep cb (xfers s) (ts ! i)"
    by (simp add: submission_def x)
  have armed1: "(xfers s)(ts ! i \<mapsto> armed ep cb x) = arm ep cb {ts ! i} (xfers s)"
    by (auto simp: arm_def x)
  have step: "prepare_loop H d ep cb (i # is) s =
    (if ?e \<noteq> 0 then Some (HACKRF_ERROR_LIBUSB, s\<lparr>last_libusb_error := ?e,
        xfers := (xfers s)(ts ! i \<mapsto> armed ep cb x), trace := trace s @ [?c]\<rparr>)
     else prepare_loop H d ep cb is ?s)"
    using Cons.prems x by (subst prepare_loop_step [of s d dv ts i x]) (auto simp: Let_def)
  show ?case
  proof (cases "?e = 0")
    case False
    have "prepare_loop H d ep cb (i # is) s = Some (HACKRF_ERROR_LIBUSB, s\<lparr>last_libusb_error := ?e,
        xfers := arm ep cb ((!) ts ` set (take 1 (i # is))) (xfers s),
        active := active s \<union> (!) ts ` set (take 0 (i # is)),
        trace := trace s @ map (\<lambda>i. submission ep cb (xfers s) (ts ! i)) (take 1 (i # is))\<rparr>)"
      unfolding step armed1 using False by (cases s) (simp add: c del: prepare_loop.simps)
    with False show ?thesis
      by (intro exI [of _ HACKRF_ERROR_LIBUSB] exI [of _ ?e] exI [of _ 1] exI [of _ 0]) simp
  next
    case True
    have other: "ts ! j \<noteq> ts ! i" if "j \<in> set is" for j
      using that Cons.prems by (auto simp: inj_on_def)
    have now: "devs ?s d = Some dv" "transfers dv = Some ts" "distinct is" "inj_on ((!) ts) (set is)"
      "\<forall>i \<in> set is. i < length ts \<and> ts ! i \<in> dom (xfers ?s)"
      using Cons.prems by (auto simp: inj_on_def)
    obtain r e k m where run: "prepare_loop H d ep cb is ?s = Some (r, ?s\<lparr>last_libusb_error := e,
        xfers := arm ep cb ((!) ts ` set (take k is)) (xfers ?s),
        active := active ?s \<union> (!) ts ` set (take m is),
        trace := trace ?s @ map (\<lambda>i. submission ep cb (xfers ?s) (ts ! i)) (take k is)\<rparr>)"
      and r: "r = HACKRF_SUCCESS \<and> k = length is \<and> m = length is \<and> e = last_libusb_error ?s
       \<or> r = HACKRF_ERROR_LIBUSB \<and> k = Suc m \<and> m < length is \<and> e \<noteq> 0"
      using Cons.IH [OF now] by blast
    have "arm ep cb ((!) ts ` set (take k is)) (xfers ?s)
        = arm ep cb ((!) ts ` set (take (Suc k) (i # is))) (xfers s)"
      using other by (auto simp: arm_def x fun_eq_iff dest: in_set_takeD)
    moreover have "map (\<lambda>i. submission ep cb (xfers ?s) (ts ! i)) (take k is)
        = map (\<lambda>i. submission ep cb (xfers s) (ts ! i)) (take k is)"
      using other by (auto simp: submission_def dest: in_set_takeD)
    ultimately have "prepare_loop H d ep cb (i # is) s = Some (r, s\<lparr>last_libusb_error := e,
        xfers := arm ep cb ((!) ts ` set (take (Suc k) (i # is))) (xfers s),
        active := active s \<union> (!) ts ` set (take (Suc m) (i # is)),
        trace := trace s @ map (\<lambda>i. submission ep cb (xfers s) (ts ! i)) (take (Suc k) (i # is))\<rparr>)"
      using True run by (simp add: step c del: prepare_loop.simps)
    then show ?thesis
      using r by (intro exI [of _ r] exI [of _ e] exI [of _ "Suc k"] exI [of _ "Suc m"]) auto
  qed
qed


lemma prepare_transfers_outcome:
  assumes "allocated d dv ts s"
  shows "\<exists>r e k m. prepare_transfers H d ep cb s = Some (r, s\<lparr>last_libusb_error := e,
        xfers := arm ep cb (set (take k ts)) (xfers s),
        active := active s \<union> set (take m ts),
        trace := trace s @ map (submission ep cb (xfers s)) (take k ts)\<rparr>)
    \<and> (r = HACKRF_SUCCESS \<and> k = TRANSFER_COUNT \<and> m = TRANSFER_COUNT \<and> e = last_libusb_error s
       \<or> r = HACKRF_ERROR_LIBUSB \<and> k = Suc m \<and> m < TRANSFER_COUNT \<and> e \<noteq> 0)"
proof -
  note a = allocatedD [OF assms]
  let ?is = "[0..<TRANSFER_COUNT]"
  have inj: "inj_on ((!) ts) (set ?is)"
    using a(3,4) by (simp add: inj_on_nth)
  have img: "(!) ts ` set (take n ?is) = set (take n ts)" for n
    using a(3) by (metis list.set_map take_map map_nth)
  have calls: "map (\<lambda>i. f (ts ! i)) (take n ?is) = map f (take n ts)" for n and f :: "ptr \<Rightarrow> call"
    using a(3) by (simp add: map_nth_upt flip: take_map)
  have run: "prepare_transfers H d ep cb s = prepare_loop H d ep cb ?is s"
    using a by (simp add: prepare_transfers_def)
  show ?thesis
    using prepare_loop_outcome [OF a(1,2) distinct_upt inj, of H ep cb] allocated_nth [OF assms]
    unfolding run img calls by simp
qed

end
