(* ===== verification/Streaming.thy ===== *)
theory Streaming
  imports Transfers Requests
begin

text \<open>
  The sample stream of a device: the transfer callback, the event thread, and the routines that
  start and stop it. The client's thread and the event thread interleave at the calls into
  libusb: a pass of the event thread is one turn of the loop of \<open>transfer_threadproc\<close>,
  and the answer to \<open>pthread_join\<close> says what the pass in flight still delivers.
\<close>

section \<open>Completion of a transfer\<close>

definition request_exit :: "ptr \<Rightarrow> lib \<Rightarrow> (unit \<times> lib) option" where
  "request_exit d s = mod_dev d (do_exit_update (\<lambda>_. True)) s"

text \<open>
  \<open>hackrf_libusb_transfer_callback\<close> for the transfer \<open>t\<close>, which finished with a status and a
  length. Calling a null client callback is undefined behaviour.
\<close>

definition hackrf_libusb_transfer_callback ::
  "host \<Rightarrow> ptr \<Rightarrow> int \<Rightarrow> int \<Rightarrow> lib \<Rightarrow> (unit \<times> lib) option" where
  "hackrf_libusb_transfer_callback H t status actual_length s =
     do { usb_transfer \<leftarrow> xfers s t;
          let device = x_user_data usb_transfer;
          if status = LIBUSB_TRANSFER_COMPLETED
          then do { (dv, s) \<leftarrow> get_dev device s;
                    let transfer = \<lparr>t_device = device, t_buffer = x_buffer usb_transfer,
                          t_buffer_length = x_length usb_transfer, t_valid_length = actual_length,
                          t_rx_ctx = rx_ctx dv, t_tx_ctx = tx_ctx dv\<rparr>;
                    (_, s) \<leftarrow> ub_unless (callback dv \<noteq> NULL) s;
                    (r, s) \<leftarrow> invoke H (Sample_callback (callback dv) transfer) s;
                    if rc r = 0
                    then do { (error, s) \<leftarrow> libusb_submit_transfer H t s;
                              if error < 0 then request_exit device s else Some ((), s) }
                    else request_exit device s }
          else request_exit device s }"

text \<open>
  libusb reports a submitted transfer once, by calling its callback; reports about anything
  else do not happen and are skipped.
\<close>

definition deliver :: "host \<Rightarrow> ptr \<times> int \<times> int \<Rightarrow> lib \<Rightarrow> (unit \<times> lib) option" where
  "deliver H e s =
     (case e of (t, status, n) \<Rightarrow>
        if t \<in> active s
        then do { x \<leftarrow> xfers s t;
                  let s = s\<lparr>active := active s - {t}\<rparr>;
                  case x_callback x of
                    No_callback \<Rightarrow> Some ((), s)
                  | Hackrf_libusb_transfer_callback \<Rightarrow> hackrf_libusb_transfer_callback H t status n s }
        else Some ((), s))"

fun deliver_all :: "host \<Rightarrow> (ptr \<times> int \<times> int) list \<Rightarrow> lib \<Rightarrow> (unit \<times> lib) option" where
  "deliver_all H [] s = Some ((), s)"
| "deliver_all H (e # es) s = do { (_, s) \<leftarrow> deliver H e s; deliver_all H es s }"

section \<open>The event thread\<close>

definition libusb_handle_events :: "host \<Rightarrow> lib \<Rightarrow> (int \<times> lib) option" where
  "libusb_handle_events H s =
     do { (r, s) \<leftarrow> invoke H Usb_handle_events s;
          (_, s) \<leftarrow> deliver_all H (completed r) s;
          Some (rc r, s) }"

text \<open>The end of a turn of the loop: an event error other than an interruption ends the stream.\<close>

definition after_events :: "ptr \<Rightarrow> int \<Rightarrow> lib \<Rightarrow> (unit \<times> lib) option" where
  "after_events d error s =
     (if error \<noteq> 0 \<and> error \<noteq> LIBUSB_ERROR_INTERRUPTED
      then mod_dev d (streaming_update (\<lambda>_. False)) s else Some ((), s))"

text \<open>One turn of the loop; \<open>False\<close> when the loop condition has failed.\<close>

definition thread_pass :: "host \<Rightarrow> ptr \<Rightarrow> lib \<Rightarrow> (bool \<times> lib) option" where
  "thread_pass H d s =
     do { (dv, s) \<leftarrow> get_dev d s;
          if streaming dv \<and> do_exit dv = False
          then do { (error, s) \<leftarrow> libusb_handle_events H s;
                    (_, s) \<leftarrow> after_events d error s;
                    Some (True, s) }
          else Some (False, s) }"

partial_function (option) transfer_threadproc :: "host \<Rightarrow> ptr \<Rightarrow> lib \<Rightarrow> (unit \<times> lib) option" where
  "transfer_threadproc H d s =
     do { (go, s) \<leftarrow> thread_pass H d s;
          if go then transfer_threadproc H d s else Some ((), s) }"

section \<open>Starting and stopping\<close>

text \<open>
  \<open>pthread_join\<close> returns when the event thread has returned. \<open>completed\<close> and \<open>val\<close> of its
  answer are the events and the error code of the pass in flight.
\<close>

definition pthread_join :: "host \<Rightarrow> ptr \<Rightarrow> ptr \<Rightarrow> lib \<Rightarrow> (int \<times> lib) option" where
  "pthread_join H d thread s =
     do { (r, s) \<leftarrow> invoke H (Pthread_join thread) s;
          (_, s) \<leftarrow> deliver_all H (completed r) s;
          (_, s) \<leftarrow> after_events d (val r) s;
          Some (rc r, s) }"

definition kill_transfer_thread :: "host \<Rightarrow> ptr \<Rightarrow> lib \<Rightarrow> (hackrf_error \<times> lib) option" where
  "kill_transfer_thread H device s =
     do { (_, s) \<leftarrow> request_exit device s;
          (dv, s) \<leftarrow> get_dev device s;
          if transfer_thread_started dv \<noteq> False
          then do { (result, s) \<leftarrow> pthread_join H device (transfer_thread dv) s;
                    if result \<noteq> 0 then Some (HACKRF_ERROR_THREAD, s)
                    else do { (_, s) \<leftarrow> mod_dev device (transfer_thread_started_update (\<lambda>_. False)) s;
                              (_, s) \<leftarrow> cancel_transfers H device s;
                              Some (HACKRF_SUCCESS, s) } }
          else Some (HACKRF_SUCCESS, s) }"

definition create_transfer_thread ::
  "host \<Rightarrow> ptr \<Rightarrow> u8 \<Rightarrow> ptr \<Rightarrow> lib \<Rightarrow> (hackrf_error \<times> lib) option" where
  "create_transfer_thread H device endpoint_address cb s =
     do { (dv, s) \<leftarrow> get_dev device s;
          if transfer_thread_started dv = False
          then do { (_, s) \<leftarrow> mod_dev device (\<lambda>dv. dv\<lparr>streaming := False, do_exit := False\<rparr>) s;
                    (result, s) \<leftarrow> prepare_transfers H device endpoint_address Hackrf_libusb_transfer_callback s;
                    if result \<noteq> HACKRF_SUCCESS then Some (result, s)
                    else do { (_, s) \<leftarrow> mod_dev device (\<lambda>dv. dv\<lparr>callback := cb, streaming := True\<rparr>) s;
                              let thread = fresh s;
                              (r, s) \<leftarrow> invoke H (Pthread_create device) s;
                              if rc r = 0
                              then do { (_, s) \<leftarrow> mod_dev device
                                          (\<lambda>dv. dv\<lparr>transfer_thread_started := True, transfer_thread := thread\<rparr>) s;
                                        Some (HACKRF_SUCCESS, s) }
                              else Some (HACKRF_ERROR_THREAD, s) } }
          else Some (HACKRF_ERROR_BUSY, s) }"

definition hackrf_is_streaming :: "ptr \<Rightarrow> lib \<Rightarrow> (hackrf_error \<times> lib) option" where
  "hackrf_is_streaming device s =
     do { (dv, s) \<leftarrow> get_dev device s;
          Some (if transfer_thread_started dv = True \<and> streaming dv = True \<and> do_exit dv = False
                then HACKRF_TRUE
                else if transfer_thread_started dv = False then HACKRF_ERROR_STREAMING_THREAD_ERR
                else if streaming dv = False then HACKRF_ERROR_STREAMING_STOPPED
                else HACKRF_ERROR_STREAMING_EXIT_CALLED, s) }"

definition hackrf_start_rx :: "host \<Rightarrow> ptr \<Rightarrow> ptr \<Rightarrow> ptr \<Rightarrow> lib \<Rightarrow> (hackrf_error \<times> lib) option" where
  "hackrf_start_rx H device cb ctx s =
     do { let endpoint_address = 0x80 OR 1;
          (result, s) \<leftarrow> hackrf_set_transceiver_mode H device HACKRF_TRANSCEIVER_MODE_RECEIVE s;
          if result = HACKRF_SUCCESS
          then do { (_, s) \<leftarrow> mod_dev device (rx_ctx_update (\<lambda>_. ctx)) s;
                    create_transfer_thread H device endpoint_address cb s }
          else Some (result, s) }"

definition hackrf_stop_rx :: "host \<Rightarrow> ptr \<Rightarrow> lib \<Rightarrow> (hackrf_error \<times> lib) option" where
  "hackrf_stop_rx H device s =
     do { (result, s) \<leftarrow> hackrf_set_transceiver_mode H device HACKRF_TRANSCEIVER_MODE_OFF s;
          if result \<noteq> HACKRF_SUCCESS then Some (result, s)
          else kill_transfer_thread H device s }"

definition hackrf_start_tx :: "host \<Rightarrow> ptr \<Rightarrow> ptr \<Rightarrow> ptr \<Rightarrow> lib \<Rightarrow> (hackrf_error \<times> lib) option" where
  "hackrf_start_tx H device cb ctx s =
     do { let endpoint_address = 0x00 OR 2;
          (result, s) \<leftarrow> hackrf_set_transceiver_mode H device HACKRF_TRANSCEIVER_MODE_TRANSMIT s;
          if result = HACKRF_SUCCESS
          then do { (_, s) \<leftarrow> mod_dev device (tx_ctx_update (\<lambda>_. ctx)) s;
                    create_transfer_thread H device endpoint_address cb s }
          else Some (result, s) }"

definition hackrf_stop_tx :: "host \<Rightarrow> ptr \<Rightarrow> lib \<Rightarrow> (hackrf_error \<times> lib) option" where
  "hackrf_stop_tx H device s =
     do { (result, s) \<leftarrow> hackrf_set_transceiver_mode H device HACKRF_TRANSCEIVER_MODE_OFF s;
          if result \<noteq> HACKRF_SUCCESS then Some (result, s)
          else kill_transfer_thread H device s }"

end
