(* ===== verification/Device_Open.thy ===== *)
theory Device_Open
  imports Transfers
begin

text \<open>
  Opening a device: configuration, kernel drivers, \<open>hackrf_open_setup\<close> with its error paths,
  the search for a device with a serial number, and the routines that open by product, by
  serial number and from a device list.
\<close>

section \<open>Configuration\<close>

fun detach_loop :: "host \<Rightarrow> ptr \<Rightarrow> nat list \<Rightarrow> lib \<Rightarrow> (hackrf_error \<times> lib) option" where
  "detach_loop H h [] s = Some (HACKRF_SUCCESS, s)"
| "detach_loop H h (i # is) s =
     do { (r, s) \<leftarrow> on_handle H h (Usb_kernel_driver_active h i) s;
          let result = rc r;
          if result < 0
          then if result = LIBUSB_ERROR_NOT_SUPPORTED then Some (HACKRF_SUCCESS, s)
               else fail_libusb result s
          else if result = 1
          then do { (r, s) \<leftarrow> on_handle H h (Usb_detach_kernel_driver h i) s;
                    if rc r \<noteq> 0 then fail_libusb (rc r) s else detach_loop H h is s }
          else detach_loop H h is s }"

text \<open>\<open>val\<close> of the answer is the number of interfaces in the descriptor.\<close>

definition detach_kernel_drivers :: "host \<Rightarrow> ptr \<Rightarrow> lib \<Rightarrow> (hackrf_error \<times> lib) option" where
  "detach_kernel_drivers H h s =
     do { (r, s) \<leftarrow> on_handle H h (Usb_get_active_config_descriptor h) s;
          if rc r < 0 then fail_libusb (rc r) s
          else detach_loop H h [0..<nat (val r)] s }"

text \<open>\<open>LIBUSB_SUCCESS\<close>, which the code returns at the end, and \<open>HACKRF_SUCCESS\<close> are both 0.\<close>

definition set_hackrf_configuration :: "host \<Rightarrow> ptr \<Rightarrow> int \<Rightarrow> lib \<Rightarrow> (hackrf_error \<times> lib) option" where
  "set_hackrf_configuration H h config s =
     do { (r, s) \<leftarrow> on_handle H h (Usb_get_configuration h) s;
          if rc r \<noteq> 0 then fail_libusb (rc r) s
          else if val r \<noteq> config
          then do { (result, s) \<leftarrow> detach_kernel_drivers H h s;
                    if result \<noteq> HACKRF_SUCCESS then Some (result, s)
                    else do { (r, s) \<leftarrow> on_handle H h (Usb_set_configuration h config) s;
                              if rc r \<noteq> 0 then fail_libusb (rc r) s
                              else detach_kernel_drivers H h s } }
          else detach_kernel_drivers H h s }"

section \<open>Setting a device up\<close>

text \<open>The object that \<open>malloc\<close> returned, with the fields that the code sets; three are left as found.\<close>

definition new_device :: "ptr \<Rightarrow> reply \<Rightarrow> hackrf_device" where
  "new_device h r =
     \<lparr>usb_device = h, transfers = None, callback = NULL, transfer_thread_started = False,
      transfer_thread = garbage r 0, streaming = False, rx_ctx = garbage r 1, tx_ctx = garbage r 2,
      do_exit = False\<rparr>"

definition release_and_close :: "host \<Rightarrow> ptr \<Rightarrow> lib \<Rightarrow> (unit \<times> lib) option" where
  "release_and_close H h s =
     do { (_, s) \<leftarrow> on_handle H h (Usb_release_interface h 0) s;
          libusb_close H h s }"

text \<open>
  The second half of \<open>hackrf_open_setup\<close>, from \<open>malloc\<close> on. \<open>device\<close> is the caller's
  variable, which only a successful call sets.
\<close>

definition attach_device :: "host \<Rightarrow> ptr \<Rightarrow> ptr \<Rightarrow> lib \<Rightarrow> ((hackrf_error \<times> ptr) \<times> lib) option" where
  "attach_device H h device s =
     do { let lib_device = fresh s;
          (r, s) \<leftarrow> invoke H C_malloc s;
          if \<not> ptr_ok r
          then do { (_, s) \<leftarrow> release_and_close H h s; Some ((HACKRF_ERROR_NO_MEM, device), s) }
          else do { let s = s\<lparr>devs := (devs s)(lib_device \<mapsto> new_device h r)\<rparr>;
                    (result, s) \<leftarrow> allocate_transfers H lib_device s;
                    if result \<noteq> HACKRF_SUCCESS
                    then do { let s = s\<lparr>devs := (devs s)(lib_device := None)\<rparr>;
                              (_, s) \<leftarrow> release_and_close H h s;
                              Some ((HACKRF_ERROR_NO_MEM, device), s) }
                    else Some ((HACKRF_SUCCESS, lib_device), s\<lparr>open_devices := open_devices s + 1\<rparr>) } }"

definition hackrf_open_setup :: "host \<Rightarrow> ptr \<Rightarrow> ptr \<Rightarrow> lib \<Rightarrow> ((hackrf_error \<times> ptr) \<times> lib) option" where
  "hackrf_open_setup H h device s =
     do { (result, s) \<leftarrow> set_hackrf_configuration H h USB_CONFIG_STANDARD s;
          if result \<noteq> HACKRF_SUCCESS
          then do { (_, s) \<leftarrow> libusb_close H h s; Some ((result, device), s) }
          else do { (r, s) \<leftarrow> on_handle H h (Usb_claim_interface h 0) s;
                    if rc r \<noteq> LIBUSB_SUCCESS
                    then do { (e, s) \<leftarrow> fail_libusb (rc r) s;
                              (_, s) \<leftarrow> libusb_close H h s;
                              Some ((e, device), s) }
                    else attach_device H h device s } }"

section \<open>Opening by product\<close>

definition open_vid_pid :: "host \<Rightarrow> u16 \<Rightarrow> lib \<Rightarrow> (ptr \<times> lib) option" where
  "open_vid_pid H pid s =
     do { ((_, h), s) \<leftarrow> libusb_open_handle H (Usb_open_vid_pid hackrf_usb_vid pid) ptr_ok s;
          Some (h, s) }"

text \<open>\<open>device\<close> is \<open>None\<close> when the caller passes a null pointer.\<close>

definition hackrf_open :: "host \<Rightarrow> ptr option \<Rightarrow> lib \<Rightarrow> ((hackrf_error \<times> ptr option) \<times> lib) option" where
  "hackrf_open H device s =
     (case device of
        None \<Rightarrow> Some ((HACKRF_ERROR_INVALID_PARAM, None), s)
      | Some v \<Rightarrow>
          do { (h, s) \<leftarrow> open_vid_pid H hackrf_one_usb_pid s;
               (h, s) \<leftarrow> (if h = NULL then open_vid_pid H hackrf_jawbreaker_usb_pid s else Some (h, s));
               (h, s) \<leftarrow> (if h = NULL then open_vid_pid H rad1o_usb_pid s else Some (h, s));
               if h = NULL then Some ((HACKRF_ERROR_NOT_FOUND, Some v), s)
               else do { ((e, v), s) \<leftarrow> hackrf_open_setup H h v s; Some ((e, Some v), s) } })"

section \<open>Opening by serial number\<close>

definition is_hackrf :: "device_descriptor \<Rightarrow> bool" where
  "is_hackrf dd \<longleftrightarrow> idVendor dd = hackrf_usb_vid \<and>
     (idProduct dd = hackrf_one_usb_pid \<or> idProduct dd = hackrf_jawbreaker_usb_pid \<or> idProduct dd = rad1o_usb_pid)"

text \<open>
  \<open>libusb_get_string_descriptor_ascii\<close> into the 64-byte array \<open>serial_number\<close>, which keeps
  its content from one device to the next, and the clamp and terminator that follow. A negative
  length is an access before the array.
\<close>

definition read_serial :: "host \<Rightarrow> ptr \<Rightarrow> u8 \<Rightarrow> u8 list \<Rightarrow> lib \<Rightarrow> ((nat \<times> u8 list) \<times> lib) option" where
  "read_serial H h i serial_number s =
     do { (r, s) \<leftarrow> on_handle H h (Usb_get_string_descriptor h i 64) s;
          let serial_number = overlay (bytes r) 64 serial_number;
          let serial_number_length =
            (if rc r \<ge> int USB_MAX_SERIAL_LENGTH then int USB_MAX_SERIAL_LENGTH else rc r);
          (_, s) \<leftarrow> ub_unless (0 \<le> serial_number_length) s;
          let n = nat serial_number_length;
          Some ((n, serial_number[n := 0]), s) }"

text \<open>
  \<open>strncmp(serial_number + n - match_len, desired, match_len) == 0\<close> for a \<open>desired\<close> without
  null bytes; undefined behaviour when the pointer is before the array.
\<close>

definition suffix_matches :: "u8 list \<Rightarrow> nat \<Rightarrow> u8 list \<Rightarrow> lib \<Rightarrow> (bool \<times> lib) option" where
  "suffix_matches serial_number n desired s =
     do { (_, s) \<leftarrow> ub_unless (length desired \<le> n) s;
          Some (take (length desired) (drop (n - length desired) serial_number) = desired, s) }"

text \<open>The loop of \<open>hackrf_open_usb\<close> over the device list; the result is \<open>usb_device\<close> at its end.\<close>

fun open_usb_loop :: "host \<Rightarrow> u8 list option \<Rightarrow> u8 list \<Rightarrow> ptr list \<Rightarrow> lib \<Rightarrow> (ptr \<times> lib) option" where
  "open_usb_loop H desired buf [] s = Some (NULL, s)"
| "open_usb_loop H desired buf (dev # ds) s =
     do { (r, s) \<leftarrow> invoke H (Usb_get_device_descriptor dev) s;
          if is_hackrf (desc r)
          then case desired of
                 Some serial \<Rightarrow>
                   if iSerialNumber (desc r) > 0
                   then do { ((ro, h), s) \<leftarrow> libusb_open_handle H (Usb_open dev) (\<lambda>r. rc r = 0) s;
                             if rc ro \<noteq> 0 then open_usb_loop H desired buf ds s
                             else do { ((n, buf), s) \<leftarrow> read_serial H h (iSerialNumber (desc r)) buf s;
                                       (found, s) \<leftarrow> suffix_matches buf n serial s;
                                       if found then Some (h, s)
                                       else do { (_, s) \<leftarrow> libusb_close H h s;
                                                 open_usb_loop H desired buf ds s } } }
                   else open_usb_loop H desired buf ds s
               | None \<Rightarrow>
                   do { ((_, h), s) \<leftarrow> libusb_open_handle H (Usb_open dev) (\<lambda>r. rc r = 0) s;
                        Some (h, s) }
          else open_usb_loop H desired buf ds s }"

definition hackrf_open_usb :: "host \<Rightarrow> u8 list option \<Rightarrow> lib \<Rightarrow> (ptr \<times> lib) option" where
  "hackrf_open_usb H desired s =
     do { (r, s) \<leftarrow> invoke H Usb_get_device_list s;
          (_, s) \<leftarrow> ub_unless (nat (rc r) \<le> length (devices r)) s;
          if (case desired of None \<Rightarrow> False | Some serial \<Rightarrow> length serial > 32) then Some (NULL, s)
          else do { (h, s) \<leftarrow> open_usb_loop H desired (map (stack H) [0..<64]) (take (nat (rc r)) (devices r)) s;
                    (_, s) \<leftarrow> invoke H Usb_free_device_list s;
                    Some (h, s) } }"

definition hackrf_open_by_serial ::
  "host \<Rightarrow> u8 list option \<Rightarrow> ptr option \<Rightarrow> lib \<Rightarrow> ((hackrf_error \<times> ptr option) \<times> lib) option" where
  "hackrf_open_by_serial H desired device s =
     (case desired of
        None \<Rightarrow> hackrf_open H device s
      | Some serial \<Rightarrow>
          (case device of
             None \<Rightarrow> Some ((HACKRF_ERROR_INVALID_PARAM, None), s)
           | Some v \<Rightarrow>
               do { (h, s) \<leftarrow> hackrf_open_usb H (Some serial) s;
                    if h = NULL then Some ((HACKRF_ERROR_NOT_FOUND, Some v), s)
                    else do { ((e, v), s) \<leftarrow> hackrf_open_setup H h v s; Some ((e, Some v), s) } }))"

end
