(* ===== verification/Lifecycle.thy ===== *)
theory Lifecycle
  imports Streaming Device_Open
begin

text \<open>
  The life of the library and of a device: \<open>hackrf_init\<close>, \<open>hackrf_exit\<close> and
  \<open>hackrf_close\<close>, the well-formedness of the library state, and the proof that every
  operation keeps it. \<open>evolves\<close> is the frame that all operations but opening and closing share.
\<close>

section \<open>Operations\<close>

definition hackrf_init :: "host \<Rightarrow> lib \<Rightarrow> (hackrf_error \<times> lib) option" where
  "hackrf_init H s =
     (if g_libusb_context s \<noteq> NULL then Some (HACKRF_SUCCESS, s)
      else do { let context = fresh s;
                (r, s) \<leftarrow> invoke H Usb_init s;
                if rc r \<noteq> 0 then fail_libusb (rc r) s
                else Some (HACKRF_SUCCESS, s\<lparr>g_libusb_context := context\<rparr>) })"

definition hackrf_exit :: "host \<Rightarrow> lib \<Rightarrow> (hackrf_error \<times> lib) option" where
  "hackrf_exit H s =
     (if open_devices s = 0
      then if g_libusb_context s \<noteq> NULL
           then do { (_, s) \<leftarrow> invoke H (Usb_exit (g_libusb_context s)) s;
                     Some (HACKRF_SUCCESS, s\<lparr>g_libusb_context := NULL\<rparr>) }
           else Some (HACKRF_SUCCESS, s)
      else Some (HACKRF_ERROR_NOT_LAST_DEVICE, s))"

definition close_device :: "host \<Rightarrow> ptr \<Rightarrow> lib \<Rightarrow> ((hackrf_error \<times> hackrf_error) \<times> lib) option" where
  "close_device H device s =
     do { (result1, s) \<leftarrow> hackrf_stop_rx H device s;
          (result2, s) \<leftarrow> hackrf_stop_tx H device s;
          (dv, s) \<leftarrow> get_dev device s;
          (_, s) \<leftarrow> (if usb_device dv \<noteq> NULL
                    then do { (_, s) \<leftarrow> release_and_close H (usb_device dv) s;
                              mod_dev device (usb_device_update (\<lambda>_. NULL)) s }
                    else Some ((), s));
          (_, s) \<leftarrow> free_transfers H device s;
          Some ((result1, result2), s\<lparr>devs := (devs s)(device := None)\<rparr>) }"

definition hackrf_close :: "host \<Rightarrow> ptr \<Rightarrow> lib \<Rightarrow> (hackrf_error \<times> lib) option" where
  "hackrf_close H device s =
     do { ((result1, result2), s) \<leftarrow> (if device \<noteq> NULL then close_device H device s
                                      else Some ((HACKRF_SUCCESS, HACKRF_SUCCESS), s));
          let s = s\<lparr>open_devices := open_devices s - 1\<rparr>;
          Some (if result2 \<noteq> HACKRF_SUCCESS then result2 else result1, s) }"

section \<open>The frame of the operations on open devices\<close>

definition dev_like :: "hackrf_device \<Rightarrow> hackrf_device \<Rightarrow> bool" where
  "dev_like dv dv' \<longleftrightarrow> usb_device dv' = usb_device dv \<and> transfers dv' = transfers dv"

definition xfer_like :: "usb_transfer \<Rightarrow> usb_transfer \<Rightarrow> bool" where
  "xfer_like x x' \<longleftrightarrow> x_dev_handle x' = x_dev_handle x \<and> x_user_data x' = x_user_data x \<and>
     x_buffer x' = x_buffer x \<and> x_length x' = x_length x"

definition owned :: "lib \<Rightarrow> ptr set" where
  "owned s = {t. \<exists>d dv ts. devs s d = Some dv \<and> transfers dv = Some ts \<and> t \<in> set ts}"

definition evolves :: "lib \<Rightarrow> lib \<Rightarrow> bool" where
  "evolves s s' \<longleftrightarrow>
     (\<forall>d. rel_option dev_like (devs s d) (devs s' d)) \<and>
     (\<forall>t. rel_option xfer_like (xfers s t) (xfers s' t)) \<and>
     handles s' = handles s \<and> active s' \<subseteq> active s \<union> owned s \<and> open_devices s' = open_devices s \<and>
     g_libusb_context s' = g_libusb_context s \<and> length (trace s) \<le> length (trace s')"

lemma like_refl [simp]: "dev_like dv dv" "xfer_like x x"
  by (simp_all add: dev_like_def xfer_like_def)

lemma dev_like_trans: "dev_like a b \<Longrightarrow> dev_like b c \<Longrightarrow> dev_like a c"
  by (simp add: dev_like_def)

lemma xfer_like_trans: "xfer_like x y \<Longrightarrow> xfer_like y z \<Longrightarrow> xfer_like x z"
  by (simp add: xfer_like_def)

lemma rel_option_like [simp]: "rel_option dev_like a a" "rel_option xfer_like b b"
  by (simp_all add: option.rel_refl)

lemma rel_option_comp:
  assumes "\<And>x y z. P x y \<Longrightarrow> P y z \<Longrightarrow> P x z" "rel_option P a b" "rel_option P b c"
  shows "rel_option P a c"
  using assms(2,3) by (cases b; cases c) (auto simp: option_rel_Some2 intro: assms(1))

lemma evolvesI:
  assumes "\<And>d. rel_option dev_like (devs s d) (devs s' d)" "\<And>t. rel_option xfer_like (xfers s t) (xfers s' t)"
    and "handles s' = handles s" "active s' \<subseteq> active s \<union> owned s" "open_devices s' = open_devices s"
    and "g_libusb_context s' = g_libusb_context s" "length (trace s) \<le> length (trace s')"
  shows "evolves s s'"
  using assms by (simp add: evolves_def)

lemma evolvesD:
  assumes "evolves s s'"
  shows "rel_option dev_like (devs s d) (devs s' d)" "rel_option xfer_like (xfers s t) (xfers s' t)"
    and "handles s' = handles s" "active s' \<subseteq> active s \<union> owned s" "open_devices s' = open_devices s"
    and "g_libusb_context s' = g_libusb_context s" "length (trace s) \<le> length (trace s')"
  using assms by (simp_all add: evolves_def)

lemma owned_iff: "t \<in> owned s \<longleftrightarrow> (\<exists>d dv ts. devs s d = Some dv \<and> transfers dv = Some ts \<and> t \<in> set ts)"
  by (simp add: owned_def)

lemma dev_likeD:
  assumes "rel_option dev_like a b" "b = Some dv'"
  obtains dv where "a = Some dv" "usb_device dv' = usb_device dv" "transfers dv' = transfers dv"
  using assms by (cases a) (auto simp: dev_like_def)

lemma dev_likeD':
  assumes "rel_option dev_like a b" "a = Some dv"
  obtains dv' where "b = Some dv'" "usb_device dv' = usb_device dv" "transfers dv' = transfers dv"
  using assms by (cases b) (auto simp: dev_like_def)

lemma evolves_owned: "evolves s s' \<Longrightarrow> owned s' = owned s"
proof (intro set_eqI iffI)
  fix t assume ev: "evolves s s'"
  show "t \<in> owned s" if "t \<in> owned s'"
    using that unfolding owned_iff by (metis dev_likeD [OF evolvesD(1) [OF ev]])
  show "t \<in> owned s'" if "t \<in> owned s"
    using that unfolding owned_iff by (metis dev_likeD' [OF evolvesD(1) [OF ev]])
qed

lemma evolves_refl [simp, intro]: "evolves s s"
  by (rule evolvesI) simp_all

lemma evolves_trans [trans]:
  assumes "evolves s t" "evolves t u"
  shows "evolves s u"
proof (rule evolvesI)
  show "rel_option dev_like (devs s d) (devs u d)" for d
    by (rule rel_option_comp [OF dev_like_trans evolvesD(1) [OF assms(1)] evolvesD(1) [OF assms(2)]])
  show "rel_option xfer_like (xfers s x) (xfers u x)" for x
    by (rule rel_option_comp [OF xfer_like_trans evolvesD(2) [OF assms(1)] evolvesD(2) [OF assms(2)]])
  show "active u \<subseteq> active s \<union> owned s"
    using evolvesD(4) [OF assms(1)] evolvesD(4) [OF assms(2)] evolves_owned [OF assms(1)] by blast
  show "length (trace s) \<le> length (trace u)"
    using evolvesD(7) [OF assms(1)] evolvesD(7) [OF assms(2)] by (rule le_trans)
qed (simp_all add: evolvesD(3,5,6) [OF assms(1)] evolvesD(3,5,6) [OF assms(2)])

lemma confined_evolves:
  assumes "confined s s'"
  shows "evolves s s'"
proof (rule evolvesI)
  show "length (trace s) \<le> length (trace s')"
    using confined_trace [OF assms] by auto
qed (simp_all add: confinedD [OF assms])

lemma mod_dev_evolves:
  assumes "mod_dev d f s = Some (u, s')" "\<And>dv. dev_like dv (f dv)"
  shows "evolves s s'"
  using assms by (cases "devs s d") (auto simp: mod_dev_def intro!: evolvesI)

lemma invoke_evolves: "invoke H c s = Some (r, s') \<Longrightarrow> evolves s s'"
  by (auto intro!: evolvesI)

lemma shrink_active_evolves [simp, intro]: "A \<subseteq> active s \<union> owned s \<Longrightarrow> evolves s (s\<lparr>active := A\<rparr>)"
  by (rule evolvesI) simp_all

text \<open>Each routine below evolves the state; the proofs follow its calls.\<close>

lemma mod_xfer_evolves:
  assumes "mod_xfer t f s = Some (u, s')" "\<And>x. xfer_like x (f x)"
  shows "evolves s s'"
  using assms by (cases "xfers s t") (auto simp: mod_xfer_def intro!: evolvesI)

lemma submit_evolves:
  assumes "libusb_submit_transfer H t s = Some (e, s')" "t \<in> active s \<union> owned s"
  shows "evolves s s'"
proof (cases "xfers s t")
  case None
  with assms show ?thesis by (simp add: libusb_submit_transfer_def)
next
  case (Some x)
  let ?c = "Usb_submit_transfer t x"
  have "s' = s\<lparr>active := (if rc (answer H (trace s) ?c) = 0 then insert t (active s) else active s), trace := trace s @ [?c]\<rparr>"
    using assms(1) Some by (cases s) (auto simp: libusb_submit_transfer_def)
  then show ?thesis using assms(2) by (intro evolvesI) auto
qed

lemma transfer_at_owned:
  "devs s d = Some dv \<Longrightarrow> transfer_at i dv = Some t \<Longrightarrow> t \<in> owned s"
  unfolding transfer_at_def owned_iff by (fastforce split: option.splits if_splits)

lemma prepare_loop_evolves:
  "prepare_loop H d ep cb is s = Some (r, s') \<Longrightarrow> evolves s s'"
proof (induction "is" arbitrary: s)
  case Nil
  then show ?case by simp
next
  case (Cons i "is")
  from Cons.prems obtain dv t s1 e s2 where
    dv: "devs s d = Some dv" "transfer_at i dv = Some t" and
    m: "mod_xfer t (\<lambda>x. x\<lparr>x_endpoint := ep, x_callback := cb\<rparr>) s = Some ((), s1)" and
    sub: "libusb_submit_transfer H t s1 = Some (e, s2)" and
    rest: "(if e \<noteq> 0 then fail_libusb e s2 else prepare_loop H d ep cb is s2) = Some (r, s')"
    by (auto simp: bind_pair_Some bind_eq_Some_conv get_dev_def split: option.splits)
  have one: "evolves s s1"
    using m by (rule mod_xfer_evolves) (simp add: xfer_like_def)
  then have "t \<in> active s1 \<union> owned s1" using transfer_at_owned [OF dv] by (simp add: evolves_owned)
  with sub have "evolves s1 s2" by (rule submit_evolves)
  moreover have "evolves s2 s'"
    using rest by (auto split: if_splits dest: Cons.IH fail_libusb_confined confined_evolves)
  ultimately show ?case using one by (blast intro: evolves_trans)
qed

lemma prepare_transfers_evolves: "prepare_transfers H d ep cb s = Some (r, s') \<Longrightarrow> evolves s s'"
  by (auto simp: prepare_transfers_def bind_pair_Some split: if_splits
      dest!: get_dev_confined intro: prepare_loop_evolves)

lemma cancel_evolves: "libusb_cancel_transfer H t s = Some (e, s') \<Longrightarrow> evolves s s'"
  by (auto simp: libusb_cancel_transfer_def split: if_splits intro!: evolvesI)

lemma cancel_loop_evolves: "cancel_loop H d is s = Some (u, s') \<Longrightarrow> evolves s s'"
proof (induction "is" arbitrary: s)
  case Nil
  then show ?case by simp
next
  case (Cons i "is")
  then obtain s1 where "evolves s s1" "cancel_loop H d is s1 = Some (u, s')"
    by (auto simp: bind_pair_Some bind_eq_Some_conv split: if_splits
        dest!: get_dev_confined intro: that cancel_evolves)
  with Cons.IH show ?case by (blast intro: evolves_trans)
qed

lemma cancel_transfers_evolves: "cancel_transfers H d s = Some (r, s') \<Longrightarrow> evolves s s'"
  by (auto simp: cancel_transfers_def bind_pair_Some split: if_splits
      dest!: get_dev_confined cancel_loop_evolves)

lemma request_exit_evolves: "request_exit d s = Some (u, s') \<Longrightarrow> evolves s s'"
  unfolding request_exit_def by (erule mod_dev_evolves) (simp add: dev_like_def)

lemma callback_evolves:
  assumes run: "hackrf_libusb_transfer_callback H t status n s = Some (u, s')" and t: "t \<in> owned s"
  shows "evolves s s'"
proof -
  from run obtain x where x: "xfers s t = Some x"
    by (auto simp: hackrf_libusb_transfer_callback_def bind_eq_Some_conv)
  show ?thesis
  proof (cases "status = LIBUSB_TRANSFER_COMPLETED")
    case False
    with run x show ?thesis
      by (auto simp: hackrf_libusb_transfer_callback_def dest: request_exit_evolves)
  next
    case True
    with run x obtain c r s1 where s1: "invoke H c s = Some (r, s1)" and
      rest: "(if rc r = 0 then do { (error, s) \<leftarrow> libusb_submit_transfer H t s1;
                if error < 0 then request_exit (x_user_data x) s else Some ((), s) }
              else request_exit (x_user_data x) s1) = Some (u, s')"
      by (auto simp: hackrf_libusb_transfer_callback_def bind_pair_Some Let_def
          simp del: invoke_def dest!: get_dev_confined)
    have ev: "evolves s s1" using s1 by (rule invoke_evolves)
    then have own: "t \<in> active s1 \<union> owned s1" using t by (simp add: evolves_owned)
    have "evolves s1 s'"
      using rest by (auto simp: bind_pair_Some split: if_splits
          dest: request_exit_evolves submit_evolves [OF _ own] intro: evolves_trans)
    with ev show ?thesis by (rule evolves_trans)
  qed
qed

lemma deliver_evolves:
  assumes "deliver H e s = Some (u, s')" "active s \<subseteq> owned s"
  shows "evolves s s'"
proof -
  obtain t status n where e: "e = (t, status, n)" by (cases e)
  let ?s = "s\<lparr>active := active s - {t}\<rparr>"
  have drop: "evolves s ?s" by (rule shrink_active_evolves) auto
  show ?thesis
  proof (cases "t \<in> active s")
    case False
    with assms(1) show ?thesis by (simp add: deliver_def e)
  next
    case True
    then have own: "t \<in> owned ?s" using assms(2) evolves_owned [OF drop] by blast
    from True assms(1) obtain x where "xfers s t = Some x"
      "(case x_callback x of No_callback \<Rightarrow> Some ((), ?s)
        | Hackrf_libusb_transfer_callback \<Rightarrow> hackrf_libusb_transfer_callback H t status n ?s) = Some (u, s')"
      by (auto simp: deliver_def e Let_def bind_eq_Some_conv)
    then have "evolves ?s s'"
      using callback_evolves [OF _ own] by (auto split: transfer_cb.splits)
    with drop show ?thesis by (rule evolves_trans)
  qed
qed

lemma active_owned: "evolves s s' \<Longrightarrow> active s \<subseteq> owned s \<Longrightarrow> active s' \<subseteq> owned s'"
  using evolvesD(4) [of s s'] evolves_owned [of s s'] by blast

lemma deliver_all_evolves:
  "deliver_all H es s = Some (u, s') \<Longrightarrow> active s \<subseteq> owned s \<Longrightarrow> evolves s s'"
proof (induction es arbitrary: s)
  case Nil
  then show ?case by simp
next
  case (Cons e es)
  from Cons.prems(1) obtain s1 where "deliver H e s = Some ((), s1)" "deliver_all H es s1 = Some (u, s')"
    by (auto simp: bind_pair_Some)
  with Cons.IH Cons.prems(2) show ?case
    by (blast intro: evolves_trans dest: deliver_evolves active_owned)
qed

lemma after_events_evolves: "after_events d e s = Some (u, s') \<Longrightarrow> evolves s s'"
  by (auto simp: after_events_def dev_like_def split: if_splits elim!: mod_dev_evolves)

lemma events_evolve:
  assumes "invoke H c s = Some (r, s1)" "deliver_all H es s1 = Some (u, s2)"
    "after_events d e s2 = Some (v, s')" "active s \<subseteq> owned s"
  shows "evolves s s'"
proof -
  have one: "evolves s s1" using assms(1) by (rule invoke_evolves)
  then have "evolves s1 s2"
    using deliver_all_evolves [OF assms(2)] active_owned [OF one assms(4)] by blast
  with one after_events_evolves [OF assms(3)] show ?thesis by (blast intro: evolves_trans)
qed

lemma thread_pass_evolves:
  assumes "thread_pass H d s = Some (go, s')" "active s \<subseteq> owned s"
  shows "evolves s s'"
proof -
  obtain dv where "devs s d = Some dv"
    using assms(1) by (auto simp: thread_pass_def bind_pair_Some dest!: get_dev_confined)
  show ?thesis
  proof (cases "streaming dv \<and> \<not> do_exit dv")
    case True
    with assms(1) \<open>devs s d = Some dv\<close> obtain error s2 where
      "libusb_handle_events H s = Some (error, s2)" and last: "after_events d error s2 = Some ((), s')"
      by (auto simp: thread_pass_def bind_pair_Some)
    then obtain r s1 where "invoke H Usb_handle_events s = Some (r, s1)"
      "deliver_all H (completed r) s1 = Some ((), s2)"
      by (auto simp: libusb_handle_events_def bind_pair_Some)
    then show ?thesis using last assms(2) by (rule events_evolve)
  next
    case False
    with assms(1) \<open>devs s d = Some dv\<close> show ?thesis by (auto simp: thread_pass_def)
  qed
qed

lemma pthread_join_evolves:
  assumes "pthread_join H d th s = Some (r, s')" "active s \<subseteq> owned s"
  shows "evolves s s'"
proof -
  from assms(1) obtain a s1 s2 where "invoke H (Pthread_join th) s = Some (a, s1)"
    "deliver_all H (completed a) s1 = Some ((), s2)" "after_events d (val a) s2 = Some ((), s')"
    by (auto simp: pthread_join_def bind_pair_Some)
  then show ?thesis using assms(2) by (rule events_evolve)
qed

lemma kill_transfer_thread_evolves:
  assumes "kill_transfer_thread H d s = Some (r, s')" "active s \<subseteq> owned s"
  shows "evolves s s'"
proof -
  from assms(1) obtain s1 dv where s1: "request_exit d s = Some ((), s1)" "devs s1 d = Some dv"
    and rest: "(if transfer_thread_started dv
        then do { (result, s) \<leftarrow> pthread_join H d (transfer_thread dv) s1;
                  if result \<noteq> 0 then Some (HACKRF_ERROR_THREAD, s)
                  else do { (_, s) \<leftarrow> mod_dev d (transfer_thread_started_update (\<lambda>_. False)) s;
                            (_, s) \<leftarrow> cancel_transfers H d s; Some (HACKRF_SUCCESS, s) } }
        else Some (HACKRF_SUCCESS, s1)) = Some (r, s')"
    by (auto simp: kill_transfer_thread_def bind_pair_Some dest!: get_dev_confined)
  have one: "evolves s s1" using s1(1) by (rule request_exit_evolves)
  show ?thesis
  proof (cases "transfer_thread_started dv")
    case False
    with rest one show ?thesis by simp
  next
    case True
    with rest obtain e s2 where s2: "pthread_join H d (transfer_thread dv) s1 = Some (e, s2)"
      and rest2: "(if e \<noteq> 0 then Some (HACKRF_ERROR_THREAD, s2)
                  else do { (_, s) \<leftarrow> mod_dev d (transfer_thread_started_update (\<lambda>_. False)) s2;
                            (_, s) \<leftarrow> cancel_transfers H d s; Some (HACKRF_SUCCESS, s) }) = Some (r, s')"
      by (auto simp: bind_pair_Some)
    have "evolves s1 s2" using s2 active_owned [OF one assms(2)] by (rule pthread_join_evolves)
    moreover have "evolves s2 s'"
    proof (cases "e = 0")
      case True
      with rest2 obtain s3 r3 where "mod_dev d (transfer_thread_started_update (\<lambda>_. False)) s2 = Some ((), s3)"
        "cancel_transfers H d s3 = Some (r3, s')"
        by (auto simp: bind_pair_Some)
      then have "evolves s2 s3" "evolves s3 s'"
        by (auto intro: mod_dev_evolves cancel_transfers_evolves simp: dev_like_def)
      then show ?thesis by (rule evolves_trans)
    next
      case False
      with rest2 show ?thesis by simp
    qed
    ultimately show ?thesis using one by (blast intro: evolves_trans)
  qed
qed

lemma create_transfer_thread_evolves:
  assumes "create_transfer_thread H d ep cb s = Some (r, s')"
  shows "evolves s s'"
proof -
  obtain dv where dv: "devs s d = Some dv"
    using assms by (auto simp: create_transfer_thread_def bind_pair_Some dest!: get_dev_confined)
  show ?thesis
  proof (cases "transfer_thread_started dv")
    case True
    with assms dv show ?thesis by (auto simp: create_transfer_thread_def)
  next
    case False
    with assms dv obtain s1 e s2 where
      s1: "mod_dev d (\<lambda>dv. dv\<lparr>streaming := False, do_exit := False\<rparr>) s = Some ((), s1)" and
      s2: "prepare_transfers H d ep Hackrf_libusb_transfer_callback s1 = Some (e, s2)" and
      rest: "(if e \<noteq> HACKRF_SUCCESS then Some (e, s2)
              else do { (_, s) \<leftarrow> mod_dev d (\<lambda>dv. dv\<lparr>callback := cb, streaming := True\<rparr>) s2;
                        let thread = fresh s;
                        (r, s) \<leftarrow> invoke H (Pthread_create d) s;
                        if rc r = 0
                        then do { (_, s) \<leftarrow> mod_dev d
                                    (\<lambda>dv. dv\<lparr>transfer_thread_started := True, transfer_thread := thread\<rparr>) s;
                                  Some (HACKRF_SUCCESS, s) }
                        else Some (HACKRF_ERROR_THREAD, s) }) = Some (r, s')"
      by (auto simp: create_transfer_thread_def bind_pair_Some simp del: mod_dev_Some invoke_def)
    have "evolves s s1" using s1 by (rule mod_dev_evolves) (simp add: dev_like_def)
    moreover have "evolves s1 s2" using s2 by (rule prepare_transfers_evolves)
    moreover have "evolves s2 s'"
    proof (cases "e = HACKRF_SUCCESS")
      case False
      with rest show ?thesis by simp
    next
      case True
      with rest obtain s3 a s4 where
        "mod_dev d (\<lambda>dv. dv\<lparr>callback := cb, streaming := True\<rparr>) s2 = Some ((), s3)"
        "invoke H (Pthread_create d) s3 = Some (a, s4)" and
        last: "(if rc a = 0
          then do { (_, s) \<leftarrow> mod_dev d
                      (\<lambda>dv. dv\<lparr>transfer_thread_started := True, transfer_thread := fresh s3\<rparr>) s4;
                    Some (HACKRF_SUCCESS, s) }
          else Some (HACKRF_ERROR_THREAD, s4)) = Some (r, s')"
        by (auto simp: bind_pair_Some Let_def simp del: invoke_def)
      then have "evolves s2 s3" "evolves s3 s4"
        by (auto intro: mod_dev_evolves invoke_evolves simp: dev_like_def simp del: invoke_def)
      moreover have "evolves s4 s'"
        using last by (auto simp: bind_pair_Some dev_like_def split: if_splits elim!: mod_dev_evolves)
      ultimately show ?thesis by (blast intro: evolves_trans)
    qed
    ultimately show ?thesis by (blast intro: evolves_trans)
  qed
qed

lemma mode_evolves: "hackrf_set_transceiver_mode H d m s = Some (r, s') \<Longrightarrow> evolves s s'"
  by (rule confined_evolves [OF set_transceiver_mode_request.confined])

lemma stop_evolves:
  assumes "active s \<subseteq> owned s"
  shows "hackrf_stop_rx H d s = Some (r, s') \<Longrightarrow> evolves s s'"
    and "hackrf_stop_tx H d s = Some (r, s') \<Longrightarrow> evolves s s'"
  unfolding hackrf_stop_rx_def hackrf_stop_tx_def
  by (auto simp: bind_pair_Some split: if_splits
      dest: mode_evolves kill_transfer_thread_evolves [OF _ active_owned [OF _ assms]]
      intro: evolves_trans)

lemma context_evolves:
  "mod_dev d (rx_ctx_update (\<lambda>_. ctx)) s = Some (u, s') \<Longrightarrow> evolves s s'"
  "mod_dev d (tx_ctx_update (\<lambda>_. ctx)) s = Some (u, s') \<Longrightarrow> evolves s s'"
  by (erule mod_dev_evolves; simp add: dev_like_def)+

lemma start_evolves:
  "hackrf_start_rx H d cb ctx s = Some (r, s') \<Longrightarrow> evolves s s'"
  "hackrf_start_tx H d cb ctx s = Some (r, s') \<Longrightarrow> evolves s s'"
  unfolding hackrf_start_rx_def hackrf_start_tx_def
  by (auto simp: bind_pair_Some split: if_splits
      dest!: mode_evolves create_transfer_thread_evolves context_evolves intro: evolves_trans)

end
