(* ===== verification/Library_Invariant.thy ===== *)
theory Library_Invariant
  imports Lifecycle Scenario
begin

text \<open>
  The well-formedness of the library state (\<open>lib_ok\<close>) and its preservation: by everything that
  only evolves the state, by opening a device on every path, and by closing one. The proofs give
  the exact account of the resources: what an open acquires, what a failed open and a close
  give back.
\<close>

section \<open>Well-formed library states\<close>

text \<open>Slot \<open>i\<close> of the device \<open>dv\<close> at \<open>d\<close>: its own part of the sample memory, for its own handle.\<close>

definition slot_ok :: "lib \<Rightarrow> ptr \<Rightarrow> hackrf_device \<Rightarrow> nat \<Rightarrow> ptr \<Rightarrow> bool" where
  "slot_ok s d dv i t \<longleftrightarrow>
     (\<exists>x. xfers s t = Some x \<and> x_dev_handle x = usb_device dv \<and> x_user_data x = d \<and>
        x_buffer x = (d, i * TRANSFER_BUFFER_SIZE) \<and> x_length x = TRANSFER_BUFFER_SIZE)"

definition device_ok :: "lib \<Rightarrow> ptr \<Rightarrow> hackrf_device \<Rightarrow> bool" where
  "device_ok s d dv \<longleftrightarrow> usb_device dv \<in> handles s \<and>
     (\<exists>ts. transfers dv = Some ts \<and> length ts = TRANSFER_COUNT \<and>
        (\<forall>i < TRANSFER_COUNT. slot_ok s d dv i (ts ! i)))"

definition names_ok :: "lib \<Rightarrow> bool" where
  "names_ok s \<longleftrightarrow>
     (\<forall>n \<in> dom (devs s) \<union> dom (xfers s) \<union> handles s. 0 < n \<and> n \<le> length (trace s))"

definition lib_ok :: "lib \<Rightarrow> bool" where
  "lib_ok s \<longleftrightarrow>
     (\<forall>d dv. devs s d = Some dv \<longrightarrow> device_ok s d dv) \<and>
     (\<forall>d d' dv dv'. devs s d = Some dv \<longrightarrow> devs s d' = Some dv' \<longrightarrow> usb_device dv = usb_device dv' \<longrightarrow> d = d') \<and>
     finite (dom (devs s)) \<and> open_devices s = of_nat (card (dom (devs s))) \<and>
     active s \<subseteq> owned s \<and> names_ok s"

lemma lib_okD:
  assumes "lib_ok s"
  shows "devs s d = Some dv \<Longrightarrow> device_ok s d dv"
    and "devs s d = Some dv \<Longrightarrow> devs s d' = Some dv' \<Longrightarrow> usb_device dv = usb_device dv' \<Longrightarrow> d = d'"
    and "finite (dom (devs s))" "open_devices s = of_nat (card (dom (devs s)))"
    and "active s \<subseteq> owned s" "names_ok s"
  using assms unfolding lib_ok_def by blast+

lemma lib_okI:
  assumes "\<And>d dv. devs s d = Some dv \<Longrightarrow> device_ok s d dv"
    and "\<And>d d' dv dv'. devs s d = Some dv \<Longrightarrow> devs s d' = Some dv' \<Longrightarrow> usb_device dv = usb_device dv' \<Longrightarrow> d = d'"
    and "finite (dom (devs s))" "open_devices s = of_nat (card (dom (devs s)))"
    and "active s \<subseteq> owned s" "names_ok s"
  shows "lib_ok s"
  using assms unfolding lib_ok_def by blast

lemma lib_ok_init: "lib_ok init_lib"
  by (rule lib_okI) (simp_all add: init_lib_def names_ok_def)

lemma names_okD:
  assumes "names_ok s"
  shows "d \<in> dom (devs s) \<Longrightarrow> 0 < d \<and> d \<le> length (trace s)"
    and "t \<in> dom (xfers s) \<Longrightarrow> 0 < t \<and> t \<le> length (trace s)"
    and "h \<in> handles s \<Longrightarrow> 0 < h \<and> h \<le> length (trace s)"
  using assms by (auto simp: names_ok_def)

lemma device_ok_allocated:
  assumes "lib_ok s" "devs s d = Some dv"
  obtains ts where "allocated d dv ts s" "\<And>i. i < TRANSFER_COUNT \<Longrightarrow> slot_ok s d dv i (ts ! i)"
proof -
  obtain ts where ts: "transfers dv = Some ts" "length ts = TRANSFER_COUNT"
    and slots: "\<And>i. i < TRANSFER_COUNT \<Longrightarrow> slot_ok s d dv i (ts ! i)"
    using lib_okD(1) [OF assms] by (auto simp: device_ok_def)
  have "set ts \<subseteq> dom (xfers s)"
    using slots ts(2) by (fastforce simp: in_set_conv_nth slot_ok_def)
  moreover have "NULL \<notin> dom (xfers s)"
    using names_okD(2) [OF lib_okD(6) [OF assms(1)], of NULL] by blast
  moreover have "distinct ts"
    unfolding distinct_conv_nth
  proof (intro allI impI)
    fix i j assume ij: "i < length ts" "j < length ts" "i \<noteq> j"
    then have "slot_ok s d dv i (ts ! i)" "slot_ok s d dv j (ts ! j)"
      using slots ts(2) by simp_all
    with ij(3) show "ts ! i \<noteq> ts ! j"
      by (auto simp: slot_ok_def TRANSFER_BUFFER_SIZE_def)
  qed
  ultimately have "allocated d dv ts s"
    using assms(2) ts by (auto simp: allocated_def)
  then show ?thesis using slots by (rule that)
qed

lemma slot_ok_like:
  assumes "slot_ok s d dv i t" "rel_option xfer_like (xfers s t) (xfers s' t)" "usb_device dv' = usb_device dv"
  shows "slot_ok s' d dv' i t"
  using assms by (cases "xfers s' t") (auto simp: slot_ok_def option_rel_Some1 xfer_like_def)

lemma names_ok_mono:
  assumes "names_ok s" "length (trace s) \<le> length (trace s')"
    and "dom (devs s') \<union> dom (xfers s') \<union> handles s' \<subseteq>
      dom (devs s) \<union> dom (xfers s) \<union> handles s \<union> {length (trace s)<..length (trace s')}"
  shows "names_ok s'"
  unfolding names_ok_def
proof
  fix n assume "n \<in> dom (devs s') \<union> dom (xfers s') \<union> handles s'"
  then consider "n \<in> dom (devs s) \<union> dom (xfers s) \<union> handles s" | "n \<in> {length (trace s)<..length (trace s')}"
    using assms(3) by blast
  then show "0 < n \<and> n \<le> length (trace s')"
  proof cases
    case 1
    with assms(1) have "0 < n \<and> n \<le> length (trace s)" unfolding names_ok_def by blast
    with assms(2) show ?thesis by simp
  next
    case 2
    then show ?thesis by auto
  qed
qed

lemma rel_option_dom:
  assumes "\<And>d. rel_option P (f d) (g d)"
  shows "dom g = dom f"
proof -
  have "(f x = None) = (g x = None)" for x
    using assms [of x] by (cases "f x"; cases "g x") simp_all
  then show ?thesis by (auto simp: dom_def)
qed

lemma lib_ok_evolves:
  assumes ok: "lib_ok s" and ev: "evolves s s'"
  shows "lib_ok s'"
proof (rule lib_okI)
  note E = evolvesD [OF ev]
  have dom: "dom (devs s') = dom (devs s)"
    using E(1) by (rule rel_option_dom [of dev_like "devs s" "devs s'"])
  have xdom: "dom (xfers s') = dom (xfers s)"
    using E(2) by (rule rel_option_dom [of xfer_like "xfers s" "xfers s'"])
  show "finite (dom (devs s'))" "open_devices s' = of_nat (card (dom (devs s')))"
    using lib_okD(3,4) [OF ok] E(5) by (simp_all add: dom)
  show "active s' \<subseteq> owned s'"
    by (rule active_owned [OF ev lib_okD(5) [OF ok]])
  show "names_ok s'"
    using lib_okD(6) [OF ok] E(7) by (rule names_ok_mono) (simp add: dom xdom E(3))
  fix d dv' assume d: "devs s' d = Some dv'"
  obtain dv where dv: "devs s d = Some dv" "usb_device dv' = usb_device dv" "transfers dv' = transfers dv"
    by (rule dev_likeD [OF E(1) d])
  from lib_okD(1) [OF ok dv(1)] show "device_ok s' d dv'"
    unfolding device_ok_def dv(2,3) E(3)
    using slot_ok_like [OF _ E(2) dv(2)] by blast
  fix d2 dv2' assume d2: "devs s' d2 = Some dv2'" and same: "usb_device dv' = usb_device dv2'"
  obtain dv2 where dv2: "devs s d2 = Some dv2" "usb_device dv2' = usb_device dv2"
    by (rule dev_likeD [OF E(1) d2])
  from same show "d = d2"
    unfolding dv(2) dv2(2) by (rule lib_okD(2) [OF ok dv(1) dv2(1)])
qed

section \<open>Opening a device\<close>

lemma confined_step: "confined (s\<lparr>trace := trace s @ cs\<rparr>) t \<Longrightarrow> confined s t"
  by (rule confined_trans [OF confined_updates(2)])

lemma detach_loop_runs:
  "h \<in> handles s \<Longrightarrow> \<exists>r s'. detach_loop H h is s = Some (r, s') \<and> confined s s'
     \<and> r \<in> {HACKRF_SUCCESS, HACKRF_ERROR_LIBUSB}"
proof (induction "is" arbitrary: s)
  case Nil
  then show ?case by simp
next
  case (Cons i "is")
  let ?c1 = "Usb_kernel_driver_active h i" and ?c2 = "Usb_detach_kernel_driver h i"
  have next1: "\<exists>r s'. detach_loop H h is (s\<lparr>trace := trace s @ cs\<rparr>) = Some (r, s') \<and> confined s s'
     \<and> r \<in> {HACKRF_SUCCESS, HACKRF_ERROR_LIBUSB}" for cs
    using Cons.IH [of "s\<lparr>trace := trace s @ cs\<rparr>"] Cons.prems by (auto dest: confined_step)
  show ?case
    using Cons.prems next1 [of "[?c1]"] next1 [of "[?c1, ?c2]"]
    by (auto simp: fail_libusb_def Let_def)
qed

lemma detach_kernel_drivers_runs:
  "h \<in> handles s \<Longrightarrow> \<exists>r s'. detach_kernel_drivers H h s = Some (r, s') \<and> confined s s'
     \<and> r \<in> {HACKRF_SUCCESS, HACKRF_ERROR_LIBUSB}"
  using detach_loop_runs [of h "s\<lparr>trace := trace s @ [Usb_get_active_config_descriptor h]\<rparr>" H
      "[0..<nat (val (answer H (trace s) (Usb_get_active_config_descriptor h)))]"]
  by (auto simp: detach_kernel_drivers_def fail_libusb_def dest: confined_step)

lemma set_hackrf_configuration_runs:
  assumes h: "h \<in> handles s"
  shows "\<exists>r s'. set_hackrf_configuration H h config s = Some (r, s') \<and> confined s s'
     \<and> r \<in> {HACKRF_SUCCESS, HACKRF_ERROR_LIBUSB}"
proof -
  let ?s1 = "s\<lparr>trace := trace s @ [Usb_get_configuration h]\<rparr>"
  obtain r s2 where s2: "detach_kernel_drivers H h ?s1 = Some (r, s2)" "confined s s2"
    "r \<in> {HACKRF_SUCCESS, HACKRF_ERROR_LIBUSB}"
    using detach_kernel_drivers_runs [of h ?s1 H] h by (auto dest: confined_step)
  have h2: "h \<in> handles s2" using confinedD(3) [OF s2(2)] h by simp
  let ?s3 = "s2\<lparr>trace := trace s2 @ [Usb_set_configuration h config]\<rparr>"
  obtain r' s4 where s4: "detach_kernel_drivers H h ?s3 = Some (r', s4)" "confined s2 s4"
    "r' \<in> {HACKRF_SUCCESS, HACKRF_ERROR_LIBUSB}"
    using detach_kernel_drivers_runs [of h ?s3 H] h2 by (auto dest: confined_step)
  show ?thesis
    using h h2 s2 s4 confined_trans [OF s2(2) s4(2)]
    by (auto simp: set_hackrf_configuration_def fail_libusb_def intro: confined_trans [OF s2(2)])
qed

text \<open>A handle that no device uses.\<close>

definition handle_ready :: "ptr \<Rightarrow> lib \<Rightarrow> bool" where
  "handle_ready h s \<longleftrightarrow> lib_ok s \<and> h \<in> handles s \<and> (\<forall>d dv. devs s d = Some dv \<longrightarrow> usb_device dv \<noteq> h)"

lemma handle_readyD:
  assumes "handle_ready h s"
  shows "lib_ok s" "h \<in> handles s" "devs s d = Some dv \<Longrightarrow> usb_device dv \<noteq> h"
  using assms by (auto simp: handle_ready_def)

lemma handle_ready_confined:
  assumes "handle_ready h s" "confined s s'"
  shows "handle_ready h s'"
  using assms lib_ok_evolves [OF _ confined_evolves [OF assms(2)]] confinedD [OF assms(2)]
  by (simp add: handle_ready_def)

text \<open>
  Any change that leaves the devices, their handles and the transfers that exist as they are:
  fresh transfers may appear, and handles that no device uses may go.
\<close>

lemma lib_ok_alter:
  assumes ok: "lib_ok s" and same: "devs s' = devs s" "open_devices s' = open_devices s" "active s' \<subseteq> active s"
    and used: "\<And>d dv. devs s d = Some dv \<Longrightarrow> usb_device dv \<in> handles s'" "handles s' \<subseteq> handles s"
    and old: "\<And>t. t \<in> dom (xfers s) \<Longrightarrow> xfers s' t = xfers s t"
    and len: "length (trace s) \<le> length (trace s')"
    and new: "dom (xfers s') \<subseteq> dom (xfers s) \<union> {length (trace s)<..length (trace s')}"
  shows "lib_ok s'"
proof (rule lib_okI)
  have own: "owned s' = owned s" by (simp add: owned_def same)
  show "active s' \<subseteq> owned s'" using lib_okD(5) [OF ok] same(3) own by blast
  show "names_ok s'"
    using lib_okD(6) [OF ok] len by (rule names_ok_mono) (use new used(2) in \<open>auto simp: same\<close>)
  show "device_ok s' d dv" if "devs s' d = Some dv" for d dv
  proof -
    have dv: "devs s d = Some dv" using that by (simp add: same)
    have "slot_ok s' d dv i t" if "slot_ok s d dv i t" for i t
      using that old by (auto simp: slot_ok_def dom_def)
    with lib_okD(1) [OF ok dv] used(1) [OF dv] show ?thesis
      unfolding device_ok_def by blast
  qed
qed (use lib_okD(2,3,4) [OF ok] same in simp_all)

lemma lib_ok_add_device:
  assumes ready: "handle_ready h s"
    and d: "d \<in> {length (trace s)<..length (trace s')}"
    and dv: "devs s' = (devs s)(d \<mapsto> dv)" "usb_device dv = h" "transfers dv = Some ts" "length ts = TRANSFER_COUNT"
    and slots: "\<And>i. i < TRANSFER_COUNT \<Longrightarrow> slot_ok s' d dv i (ts ! i)"
    and same: "open_devices s' = open_devices s + 1" "handles s' = handles s" "active s' = active s"
    and old: "\<And>t. t \<in> dom (xfers s) \<Longrightarrow> xfers s' t = xfers s t"
    and new: "dom (xfers s') \<subseteq> dom (xfers s) \<union> {length (trace s)<..length (trace s')}"
  shows "lib_ok s'"
proof (rule lib_okI)
  note ok = handle_readyD(1) [OF ready] and h = handle_readyD(2,3) [OF ready]
  have fresh: "devs s d = None"
    using names_okD(1) [OF lib_okD(6) [OF ok], of d] d by (cases "devs s d") (auto simp: dom_def)
  show "finite (dom (devs s'))" using lib_okD(3) [OF ok] by (simp add: dv(1))
  show "open_devices s' = of_nat (card (dom (devs s')))"
    using lib_okD(3,4) [OF ok] fresh by (simp add: dv(1) same(1) card_insert_if domIff)
  have "owned s \<subseteq> owned s'"
  proof
    fix t assume "t \<in> owned s"
    then obtain d0 dv0 ts0 where "devs s d0 = Some dv0" "transfers dv0 = Some ts0" "t \<in> set ts0"
      by (auto simp: owned_iff)
    moreover from this fresh have "devs s' d0 = Some dv0" by (cases "d0 = d") (simp_all add: dv(1))
    ultimately show "t \<in> owned s'" by (auto simp: owned_iff)
  qed
  then show "active s' \<subseteq> owned s'" using lib_okD(5) [OF ok] same(3) by blast
  have len: "length (trace s) \<le> length (trace s')" using d by simp
  show "names_ok s'"
    using lib_okD(6) [OF ok] len by (rule names_ok_mono) (use new d in \<open>auto simp: same(2) dv(1)\<close>)
  show "device_ok s' d' dv'" if "devs s' d' = Some dv'" for d' dv'
  proof (cases "d' = d")
    case True
    with that dv slots h(1) show ?thesis by (auto simp: device_ok_def same(2))
  next
    case False
    with that have old_dv: "devs s d' = Some dv'" by (simp add: dv(1))
    have "slot_ok s' d' dv' i t" if "slot_ok s d' dv' i t" for i t
      using that old by (auto simp: slot_ok_def dom_def)
    with lib_okD(1) [OF ok old_dv] show ?thesis
      unfolding device_ok_def same(2) by blast
  qed
  show "d1 = d2" if "devs s' d1 = Some dv1" "devs s' d2 = Some dv2" "usb_device dv1 = usb_device dv2"
    for d1 d2 dv1 dv2
    using that lib_okD(2) [OF ok] h(2) dv(1,2) by (auto split: if_splits)
qed

lemma libusb_close_run:
  "h \<in> handles s \<Longrightarrow> libusb_close H h s =
     Some ((), s\<lparr>handles := handles s - {h},
                active := Set.filter (\<lambda>t. case xfers s t of None \<Rightarrow> True | Some x \<Rightarrow> x_dev_handle x \<noteq> h) (active s),
                trace := trace s @ [Usb_close h]\<rparr>)"
  by (simp add: libusb_close_def)

lemma release_and_close_run:
  "h \<in> handles s \<Longrightarrow> release_and_close H h s =
     Some ((), s\<lparr>handles := handles s - {h},
                active := Set.filter (\<lambda>t. case xfers s t of None \<Rightarrow> True | Some x \<Rightarrow> x_dev_handle x \<noteq> h) (active s),
                trace := trace s @ [Usb_release_interface h 0, Usb_close h]\<rparr>)"
  by (simp add: release_and_close_def libusb_close_run)

text \<open>What a failed open leaves: the handle closed, the devices as they were.\<close>

definition gave_back :: "ptr \<Rightarrow> lib \<Rightarrow> lib \<Rightarrow> bool" where
  "gave_back h s s' \<longleftrightarrow> lib_ok s' \<and> devs s' = devs s \<and> open_devices s' = open_devices s \<and>
     handles s' = handles s - {h} \<and> active s' \<subseteq> active s"

lemma gave_backI:
  assumes "handle_ready h s" "devs s' = devs s" "open_devices s' = open_devices s"
    "handles s' = handles s - {h}" "active s' \<subseteq> active s"
    "\<And>t. t \<in> dom (xfers s) \<Longrightarrow> xfers s' t = xfers s t" "length (trace s) \<le> length (trace s')"
    "dom (xfers s') \<subseteq> dom (xfers s) \<union> {length (trace s)<..length (trace s')}"
  shows "gave_back h s s'"
proof -
  note ok = handle_readyD(1) [OF assms(1)]
  have "usb_device dv \<in> handles s'" if "devs s d = Some dv" for d dv
    using lib_okD(1) [OF ok that] handle_readyD(3) [OF assms(1) that] assms(4) by (auto simp: device_ok_def)
  then have "lib_ok s'"
    using assms(4) by (intro lib_ok_alter [OF ok assms(2,3,5) _ _ assms(6,7,8)]) auto
  with assms show ?thesis by (simp add: gave_back_def)
qed

definition idle :: "hackrf_device \<Rightarrow> bool" where
  "idle dv \<longleftrightarrow> \<not> transfer_thread_started dv \<and> \<not> streaming dv \<and> \<not> do_exit dv \<and> callback dv = NULL"

definition got_device :: "ptr \<Rightarrow> ptr \<Rightarrow> lib \<Rightarrow> lib \<Rightarrow> bool" where
  "got_device h d s s' \<longleftrightarrow> lib_ok s' \<and> d \<noteq> NULL \<and> devs s d = None \<and>
     (\<exists>dv. devs s' = (devs s)(d \<mapsto> dv) \<and> usb_device dv = h \<and> idle dv) \<and>
     open_devices s' = open_devices s + 1 \<and> handles s' = handles s \<and> active s' = active s"

lemma filter_active_subset [simp]: "Set.filter P A \<subseteq> A"
  by auto

lemma new_device_simps [simp]:
  "usb_device (new_device h r) = h" "transfers (new_device h r) = None" "idle (new_device h r)"
  by (simp_all add: new_device_def idle_def)

lemma idle_transfers [simp]: "idle (dv\<lparr>transfers := x\<rparr>) = idle dv"
  by (simp add: idle_def)

lemma attach_device_outcome:
  assumes ready: "handle_ready h s"
  shows "\<exists>e v' s'. attach_device H h v s = Some ((e, v'), s') \<and>
    (if e = HACKRF_SUCCESS then got_device h v' s s'
     else v' = v \<and> gave_back h s s' \<and> e \<in> {HACKRF_ERROR_LIBUSB, HACKRF_ERROR_NO_MEM})"
proof (cases "ptr_ok (answer H (trace s) C_malloc)")
  case False
  have h: "h \<in> handles s" by (rule handle_readyD(2) [OF ready])
  have "\<exists>s'. attach_device H h v s = Some ((HACKRF_ERROR_NO_MEM, v), s') \<and> gave_back h s s'"
    using False h by (simp add: attach_device_def release_and_close_run)
      (rule gave_backI [OF ready]; simp)
  then show ?thesis by (metis hackrf_error.distinct(9) insertCI)
next
  case True
  define d where "d = fresh s"
  define r where "r = answer H (trace s) C_malloc"
  let ?s1 = "s\<lparr>devs := (devs s)(d \<mapsto> new_device h r), trace := trace s @ [C_malloc]\<rparr>"
  have start: "devs ?s1 d = Some (new_device h r)" "transfers (new_device h r) = None" "d \<noteq> NULL"
    by (simp_all add: d_def)
  note ok = handle_readyD(1) [OF ready]
  have h: "h \<in> handles s" by (rule handle_readyD(2) [OF ready])
  have old: "t \<le> length (trace s)" if "t \<in> dom (xfers s)" for t
    using names_okD(2) [OF lib_okD(6) [OF ok] that] by simp
  have no_dev: "devs s d = None"
    using names_okD(1) [OF lib_okD(6) [OF ok], of d] by (cases "devs s d") (auto simp: d_def fresh_def dom_def)
  have run: "attach_device H h v s =
     do { (result, s) \<leftarrow> allocate_transfers H d ?s1;
          if result \<noteq> HACKRF_SUCCESS
          then do { let s = s\<lparr>devs := (devs s)(d := None)\<rparr>;
                    (_, s) \<leftarrow> release_and_close H h s;
                    Some ((HACKRF_ERROR_NO_MEM, v), s) }
          else Some ((HACKRF_SUCCESS, d), s\<lparr>open_devices := open_devices s + 1\<rparr>) }"
    using True unfolding d_def r_def by (simp add: attach_device_def Let_def)
  from allocate_transfers_outcome [OF start, of H] show ?thesis
  proof
    assume "\<exists>ts X. allocate_transfers H d ?s1 =
        Some (HACKRF_SUCCESS, alloc_frame d (new_device h r) ts X (C_calloc # replicate TRANSFER_COUNT Usb_alloc_transfer) ?s1)
      \<and> ts = map (\<lambda>j. length (trace ?s1) + 2 + j) [0..<TRANSFER_COUNT] \<and> dom X = set ts
      \<and> (\<forall>i < TRANSFER_COUNT. X (ts ! i) = Some (filled (usb_device (new_device h r)) d i))"
    then obtain ts X where alloc: "allocate_transfers H d ?s1 =
        Some (HACKRF_SUCCESS, alloc_frame d (new_device h r) ts X (C_calloc # replicate TRANSFER_COUNT Usb_alloc_transfer) ?s1)"
      and ts: "ts = map (\<lambda>j. length (trace ?s1) + 2 + j) [0..<TRANSFER_COUNT]" "dom X = set ts"
      and X: "\<And>i. i < TRANSFER_COUNT \<Longrightarrow> X (ts ! i) = Some (filled h d i)"
      unfolding new_device_simps by blast
    define s' where "s' = (alloc_frame d (new_device h r) ts X (C_calloc # replicate TRANSFER_COUNT Usb_alloc_transfer) ?s1)
        \<lparr>open_devices := open_devices s + 1\<rparr>"
    let ?dv = "new_device h r\<lparr>transfers := Some ts\<rparr>"
    have s': "devs s' = (devs s)(d \<mapsto> ?dv)" "xfers s' = xfers s ++ X" "handles s' = handles s"
      "active s' = active s" "open_devices s' = open_devices s + 1"
      "trace s' = trace s @ C_malloc # C_calloc # replicate TRANSFER_COUNT Usb_alloc_transfer"
      by (simp_all add: s'_def alloc_frame_def)
    have names: "set ts \<subseteq> {length (trace s)<..length (trace s')}"
      by (auto simp: ts(1) s'(6))
    have slots: "slot_ok s' d ?dv i (ts ! i)" if "i < TRANSFER_COUNT" for i
      using X [OF that] by (simp add: slot_ok_def s'(2) map_add_Some_iff filled_def fill_bulk_transfer_def)
    have "lib_ok s'"
    proof (rule lib_ok_add_device [OF ready _ s'(1) _ _ _ slots s'(5,3,4)])
      show "d \<in> {length (trace s)<..length (trace s')}" by (simp add: d_def fresh_def s'(6))
      show "xfers s' t = xfers s t" if "t \<in> dom (xfers s)" for t
      proof -
        have "t \<notin> dom X" using old [OF that] names unfolding ts(2) by auto
        then show ?thesis by (simp add: s'(2) map_add_dom_app_simps)
      qed
      show "dom (xfers s') \<subseteq> dom (xfers s) \<union> {length (trace s)<..length (trace s')}"
        using names by (auto simp: s'(2) ts(2))
    qed (simp_all add: ts(1))
    then have "got_device h d s s'"
      using start(3) no_dev unfolding got_device_def s'(1,3,4,5) by (intro conjI exI [of _ ?dv]) simp_all
    moreover have "attach_device H h v s = Some ((HACKRF_SUCCESS, d), s')"
      by (simp add: run alloc s'_def alloc_frame_def)
    ultimately show ?thesis by auto
  next
    assume "\<exists>e dv' X cs. allocate_transfers H d ?s1 =
        Some (e, ?s1\<lparr>devs := (devs ?s1)(d \<mapsto> dv'), xfers := xfers ?s1 ++ X, trace := trace ?s1 @ cs\<rparr>)
      \<and> e \<in> {HACKRF_ERROR_NO_MEM, HACKRF_ERROR_LIBUSB}
      \<and> (\<forall>t \<in> dom X. length (trace ?s1) < t \<and> t \<le> length (trace ?s1) + length cs)"
    then obtain e dv' X cs where alloc: "allocate_transfers H d ?s1 =
        Some (e, ?s1\<lparr>devs := (devs ?s1)(d \<mapsto> dv'), xfers := xfers ?s1 ++ X, trace := trace ?s1 @ cs\<rparr>)"
      and e1: "e \<in> {HACKRF_ERROR_NO_MEM, HACKRF_ERROR_LIBUSB}"
      and X1: "\<forall>t \<in> dom X. length (trace ?s1) < t \<and> t \<le> length (trace ?s1) + length cs"
      by blast
    from e1 have e: "e \<noteq> HACKRF_SUCCESS" by auto
    have X: "length (trace s) < t \<and> t \<le> Suc (length (trace s) + length cs)" if "t \<in> dom X" for t
      using bspec [OF X1 that] by simp
    have clean: "s\<lparr>devs := (devs s)(d := None)\<rparr> = s"
      using no_dev by (cases s) (simp add: fun_upd_idem)
    have "\<exists>s'. attach_device H h v s = Some ((HACKRF_ERROR_NO_MEM, v), s') \<and> gave_back h s s'"
    proof (intro exI conjI)
      show "attach_device H h v s = Some ((HACKRF_ERROR_NO_MEM, v),
          s\<lparr>xfers := xfers s ++ X, handles := handles s - {h},
            active := Set.filter (\<lambda>t. case (xfers s ++ X) t of None \<Rightarrow> True | Some x \<Rightarrow> x_dev_handle x \<noteq> h) (active s),
            trace := trace s @ C_malloc # cs @ [Usb_release_interface h 0, Usb_close h]\<rparr>)" (is "_ = Some (_, ?s2)")
        using e h by (simp add: run alloc release_and_close_run clean)
      show "gave_back h s ?s2"
      proof (rule gave_backI [OF ready])
        show "xfers ?s2 t = xfers s t" if "t \<in> dom (xfers s)" for t
          using old [OF that] X [of t] by (cases "X t") (auto simp: map_add_def dom_def)
        show "dom (xfers ?s2) \<subseteq> dom (xfers s) \<union> {length (trace s)<..length (trace ?s2)}"
          using X by fastforce
      qed simp_all
    qed
    then show ?thesis by force
  qed
qed

lemma outcome_confined:
  assumes "confined s s1"
  shows "gave_back h s1 s' \<Longrightarrow> gave_back h s s'" "got_device h d s1 s' \<Longrightarrow> got_device h d s s'"
  using confinedD [OF assms] by (simp_all add: gave_back_def got_device_def)

lemma close_gives_back:
  assumes "handle_ready h s"
  shows "\<exists>s'. libusb_close H h s = Some ((), s') \<and> gave_back h s s'"
  using handle_readyD(2) [OF assms]
  by (simp add: libusb_close_run) (rule gave_backI [OF assms]; simp)

lemma open_setup_outcome:
  assumes ready: "handle_ready h s"
  shows "\<exists>e v' s'. hackrf_open_setup H h v s = Some ((e, v'), s') \<and>
    (if e = HACKRF_SUCCESS then got_device h v' s s'
     else v' = v \<and> gave_back h s s' \<and> e \<in> {HACKRF_ERROR_LIBUSB, HACKRF_ERROR_NO_MEM})"
proof -
  obtain r s1 where s1: "set_hackrf_configuration H h USB_CONFIG_STANDARD s = Some (r, s1)" "confined s s1"
    and r: "r \<in> {HACKRF_SUCCESS, HACKRF_ERROR_LIBUSB}"
    using set_hackrf_configuration_runs [OF handle_readyD(2) [OF ready]] by blast
  note ready1 = handle_ready_confined [OF ready s1(2)]
  show ?thesis
  proof (cases "r = HACKRF_SUCCESS")
    case False
    obtain s2 where "libusb_close H h s1 = Some ((), s2)" "gave_back h s1 s2"
      using close_gives_back [OF ready1] by blast
    with False r s1 outcome_confined(1) [OF s1(2)] show ?thesis
      by (simp add: hackrf_open_setup_def)
  next
    case True
    let ?c = "Usb_claim_interface h 0"
    let ?e = "rc (answer H (trace s1) ?c)"
    let ?s2 = "s1\<lparr>trace := trace s1 @ [?c]\<rparr>" and ?s3 = "s1\<lparr>last_libusb_error := ?e, trace := trace s1 @ [?c]\<rparr>"
    have conf: "confined s ?s2" "confined s ?s3" by (blast intro: confined_trans [OF s1(2)])+
    show ?thesis
    proof (cases "?e = 0")
      case False
      obtain s4 where "libusb_close H h ?s3 = Some ((), s4)" "gave_back h s s4"
        using close_gives_back [OF handle_ready_confined [OF ready conf(2)]] outcome_confined(1) [OF conf(2)] by blast
      with False True s1 handle_readyD(2) [OF ready1] show ?thesis
        by (simp add: hackrf_open_setup_def fail_libusb_def LIBUSB_SUCCESS_def)
    next
      case claimed: True
      have "hackrf_open_setup H h v s = attach_device H h v ?s2"
        using claimed True s1 handle_readyD(2) [OF ready1]
        by (simp add: hackrf_open_setup_def LIBUSB_SUCCESS_def)
      with attach_device_outcome [OF handle_ready_confined [OF ready conf(1)], of H v]
        outcome_confined [OF conf(1)]
      show ?thesis by (auto split: if_splits)
    qed
  qed
qed

text \<open>A successful \<open>libusb_open\<close> gives a handle that no device uses.\<close>

lemma fresh_handle_ready:
  assumes ok: "lib_ok s" and s': "s' = s\<lparr>handles := insert (fresh s) (handles s), trace := trace s @ [c]\<rparr>"
  shows "handle_ready (fresh s) s'" "fresh s \<notin> handles s"
proof -
  show new: "fresh s \<notin> handles s"
    using names_okD(3) [OF lib_okD(6) [OF ok], of "fresh s"] by (auto simp: fresh_def)
  have used: "usb_device dv \<in> handles s" if "devs s d = Some dv" for d dv
    using lib_okD(1) [OF ok that] by (simp add: device_ok_def)
  have "lib_ok s'"
  proof (rule lib_okI)
    show "names_ok s'"
      using lib_okD(6) [OF ok] by (rule names_ok_mono) (auto simp: s' fresh_def)
    show "device_ok s' d dv" if "devs s' d = Some dv" for d dv
      using lib_okD(1) [OF ok, of d dv] that by (auto simp: device_ok_def slot_ok_def s')
    have "owned s' = owned s" by (simp add: owned_def s')
    then show "active s' \<subseteq> owned s'" using lib_okD(5) [OF ok] by (simp add: s')
  qed (use lib_okD(2,3,4) [OF ok] in \<open>simp_all add: s'\<close>)
  moreover have "usb_device dv \<noteq> fresh s" if "devs s d = Some dv" for d dv
    using used [OF that] new by metis
  ultimately show "handle_ready (fresh s) s'"
    by (simp add: handle_ready_def s')
qed

lemma open_handle_outcome:
  assumes ok: "lib_ok s"
  shows "\<exists>r h s'. libusb_open_handle H c good s = Some ((r, h), s') \<and>
    (if h = NULL then lib_ok s' \<and> confined s s'
     else handle_ready h s' \<and> h \<notin> handles s \<and> handles s' = insert h (handles s) \<and>
       devs s' = devs s \<and> open_devices s' = open_devices s \<and> active s' = active s)"
proof (cases "good (answer H (trace s) c)")
  case True
  let ?s' = "s\<lparr>handles := insert (fresh s) (handles s), trace := trace s @ [c]\<rparr>"
  have "libusb_open_handle H c good s = Some ((answer H (trace s) c, fresh s), ?s')"
    using True by (simp add: libusb_open_handle_def)
  with fresh_handle_ready [OF ok, of ?s' c, OF refl] show ?thesis by simp
next
  case False
  have "libusb_open_handle H c good s = Some ((answer H (trace s) c, NULL), s\<lparr>trace := trace s @ [c]\<rparr>)"
    using False by (simp add: libusb_open_handle_def)
  moreover have "lib_ok (s\<lparr>trace := trace s @ [c]\<rparr>)"
    by (rule lib_ok_evolves [OF ok confined_evolves]) simp
  ultimately show ?thesis by simp
qed

text \<open>
  What an open routine that may be refused promises: on success a new idle device on a new
  handle, otherwise nothing acquired.
\<close>

definition opened :: "hackrf_error \<Rightarrow> ptr \<Rightarrow> ptr \<Rightarrow> lib \<Rightarrow> lib \<Rightarrow> bool" where
  "opened e v v' s s' \<longleftrightarrow> lib_ok s' \<and> active s' \<subseteq> active s \<and>
     (if e = HACKRF_SUCCESS
      then v' \<noteq> NULL \<and> devs s v' = None \<and> open_devices s' = open_devices s + 1 \<and>
        (\<exists>h dv. h \<notin> handles s \<and> handles s' = insert h (handles s) \<and> devs s' = (devs s)(v' \<mapsto> dv) \<and>
          usb_device dv = h \<and> idle dv)
      else v' = v \<and> devs s' = devs s \<and> handles s' = handles s \<and> open_devices s' = open_devices s)"

lemma opened_setup:
  assumes ready: "handle_ready h s1" and h: "h \<notin> handles s" "handles s1 = insert h (handles s)"
    and same: "devs s1 = devs s" "open_devices s1 = open_devices s" "active s1 \<subseteq> active s"
    and run: "hackrf_open_setup H h v s1 = Some ((e, v'), s')"
  shows "opened e v v' s s'"
  using open_setup_outcome [OF ready, of H v] run h same
  by (auto simp: opened_def got_device_def gave_back_def split: if_splits)

lemma opened_confined:
  assumes "confined s s1" "opened e v v' s1 s'"
  shows "opened e v v' s s'"
  using assms(2) unfolding opened_def confinedD(1,3,4,5) [OF assms(1)] .

lemma open_vid_pid_outcome:
  assumes ok: "lib_ok s"
  shows "\<exists>h s'. open_vid_pid H pid s = Some (h, s') \<and>
    (if h = NULL then lib_ok s' \<and> confined s s'
     else handle_ready h s' \<and> h \<notin> handles s \<and> handles s' = insert h (handles s) \<and>
       devs s' = devs s \<and> open_devices s' = open_devices s \<and> active s' \<subseteq> active s)"
proof -
  obtain r h s' where "libusb_open_handle H (Usb_open_vid_pid hackrf_usb_vid pid) ptr_ok s = Some ((r, h), s')"
    "if h = NULL then lib_ok s' \<and> confined s s'
     else handle_ready h s' \<and> h \<notin> handles s \<and> handles s' = insert h (handles s) \<and>
       devs s' = devs s \<and> open_devices s' = open_devices s \<and> active s' = active s"
    using open_handle_outcome [OF ok] by blast
  then show ?thesis
    by (intro exI [of _ h] exI [of _ s']) (simp add: open_vid_pid_def split: if_splits)
qed

lemma hackrf_open_outcome:
  assumes ok: "lib_ok s"
  shows "\<exists>e v' s'. hackrf_open H (Some v) s = Some ((e, Some v'), s') \<and> opened e v v' s s'"
proof -
  have built: "\<exists>e v' s'. do { ((e, v), s) \<leftarrow> hackrf_open_setup H h v s1; Some ((e, Some v), s) } = Some ((e, Some v'), s')
      \<and> opened e v v' s s'"
    if "handle_ready h s1" "h \<notin> handles s" "handles s1 = insert h (handles s)" "devs s1 = devs s"
      "open_devices s1 = open_devices s" "active s1 \<subseteq> active s" for h s1
    using open_setup_outcome [OF that(1), of H v] opened_setup [OF that, of H v] by fastforce
  obtain h1 s1 where s1: "open_vid_pid H hackrf_one_usb_pid s = Some (h1, s1)" and r1:
    "if h1 = NULL then lib_ok s1 \<and> confined s s1
     else handle_ready h1 s1 \<and> h1 \<notin> handles s \<and> handles s1 = insert h1 (handles s) \<and>
       devs s1 = devs s \<and> open_devices s1 = open_devices s \<and> active s1 \<subseteq> active s"
    using open_vid_pid_outcome [OF ok] by blast
  show ?thesis
  proof (cases "h1 = NULL")
    case False
    with r1 s1 built [of h1 s1] show ?thesis by (simp add: hackrf_open_def)
  next
    case n1: True
    with r1 have ok1: "lib_ok s1" and c1: "confined s s1" by simp_all
    obtain h2 s2 where s2: "open_vid_pid H hackrf_jawbreaker_usb_pid s1 = Some (h2, s2)" and r2:
      "if h2 = NULL then lib_ok s2 \<and> confined s1 s2
       else handle_ready h2 s2 \<and> h2 \<notin> handles s1 \<and> handles s2 = insert h2 (handles s1) \<and>
         devs s2 = devs s1 \<and> open_devices s2 = open_devices s1 \<and> active s2 \<subseteq> active s1"
      using open_vid_pid_outcome [OF ok1] by blast
    show ?thesis
    proof (cases "h2 = NULL")
      case False
      with n1 r2 s1 s2 built [of h2 s2] confinedD [OF c1] show ?thesis by (simp add: hackrf_open_def)
    next
      case n2: True
      with r2 have ok2: "lib_ok s2" and c2: "confined s s2" using confined_trans [OF c1] by simp_all
      obtain h3 s3 where s3: "open_vid_pid H rad1o_usb_pid s2 = Some (h3, s3)" and r3:
        "if h3 = NULL then lib_ok s3 \<and> confined s2 s3
         else handle_ready h3 s3 \<and> h3 \<notin> handles s2 \<and> handles s3 = insert h3 (handles s2) \<and>
           devs s3 = devs s2 \<and> open_devices s3 = open_devices s2 \<and> active s3 \<subseteq> active s2"
        using open_vid_pid_outcome [OF ok2] by blast
      show ?thesis
      proof (cases "h3 = NULL")
        case False
        with n1 n2 r3 s1 s2 s3 built [of h3 s3] confinedD [OF c2] show ?thesis by (simp add: hackrf_open_def)
      next
        case True
        with r3 have "lib_ok s3" "confined s s3" using confined_trans [OF c2] by simp_all
        with True n1 n2 s1 s2 s3 show ?thesis
          by (simp add: hackrf_open_def opened_def confinedD)
      qed
    qed
  qed
qed

text \<open>The search for a serial number, wherever it stays inside its arrays.\<close>

definition searched :: "ptr \<Rightarrow> lib \<Rightarrow> lib \<Rightarrow> bool" where
  "searched h s s' \<longleftrightarrow> devs s' = devs s \<and> open_devices s' = open_devices s \<and> active s' \<subseteq> active s \<and>
     (if h = NULL then lib_ok s' \<and> handles s' = handles s
      else handle_ready h s' \<and> h \<notin> handles s \<and> handles s' = insert h (handles s))"

lemma searched_trans: "searched NULL s s1 \<Longrightarrow> searched h s1 s2 \<Longrightarrow> searched h s s2"
  by (auto simp: searched_def split: if_splits)

lemma searched_ok: "searched NULL s s' \<Longrightarrow> lib_ok s'"
  by (simp add: searched_def)

lemma searched_confined: "lib_ok s \<Longrightarrow> confined s s' \<Longrightarrow> searched NULL s s'"
  using lib_ok_evolves [OF _ confined_evolves] confinedD [of s s'] by (simp add: searched_def)

lemma searched_ready:
  assumes "searched h s s1" "h \<noteq> NULL" "confined s1 s2"
  shows "searched h s s2"
  using assms handle_ready_confined [of h s1 s2] confinedD [OF assms(3)] by (simp add: searched_def)

lemma searched_close:
  assumes "searched h s s1" "h \<noteq> NULL" "libusb_close H h s1 = Some (u, s2)"
  shows "searched NULL s s2"
proof -
  have "handle_ready h s1" using assms(1,2) by (simp add: searched_def)
  from close_gives_back [OF this, of H] assms(3) have "gave_back h s1 s2" by simp
  with assms(1,2) show ?thesis by (auto simp: searched_def gave_back_def)
qed

lemma read_serial_confined: "read_serial H h i buf s = Some (r, s') \<Longrightarrow> confined s s'"
  by (auto simp: read_serial_def on_handle_def bind_pair_Some Let_def split: if_splits)

lemma suffix_matches_state: "suffix_matches buf n desired s = Some (r, s') \<Longrightarrow> s' = s"
  by (auto simp: suffix_matches_def bind_pair_Some)

lemma open_handle_searched:
  assumes "lib_ok s" "libusb_open_handle H c good s = Some ((r, h), s')"
  shows "searched h s s'" "h \<noteq> NULL \<longleftrightarrow> good r"
proof -
  show "searched h s s'"
    using open_handle_outcome [OF assms(1), of H c good] assms(2)
    by (auto simp: searched_def confinedD split: if_splits)
  show "h \<noteq> NULL \<longleftrightarrow> good r"
    using assms(2) by (auto simp: libusb_open_handle_def fresh_def split: if_splits)
qed

lemma open_usb_loop_searched:
  "open_usb_loop H desired buf ds s = Some (h, s') \<Longrightarrow> lib_ok s \<Longrightarrow> searched h s s'"
proof (induction ds arbitrary: buf s)
  case Nil
  then show ?case by (simp add: searched_def)
next
  case (Cons dev ds)
  let ?r = "answer H (trace s) (Usb_get_device_descriptor dev)"
  let ?s1 = "s\<lparr>trace := trace s @ [Usb_get_device_descriptor dev]\<rparr>"
  have first: "searched NULL s ?s1" by (rule searched_confined [OF Cons.prems(2)]) simp
  note ok1 = searched_ok [OF first]
  have later: "searched h s s'" if "searched NULL ?s1 s2" "open_usb_loop H desired b ds s2 = Some (h, s')" for b s2
    using Cons.IH [OF that(2) searched_ok [OF that(1)]] that(1) first by (blast intro: searched_trans)
  have skip: "searched NULL ?s1 ?s1" using ok1 by (simp add: searched_def)
  show ?case
  proof (cases "is_hackrf (desc ?r)")
    case False
    with Cons.prems later [OF skip] show ?thesis by simp
  next
    case hackrf: True
    show ?thesis
    proof (cases desired)
      case None
      with hackrf Cons.prems obtain r where "libusb_open_handle H (Usb_open dev) (\<lambda>r. rc r = 0) ?s1 = Some ((r, h), s')"
        by (auto simp: bind_pair_Some)
      from open_handle_searched(1) [OF ok1 this] first show ?thesis by (rule searched_trans [rotated])
    next
      case (Some serial)
      show ?thesis
      proof (cases "iSerialNumber (desc ?r) > 0")
        case False
        with hackrf Some Cons.prems later [OF skip] show ?thesis by simp
      next
        case True
        with hackrf Some Cons.prems obtain ro h2 s2 where
          op: "libusb_open_handle H (Usb_open dev) (\<lambda>r. rc r = 0) ?s1 = Some ((ro, h2), s2)" and
          rest: "(if rc ro \<noteq> 0 then open_usb_loop H desired buf ds s2
                  else do { ((n, buf), s) \<leftarrow> read_serial H h2 (iSerialNumber (desc ?r)) buf s2;
                            (found, s) \<leftarrow> suffix_matches buf n serial s;
                            if found then Some (h2, s)
                            else do { (_, s) \<leftarrow> libusb_close H h2 s;
                                      open_usb_loop H desired buf ds s } }) = Some (h, s')"
          by (auto simp: bind_pair_Some)
        note se = open_handle_searched [OF ok1 op]
        show ?thesis
        proof (cases "rc ro = 0")
          case False
          with se rest later [of s2 buf] show ?thesis by simp
        next
          case True
          with rest obtain n b s3 found where s3: "read_serial H h2 (iSerialNumber (desc ?r)) buf s2 = Some ((n, b), s3)"
            and last: "(if found then Some (h2, s3)
                       else do { (_, s) \<leftarrow> libusb_close H h2 s3; open_usb_loop H desired b ds s }) = Some (h, s')"
            by (auto simp: bind_pair_Some dest!: suffix_matches_state)
          have h2: "h2 \<noteq> NULL" using se(2) True by simp
          have "searched h2 ?s1 s3"
            by (rule searched_ready [OF se(1) h2 read_serial_confined [OF s3]])
          with last later searched_close [OF this h2] searched_trans [OF first] show ?thesis
            by (auto simp: bind_pair_Some split: if_splits)
        qed
      qed
    qed
  qed
qed

lemma hackrf_open_usb_searched:
  assumes ok: "lib_ok s" and run: "hackrf_open_usb H desired s = Some (h, s')"
  shows "searched h s s'"
proof -
  let ?s1 = "s\<lparr>trace := trace s @ [Usb_get_device_list]\<rparr>"
  let ?ds = "take (nat (rc (answer H (trace s) Usb_get_device_list))) (devices (answer H (trace s) Usb_get_device_list))"
  have first: "searched NULL s ?s1" by (rule searched_confined [OF ok]) simp
  show ?thesis
  proof (cases "case desired of None \<Rightarrow> False | Some serial \<Rightarrow> length serial > 32")
    case True
    with run first show ?thesis by (auto simp: hackrf_open_usb_def bind_pair_Some)
  next
    case False
    with run obtain s2 where loop: "open_usb_loop H desired (map (stack H) [0..<64]) ?ds ?s1 = Some (h, s2)"
      and s': "s' = s2\<lparr>trace := trace s2 @ [Usb_free_device_list]\<rparr>"
      by (auto simp: hackrf_open_usb_def bind_pair_Some split: if_splits)
    have "searched h s s2"
      by (rule searched_trans [OF first open_usb_loop_searched [OF loop searched_ok [OF first]]])
    moreover have "confined s2 s'" by (simp add: s')
    ultimately show ?thesis
      using searched_ready [of h s s2 s'] searched_confined [of s2 s'] searched_trans [of s s2 h s']
      by (cases "h = NULL") (auto dest: searched_ok)
  qed
qed

lemma open_by_serial_opened:
  assumes ok: "lib_ok s" and run: "hackrf_open_by_serial H desired (Some v) s = Some ((e, out), s')"
  shows "\<exists>v'. out = Some v' \<and> opened e v v' s s'"
proof (cases desired)
  case None
  with run hackrf_open_outcome [OF ok, of H v] show ?thesis by (auto simp: hackrf_open_by_serial_def)
next
  case (Some serial)
  with run obtain h s1 where usb: "hackrf_open_usb H (Some serial) s = Some (h, s1)" and
    rest: "(if h = NULL then Some ((HACKRF_ERROR_NOT_FOUND, Some v), s1)
            else do { ((e, v), s) \<leftarrow> hackrf_open_setup H h v s1; Some ((e, Some v), s) }) = Some ((e, out), s')"
    by (auto simp: hackrf_open_by_serial_def bind_pair_Some)
  note se = hackrf_open_usb_searched [OF ok usb]
  show ?thesis
  proof (cases "h = NULL")
    case True
    with rest se show ?thesis by (auto simp: opened_def searched_def)
  next
    case False
    with rest obtain v' where "hackrf_open_setup H h v s1 = Some ((e, v'), s')" "out = Some v'"
      by (auto simp: bind_pair_Some)
    moreover have "handle_ready h s1" "h \<notin> handles s" "handles s1 = insert h (handles s)"
      "devs s1 = devs s" "open_devices s1 = open_devices s" "active s1 \<subseteq> active s"
      using se False by (simp_all add: searched_def)
    ultimately show ?thesis using opened_setup by blast
  qed
qed

section \<open>Closing a device\<close>

text \<open>The tail of \<open>hackrf_close\<close>, after the two stops.\<close>

definition after_close :: "ptr \<Rightarrow> hackrf_device \<Rightarrow> ptr list \<Rightarrow> lib \<Rightarrow> lib" where
  "after_close d dv ts s =
     s\<lparr>devs := (devs s)(d := None), xfers := xfers s |` (- set ts), handles := handles s - {usb_device dv},
       active := Set.filter (\<lambda>t. case xfers s t of None \<Rightarrow> True | Some x \<Rightarrow> x_dev_handle x \<noteq> usb_device dv) (active s),
       trace := trace s @ Usb_release_interface (usb_device dv) 0 # Usb_close (usb_device dv) # map Usb_free_transfer ts\<rparr>"

lemma close_tail_run:
  assumes ok: "lib_ok s" and dv: "devs s d = Some dv" and al: "allocated d dv ts s"
    and slots: "\<And>i. i < TRANSFER_COUNT \<Longrightarrow> slot_ok s d dv i (ts ! i)"
  shows "do { (dv, s) \<leftarrow> get_dev d s;
          (_, s) \<leftarrow> (if usb_device dv \<noteq> NULL
                    then do { (_, s) \<leftarrow> release_and_close H (usb_device dv) s;
                              mod_dev d (usb_device_update (\<lambda>_. NULL)) s }
                    else Some ((), s));
          (_, s) \<leftarrow> free_transfers H d s;
          Some ((r1, r2), s\<lparr>devs := (devs s)(d := None)\<rparr>) } = Some ((r1, r2), after_close d dv ts s)"
proof -
  have h: "usb_device dv \<in> handles s" "usb_device dv \<noteq> NULL"
    using lib_okD(1) [OF ok dv] names_okD(3) [OF lib_okD(6) [OF ok]] by (auto simp: device_ok_def)
  let ?dv = "dv\<lparr>usb_device := NULL\<rparr>"
  define s1 where "s1 = s\<lparr>devs := (devs s)(d \<mapsto> ?dv), handles := handles s - {usb_device dv},
       active := Set.filter (\<lambda>t. case xfers s t of None \<Rightarrow> True | Some x \<Rightarrow> x_dev_handle x \<noteq> usb_device dv) (active s),
       trace := trace s @ [Usb_release_interface (usb_device dv) 0, Usb_close (usb_device dv)]\<rparr>"
  have "allocated d ?dv ts s1"
    using allocatedD [OF al] by (simp add: allocated_def s1_def)
  moreover have "set ts \<inter> active s1 = {}"
  proof (rule ccontr)
    assume "set ts \<inter> active s1 \<noteq> {}"
    then obtain i where "i < length ts" "ts ! i \<in> active s1" by (auto simp: in_set_conv_nth)
    moreover from this slots allocatedD(3) [OF al] obtain x where "xfers s (ts ! i) = Some x" "x_dev_handle x = usb_device dv"
      by (auto simp: slot_ok_def)
    ultimately show False by (simp add: s1_def)
  qed
  ultimately have "free_transfers H d s1 = Some (HACKRF_SUCCESS, s1\<lparr>devs := (devs s1)(d \<mapsto> ?dv\<lparr>transfers := None\<rparr>),
      xfers := xfers s1 |` (- set ts), trace := trace s1 @ map Usb_free_transfer ts\<rparr>)"
    by (rule free_transfers_run)
  with dv h show ?thesis
    by (simp add: release_and_close_run after_close_def s1_def)
qed

lemma close_device_run:
  assumes ok: "lib_ok s" and dv: "devs s d = Some dv"
    and run: "close_device H d s = Some ((r1, r2), s')"
  shows "\<exists>s1 s2 dv2 ts. hackrf_stop_rx H d s = Some (r1, s1) \<and> hackrf_stop_tx H d s1 = Some (r2, s2) \<and>
    evolves s s2 \<and> devs s2 d = Some dv2 \<and> usb_device dv2 = usb_device dv \<and> allocated d dv ts s \<and>
    transfers dv2 = Some ts \<and> s' = after_close d dv2 ts s2"
proof -
  from run obtain s1 s2 where stop: "hackrf_stop_rx H d s = Some (r1, s1)" "hackrf_stop_tx H d s1 = Some (r2, s2)"
    and tail: "do { (dv, s) \<leftarrow> get_dev d s2;
          (_, s) \<leftarrow> (if usb_device dv \<noteq> NULL
                    then do { (_, s) \<leftarrow> release_and_close H (usb_device dv) s;
                              mod_dev d (usb_device_update (\<lambda>_. NULL)) s }
                    else Some ((), s));
          (_, s) \<leftarrow> free_transfers H d s;
          Some ((r1, r2), s\<lparr>devs := (devs s)(d := None)\<rparr>) } = Some ((r1, r2), s')"
    unfolding close_device_def by (auto simp: bind_pair_Some)
  have e1: "evolves s s1" using stop(1) by (rule stop_evolves(1) [OF lib_okD(5) [OF ok]])
  have e2: "evolves s1 s2" using stop(2) by (rule stop_evolves(2) [OF lib_okD(5) [OF lib_ok_evolves [OF ok e1]]])
  note ev = evolves_trans [OF e1 e2]
  note ok2 = lib_ok_evolves [OF ok ev]
  obtain dv2 where dv2: "devs s2 d = Some dv2" "usb_device dv2 = usb_device dv" "transfers dv2 = transfers dv"
    by (rule dev_likeD' [OF evolvesD(1) [OF ev] dv])
  obtain ts where ts: "allocated d dv2 ts s2" "\<And>i. i < TRANSFER_COUNT \<Longrightarrow> slot_ok s2 d dv2 i (ts ! i)"
    by (rule device_ok_allocated [OF ok2 dv2(1)], rule that)
  have "s' = after_close d dv2 ts s2"
    using close_tail_run [OF ok2 dv2(1) ts, of H r1 r2] tail by simp
  moreover obtain ts' where "allocated d dv ts' s"
    by (rule device_ok_allocated [OF ok dv])
  then have "allocated d dv ts s"
    using allocatedD(2) [OF ts(1)] allocatedD(2) [OF \<open>allocated d dv ts' s\<close>] dv2(3) by simp
  ultimately show ?thesis
    using stop ev dv2 allocatedD(2) [OF ts(1)] by blast
qed

section \<open>A reachable example\<close>

text \<open>The library after \<open>hackrf_open\<close> on a host that answers every call with 0.\<close>

definition opened_device :: hackrf_device where
  "opened_device = (new_device 1 (steady_reply 0))\<lparr>transfers := Some [8, 9, 10, 11]\<rparr>"

definition opened_lib :: lib where
  "opened_lib = snd (the (hackrf_open (steady_host 0) (Some 0) init_lib))"

lemma opened_lib_run:
  "\<exists>s'. hackrf_open (steady_host 0) (Some 0) init_lib = Some ((HACKRF_SUCCESS, Some 6), s') \<and>
    devs s' = [6 \<mapsto> opened_device] \<and> active s' = {} \<and> handles s' = {1}"
proof -
  have "[0..<TRANSFER_COUNT] = [0, 1, 2, 3]"
    by (simp add: TRANSFER_COUNT_def upt_rec)
  then show ?thesis
    by (simp add: hackrf_open_def open_vid_pid_def libusb_open_handle_def hackrf_open_setup_def
      set_hackrf_configuration_def detach_kernel_drivers_def attach_device_def allocate_transfers_def
      USB_CONFIG_STANDARD_def LIBUSB_SUCCESS_def libusb_alloc_transfer_def mod_xfer_def set_transfer_def
      fresh_def Let_def opened_device_def new_device_def TRANSFER_COUNT_def numeral_eq_Suc)
qed

lemma opened_lib_simps [simp]:
  "lib_ok opened_lib" "devs opened_lib = [6 \<mapsto> opened_device]" "active opened_lib = {}" "handles opened_lib = {1}"
  "usb_device opened_device = 1" "transfers opened_device = Some [8, 9, 10, 11]" "idle opened_device"
  "\<not> transfer_thread_started opened_device"
proof -
  obtain s' where "hackrf_open (steady_host 0) (Some 0) init_lib = Some ((HACKRF_SUCCESS, Some 6), s')"
    "devs s' = [6 \<mapsto> opened_device]" "active s' = {}" "handles s' = {1}"
    using opened_lib_run by blast
  moreover from this have "opened_lib = s'" by (simp add: opened_lib_def)
  ultimately show "lib_ok opened_lib" "devs opened_lib = [6 \<mapsto> opened_device]" "active opened_lib = {}"
    "handles opened_lib = {1}"
    using hackrf_open_outcome [OF lib_ok_init, of "steady_host 0" 0] by (auto simp: opened_def)
  show "usb_device opened_device = 1" "transfers opened_device = Some [8, 9, 10, 11]" "idle opened_device"
    "\<not> transfer_thread_started opened_device"
    by (simp_all add: opened_device_def new_device_def idle_def)
qed

text \<open>The same library while its device streams and no transfer is submitted.\<close>

definition streaming_device :: hackrf_device where
  "streaming_device = opened_device\<lparr>callback := 1, transfer_thread_started := True, streaming := True\<rparr>"

definition streaming_lib :: lib where
  "streaming_lib = opened_lib\<lparr>devs := [6 \<mapsto> streaming_device]\<rparr>"

lemma streaming_lib_simps [simp]:
  "lib_ok streaming_lib" "devs streaming_lib = [6 \<mapsto> streaming_device]" "active streaming_lib = {}"
  "transfer_thread_started streaming_device" "streaming streaming_device" "\<not> do_exit streaming_device"
  "usb_device streaming_device = 1"
proof -
  have "evolves opened_lib streaming_lib"
    by (rule evolvesI) (simp_all add: streaming_lib_def streaming_device_def dev_like_def)
  then show "lib_ok streaming_lib" using opened_lib_simps(1) by (rule lib_ok_evolves [rotated])
qed (use opened_lib_simps(7) in \<open>simp_all add: streaming_lib_def streaming_device_def idle_def\<close>)

end
