(* ===== verification/Streaming_Results.thy ===== *)
theory Streaming_Results
  imports Library_Invariant Scenario
begin

text \<open>
  The stream as a client sees it. Event delivery changes nothing but the flags of devices and
  the set of submitted transfers (\<open>flags_only\<close>), and it is defined as long as every device
  with a submitted transfer has a callback. From this follow the outcomes of starting, of the
  event thread and of stopping.
\<close>

section \<open>Event delivery\<close>

definition unflag :: "hackrf_device \<Rightarrow> hackrf_device" where
  "unflag dv = dv\<lparr>streaming := False, do_exit := False\<rparr>"

definition flags_like :: "hackrf_device \<Rightarrow> hackrf_device \<Rightarrow> bool" where
  "flags_like dv dv' \<longleftrightarrow> unflag dv' = unflag dv \<and> (do_exit dv \<longrightarrow> do_exit dv') \<and> (streaming dv' \<longrightarrow> streaming dv)"

definition flags_only :: "lib \<Rightarrow> lib \<Rightarrow> bool" where
  "flags_only s s' \<longleftrightarrow>
     (\<forall>d. rel_option flags_like (devs s d) (devs s' d)) \<and> xfers s' = xfers s \<and>
     active s' \<subseteq> active s \<and> (\<exists>cs. trace s' = trace s @ cs)"

definition callbacks_ok :: "lib \<Rightarrow> bool" where
  "callbacks_ok s \<longleftrightarrow>
     (\<forall>t \<in> active s. \<exists>x dv. xfers s t = Some x \<and> devs s (x_user_data x) = Some dv \<and> callback dv \<noteq> NULL)"

lemma flags_like_refl [simp]: "flags_like dv dv"
  by (simp add: flags_like_def)

lemma flags_like_trans: "flags_like a b \<Longrightarrow> flags_like b c \<Longrightarrow> flags_like a c"
  by (simp add: flags_like_def)

lemma rel_option_flags [simp]: "rel_option flags_like a a"
  by (simp add: option.rel_refl)

lemma flags_onlyI:
  assumes "\<And>d. rel_option flags_like (devs s d) (devs s' d)" "xfers s' = xfers s"
    "active s' \<subseteq> active s" "trace s' = trace s @ cs"
  shows "flags_only s s'"
  using assms by (auto simp: flags_only_def)

lemma flags_onlyD:
  assumes "flags_only s s'"
  shows "rel_option flags_like (devs s d) (devs s' d)" "xfers s' = xfers s"
    "active s' \<subseteq> active s" "\<exists>cs. trace s' = trace s @ cs"
  using assms by (simp_all add: flags_only_def)

lemma flags_only_refl [simp, intro]: "flags_only s s"
  by (rule flags_onlyI [where cs = "[]"]) simp_all

lemma flags_only_trans [trans]:
  assumes "flags_only s t" "flags_only t u"
  shows "flags_only s u"
proof -
  have "rel_option flags_like (devs s d) (devs u d)" for d
    by (rule rel_option_comp [OF flags_like_trans flags_onlyD(1) [OF assms(1)] flags_onlyD(1) [OF assms(2)]])
  moreover have "active u \<subseteq> active s"
    using flags_onlyD(3) [OF assms(1)] flags_onlyD(3) [OF assms(2)] by blast
  moreover obtain cs ds where "trace t = trace s @ cs" "trace u = trace t @ ds"
    using flags_onlyD(4) [OF assms(1)] flags_onlyD(4) [OF assms(2)] by blast
  ultimately show ?thesis
    using flags_onlyD(2) [OF assms(1)] flags_onlyD(2) [OF assms(2)]
    by (intro flags_onlyI [where cs = "cs @ ds"]) simp_all
qed

lemma flags_only_dev:
  assumes "flags_only s s'" "devs s d = Some dv"
  obtains dv' where "devs s' d = Some dv'" "flags_like dv dv'"
  using flags_onlyD(1) [OF assms(1), of d] that assms(2) by (auto simp: option_rel_Some1)

lemma flags_like_fields:
  assumes like: "flags_like dv dv'"
  shows "callback dv' = callback dv" "transfer_thread_started dv' = transfer_thread_started dv"
    "usb_device dv' = usb_device dv" "transfers dv' = transfers dv"
    "transfer_thread dv' = transfer_thread dv" "rx_ctx dv' = rx_ctx dv" "tx_ctx dv' = tx_ctx dv"
    "do_exit dv \<Longrightarrow> do_exit dv'" "streaming dv' \<Longrightarrow> streaming dv"
proof -
  have assms: "unflag dv' = unflag dv" using like by (simp add: flags_like_def)
  show "callback dv' = callback dv" "transfer_thread_started dv' = transfer_thread_started dv"
    "usb_device dv' = usb_device dv" "transfers dv' = transfers dv"
    "transfer_thread dv' = transfer_thread dv" "rx_ctx dv' = rx_ctx dv" "tx_ctx dv' = tx_ctx dv"
  using arg_cong [OF assms, of callback] arg_cong [OF assms, of transfer_thread_started]
    arg_cong [OF assms, of usb_device] arg_cong [OF assms, of transfers]
    arg_cong [OF assms, of transfer_thread] arg_cong [OF assms, of rx_ctx] arg_cong [OF assms, of tx_ctx]
  by (simp_all add: unflag_def)
  show "do_exit dv \<Longrightarrow> do_exit dv'" "streaming dv' \<Longrightarrow> streaming dv"
    using like by (simp_all add: flags_like_def)
qed

lemma callbacks_ok_flags: "callbacks_ok s \<Longrightarrow> flags_only s s' \<Longrightarrow> callbacks_ok s'"
  unfolding callbacks_ok_def
proof
  fix t
  assume cb: "\<forall>t \<in> active s. \<exists>x dv. xfers s t = Some x \<and> devs s (x_user_data x) = Some dv \<and> callback dv \<noteq> NULL"
    and fl: "flags_only s s'" and "t \<in> active s'"
  then have "t \<in> active s" using flags_onlyD(3) by blast
  with cb obtain x dv where x: "xfers s t = Some x" "devs s (x_user_data x) = Some dv" "callback dv \<noteq> NULL" by blast
  obtain dv' where dv': "devs s' (x_user_data x) = Some dv'" "flags_like dv dv'"
    by (rule flags_only_dev [OF fl x(2)])
  show "\<exists>x dv. xfers s' t = Some x \<and> devs s' (x_user_data x) = Some dv \<and> callback dv \<noteq> NULL"
    using x(1,3) dv'(1) unfolding flags_onlyD(2) [OF fl]
    by (intro exI [of _ x] exI [of _ dv']) (simp add: flags_like_fields(1) [OF dv'(2)])
qed

lemma callbacks_ok_device:
  assumes "callbacks_ok s" "devs s d = Some dv" "callback dv' = callback dv"
  shows "callbacks_ok (s\<lparr>devs := (devs s)(d \<mapsto> dv')\<rparr>)"
  using assms unfolding callbacks_ok_def by fastforce

lemma callbacks_ok_trace [simp]:
  "callbacks_ok (s\<lparr>trace := tr\<rparr>) = callbacks_ok s" "callbacks_ok (s\<lparr>last_libusb_error := e\<rparr>) = callbacks_ok s"
  by (simp_all add: callbacks_ok_def)

lemma callbacks_ok_idle [simp]: "active s = {} \<Longrightarrow> callbacks_ok s"
  by (simp add: callbacks_ok_def)

text \<open>In a well-formed state this is a property of the devices.\<close>

lemma slot_of:
  assumes ok: "lib_ok s" and d: "devs s d = Some dv" "transfers dv = Some ts" "t \<in> set ts"
  shows "\<exists>x. xfers s t = Some x \<and> x_user_data x = d"
proof -
  obtain ts' where ts': "allocated d dv ts' s" "\<And>i. i < TRANSFER_COUNT \<Longrightarrow> slot_ok s d dv i (ts' ! i)"
    by (rule device_ok_allocated [OF ok d(1)], rule that)
  then have "ts' = ts" "length ts = TRANSFER_COUNT" using allocatedD(2,3) [OF ts'(1)] d(2) by auto
  with ts'(2) d(3) show ?thesis by (auto simp: in_set_conv_nth slot_ok_def)
qed

lemma callbacks_ok_iff:
  assumes ok: "lib_ok s"
  shows "callbacks_ok s \<longleftrightarrow>
    (\<forall>d dv ts. devs s d = Some dv \<longrightarrow> transfers dv = Some ts \<longrightarrow> callback dv = NULL \<longrightarrow> set ts \<inter> active s = {})"
    (is "_ \<longleftrightarrow> ?set")
proof -
  note slot = slot_of [OF ok]
  show ?thesis
  proof
    assume cb: "callbacks_ok s"
    show ?set
    proof (intro allI impI)
      fix d dv ts assume d: "devs s d = Some dv" "transfers dv = Some ts" and null: "callback dv = NULL"
      show "set ts \<inter> active s = {}"
      proof (rule ccontr)
        assume "set ts \<inter> active s \<noteq> {}"
        then obtain t where t: "t \<in> set ts" "t \<in> active s" by blast
        with slot [OF d] cb d(1) null show False by (fastforce simp: callbacks_ok_def)
      qed
    qed
  next
    assume set: ?set
    show "callbacks_ok s"
      unfolding callbacks_ok_def
    proof
      fix t assume t: "t \<in> active s"
      then obtain d dv ts where d: "devs s d = Some dv" "transfers dv = Some ts" "t \<in> set ts"
        using subsetD [OF lib_okD(5) [OF ok] t] unfolding owned_iff by blast
      with set t have "callback dv \<noteq> NULL" by blast
      with slot [OF d] d(1) show "\<exists>x dv. xfers s t = Some x \<and> devs s (x_user_data x) = Some dv \<and> callback dv \<noteq> NULL"
        by auto
    qed
  qed
qed

lemma callbacks_okI:
  assumes "lib_ok s" "callbacks_ok s" "lib_ok s'"
    and "\<And>d dv ts. devs s' d = Some dv \<Longrightarrow> transfers dv = Some ts \<Longrightarrow> callback dv = NULL \<Longrightarrow>
      devs s d = Some dv \<and> set ts \<inter> active s' \<subseteq> active s \<or> set ts \<inter> active s' = {}"
  shows "callbacks_ok s'"
  using assms(2,4) unfolding callbacks_ok_iff [OF assms(1)] callbacks_ok_iff [OF assms(3)] by blast

lemma mod_dev_flags:
  assumes "devs s d = Some dv" "flags_like dv (f dv)"
  shows "\<exists>s'. mod_dev d f s = Some ((), s') \<and> flags_only s s' \<and> devs s' d = Some (f dv)"
  using assms by (auto intro!: flags_onlyI [where cs = "[]"])

lemma flags_like_flags [simp]:
  "flags_like dv (dv\<lparr>do_exit := True\<rparr>)" "flags_like dv (dv\<lparr>streaming := False\<rparr>)"
  by (simp_all add: flags_like_def unflag_def)

lemma deliver_runs:
  assumes cb: "callbacks_ok s"
  shows "\<exists>s'. deliver H e s = Some ((), s') \<and> flags_only s s'"
proof -
  obtain t status n where e: "e = (t, status, n)" by (cases e)
  show ?thesis
  proof (cases "t \<in> active s")
    case False
    then show ?thesis by (auto simp: deliver_def e)
  next
    case True
    then obtain x dv where x: "xfers s t = Some x" "devs s (x_user_data x) = Some dv" "callback dv \<noteq> NULL"
      using cb by (auto simp: callbacks_ok_def)
    let ?s = "s\<lparr>active := active s - {t}\<rparr>"
    have drop: "flags_only s ?s" by (rule flags_onlyI [where cs = "[]"]) auto
    have exit: "\<exists>s'. request_exit (x_user_data x) s1 = Some ((), s') \<and> flags_only s s'"
      if f: "flags_only s s1" for s1
    proof -
      obtain dv1 where dv1: "devs s1 (x_user_data x) = Some dv1"
        by (rule flags_only_dev [OF f x(2)])
      obtain s' where "mod_dev (x_user_data x) (do_exit_update (\<lambda>_. True)) s1 = Some ((), s')" "flags_only s1 s'"
        using mod_dev_flags [OF dv1, of "do_exit_update (\<lambda>_. True)"] by auto
      with f show ?thesis
        unfolding request_exit_def by (blast intro: flags_only_trans)
    qed
    show ?thesis
    proof (cases "x_callback x = No_callback")
      case True
      with \<open>t \<in> active s\<close> x drop show ?thesis by (simp add: deliver_def e Let_def)
    next
      case False
      then have run: "deliver H e s = hackrf_libusb_transfer_callback H t status n ?s"
        using \<open>t \<in> active s\<close> x by (cases "x_callback x") (simp_all add: deliver_def e Let_def)
      show ?thesis
      proof (cases "status = LIBUSB_TRANSFER_COMPLETED")
        case False
        with run exit [OF drop] x show ?thesis by (simp add: hackrf_libusb_transfer_callback_def)
      next
        case completed: True
        let ?tr = "\<lparr>t_device = x_user_data x, t_buffer = x_buffer x, t_buffer_length = x_length x,
            t_valid_length = n, t_rx_ctx = rx_ctx dv, t_tx_ctx = tx_ctx dv\<rparr>"
        let ?c = "Sample_callback (callback dv) ?tr"
        let ?sub = "Usb_submit_transfer t x"
        define s1 where "s1 = ?s\<lparr>trace := trace s @ [?c]\<rparr>"
        define s2 where "s2 = s\<lparr>active := (if rc (answer H (trace s @ [?c]) ?sub) = 0 then insert t (active s - {t}) else active s - {t}),
            trace := trace s @ [?c, ?sub]\<rparr>"
        have f1: "flags_only s s1" unfolding s1_def by (rule flags_onlyI [where cs = "[?c]"]) auto
        have f2: "flags_only s s2" using \<open>t \<in> active s\<close> unfolding s2_def
          by (intro flags_onlyI [where cs = "[?c, ?sub]"]) auto
        have "deliver H e s =
          (if rc (answer H (trace s) ?c) = 0
           then if rc (answer H (trace s @ [?c]) ?sub) < 0 then request_exit (x_user_data x) s2 else Some ((), s2)
           else request_exit (x_user_data x) s1)"
          unfolding run s1_def s2_def using completed x
          by (simp add: hackrf_libusb_transfer_callback_def libusb_submit_transfer_def Let_def)
        with exit [OF f1] exit [OF f2] f2 show ?thesis by auto
      qed
    qed
  qed
qed

lemma deliver_all_runs:
  "callbacks_ok s \<Longrightarrow> \<exists>s'. deliver_all H es s = Some ((), s') \<and> flags_only s s'"
proof (induction es arbitrary: s)
  case Nil
  then show ?case by simp
next
  case (Cons e es)
  obtain s1 where s1: "deliver H e s = Some ((), s1)" "flags_only s s1"
    using deliver_runs [OF Cons.prems] by blast
  then obtain s2 where "deliver_all H es s1 = Some ((), s2)" "flags_only s1 s2"
    using Cons.IH [OF callbacks_ok_flags [OF Cons.prems s1(2)]] by blast
  with s1 show ?case by (auto intro: flags_only_trans)
qed

lemma after_events_runs:
  assumes "devs s d = Some dv"
  shows "\<exists>s'. after_events d e s = Some ((), s') \<and> flags_only s s' \<and>
    (e \<noteq> 0 \<and> e \<noteq> LIBUSB_ERROR_INTERRUPTED \<longrightarrow> (\<exists>dv'. devs s' d = Some dv' \<and> \<not> streaming dv'))"
proof (cases "e \<noteq> 0 \<and> e \<noteq> LIBUSB_ERROR_INTERRUPTED")
  case True
  obtain s' where "mod_dev d (streaming_update (\<lambda>_. False)) s = Some ((), s')" "flags_only s s'"
    "devs s' d = Some (dv\<lparr>streaming := False\<rparr>)"
    using mod_dev_flags [OF assms, of "streaming_update (\<lambda>_. False)"] by auto
  with True show ?thesis by (simp add: after_events_def)
next
  case False
  then show ?thesis by (auto simp: after_events_def)
qed

text \<open>The events of one call: everything that \<open>libusb_handle_events\<close> and \<open>pthread_join\<close> bring.\<close>

lemma events_run:
  assumes "callbacks_ok s" "devs s d = Some dv"
  shows "\<exists>s1 s2. deliver_all H es (s\<lparr>trace := trace s @ [c]\<rparr>) = Some ((), s1) \<and>
    after_events d e s1 = Some ((), s2) \<and> flags_only s s2 \<and> (\<exists>cs. trace s2 = trace s @ c # cs) \<and>
    (e \<noteq> 0 \<and> e \<noteq> LIBUSB_ERROR_INTERRUPTED \<longrightarrow> (\<exists>dv'. devs s2 d = Some dv' \<and> \<not> streaming dv'))"
proof -
  let ?s = "s\<lparr>trace := trace s @ [c]\<rparr>"
  have f0: "flags_only s ?s" by (rule flags_onlyI [where cs = "[c]"]) auto
  obtain s1 where s1: "deliver_all H es ?s = Some ((), s1)" "flags_only ?s s1"
    using deliver_all_runs [OF callbacks_ok_flags [OF assms(1) f0]] by blast
  obtain dv1 where "devs s1 d = Some dv1"
    using flags_only_dev [OF flags_only_trans [OF f0 s1(2)] assms(2)] by blast
  from after_events_runs [OF this, of e] obtain s2 where s2: "after_events d e s1 = Some ((), s2)" "flags_only s1 s2"
    "e \<noteq> 0 \<and> e \<noteq> LIBUSB_ERROR_INTERRUPTED \<longrightarrow> (\<exists>dv'. devs s2 d = Some dv' \<and> \<not> streaming dv')" by blast
  have f2: "flags_only ?s s2" by (rule flags_only_trans [OF s1(2) s2(2)])
  then obtain cs where "trace s2 = trace s @ c # cs" using flags_onlyD(4) [OF f2] by auto
  with s1 s2 flags_only_trans [OF f0 f2] show ?thesis by blast
qed

lemma thread_pass_outcome:
  assumes "callbacks_ok s" "devs s d = Some dv"
  shows "\<exists>s'. thread_pass H d s = Some (streaming dv \<and> \<not> do_exit dv, s') \<and> flags_only s s'"
proof (cases "streaming dv \<and> \<not> do_exit dv")
  case True
  let ?r = "answer H (trace s) Usb_handle_events"
  obtain s1 s2 where "deliver_all H (completed ?r) (s\<lparr>trace := trace s @ [Usb_handle_events]\<rparr>) = Some ((), s1)"
    "after_events d (rc ?r) s1 = Some ((), s2)" "flags_only s s2"
    using events_run [OF assms, of H "completed ?r" Usb_handle_events "rc ?r"] by blast
  with True assms(2) show ?thesis by (simp add: thread_pass_def libusb_handle_events_def)
next
  case False
  with assms(2) show ?thesis by (auto simp: thread_pass_def)
qed

lemma pthread_join_runs:
  assumes "callbacks_ok s" "devs s d = Some dv"
  shows "\<exists>r s' cs. pthread_join H d th s = Some (r, s') \<and> flags_only s s' \<and> trace s' = trace s @ Pthread_join th # cs"
proof -
  let ?r = "answer H (trace s) (Pthread_join th)"
  obtain s1 s2 where "deliver_all H (completed ?r) (s\<lparr>trace := trace s @ [Pthread_join th]\<rparr>) = Some ((), s1)"
    "after_events d (val ?r) s1 = Some ((), s2)" "flags_only s s2" "\<exists>cs. trace s2 = trace s @ Pthread_join th # cs"
    using events_run [OF assms, of H "completed ?r" "Pthread_join th" "val ?r"] by blast
  then show ?thesis by (auto simp: pthread_join_def)
qed

lemma allocated_flags:
  assumes "flags_only s s'" "allocated d dv ts s"
  obtains dv' where "allocated d dv' ts s'" "flags_like dv dv'"
proof -
  note a = allocatedD [OF assms(2)]
  obtain dv' where dv': "devs s' d = Some dv'" "flags_like dv dv'"
    by (rule flags_only_dev [OF assms(1) a(1)])
  have "allocated d dv' ts s'"
    using a dv' flags_like_fields(4) [OF dv'(2)] flags_onlyD(2) [OF assms(1)] by (simp add: allocated_def)
  then show ?thesis using dv'(2) by (rule that)
qed

lemma kill_transfer_thread_outcome:
  assumes "callbacks_ok s" "allocated d dv ts s"
  shows "\<exists>r s' dv'. kill_transfer_thread H d s = Some (r, s') \<and> devs s' d = Some dv' \<and> do_exit dv' \<and>
    callbacks_ok s' \<and> r \<in> {HACKRF_SUCCESS, HACKRF_ERROR_THREAD} \<and>
    (r = HACKRF_SUCCESS \<longrightarrow> \<not> transfer_thread_started dv' \<and>
      (transfer_thread_started dv \<longrightarrow> (\<exists>cs. trace s' = trace s @ Pthread_join (transfer_thread dv) # cs @ map Usb_cancel_transfer ts))) \<and>
    (\<not> transfer_thread_started dv \<longrightarrow> r = HACKRF_SUCCESS \<and> trace s' = trace s)"
proof -
  note a = allocatedD [OF assms(2)]
  let ?dv = "dv\<lparr>do_exit := True\<rparr>"
  let ?s = "s\<lparr>devs := (devs s)(d \<mapsto> ?dv)\<rparr>"
  have f0: "flags_only s ?s" using a(1) by (intro flags_onlyI [where cs = "[]"]) auto
  show ?thesis
  proof (cases "transfer_thread_started dv")
    case False
    with a(1) callbacks_ok_flags [OF assms(1) f0] show ?thesis
      by (simp add: kill_transfer_thread_def request_exit_def)
  next
    case True
    have al0: "allocated d ?dv ts ?s" using a by (simp add: allocated_def)
    obtain e s1 cs where s1: "pthread_join H d (transfer_thread dv) ?s = Some (e, s1)" "flags_only ?s s1"
      "trace s1 = trace s @ Pthread_join (transfer_thread dv) # cs"
      using pthread_join_runs [OF callbacks_ok_flags [OF assms(1) f0], of d ?dv H "transfer_thread dv"] by auto
    obtain dv1 where dv1: "allocated d dv1 ts s1" "flags_like ?dv dv1"
      by (rule allocated_flags [OF s1(2) al0])
    have ex: "do_exit dv1" using flags_like_fields(8) [OF dv1(2)] by simp
    have cb: "callbacks_ok s1" by (rule callbacks_ok_flags [OF callbacks_ok_flags [OF assms(1) f0] s1(2)])
    show ?thesis
    proof (cases "e = 0")
      case False
      with True a(1) s1 ex cb allocatedD(1) [OF dv1(1)] show ?thesis
        by (simp add: kill_transfer_thread_def request_exit_def)
    next
      case joined: True
      let ?dv2 = "dv1\<lparr>transfer_thread_started := False\<rparr>"
      let ?s2 = "s1\<lparr>devs := (devs s1)(d \<mapsto> ?dv2)\<rparr>"
      have "allocated d ?dv2 ts ?s2" using allocatedD [OF dv1(1)] by (simp add: allocated_def)
      moreover have "callbacks_ok ?s2" using cb allocatedD(1) [OF dv1(1)] by (rule callbacks_ok_device) simp
      ultimately show ?thesis
        using cancel_transfers_run [of d ?dv2 ts ?s2 H] joined True a(1) s1 ex allocatedD(1) [OF dv1(1)]
        by (simp add: kill_transfer_thread_def request_exit_def)
    qed
  qed
qed

section \<open>Status\<close>

text \<open>
  \<open>hackrf_is_streaming\<close> reports \<open>HACKRF_TRUE\<close> exactly while the event thread is
  started, the stream is up and no exit has been requested; otherwise it names the first of
  these that fails, in this order, and it never changes the state.
\<close>

theorem is_streaming_reports:
  assumes "devs s d = Some dv"
  shows "\<exists>r. hackrf_is_streaming d s = Some (r, s) \<and>
    (r = HACKRF_TRUE \<longleftrightarrow> transfer_thread_started dv \<and> streaming dv \<and> \<not> do_exit dv) \<and>
    (r = HACKRF_ERROR_STREAMING_THREAD_ERR \<longleftrightarrow> \<not> transfer_thread_started dv) \<and>
    (r = HACKRF_ERROR_STREAMING_STOPPED \<longleftrightarrow> transfer_thread_started dv \<and> \<not> streaming dv) \<and>
    (r = HACKRF_ERROR_STREAMING_EXIT_CALLED \<longleftrightarrow> transfer_thread_started dv \<and> streaming dv \<and> do_exit dv)"
  using assms by (simp add: hackrf_is_streaming_def)

theorem is_streaming_reports_witness:
  "\<exists>r. hackrf_is_streaming 9 sample_lib = Some (r, sample_lib) \<and> r = HACKRF_ERROR_STREAMING_THREAD_ERR"
  using is_streaming_reports [of sample_lib 9 sample_device] by (auto simp: sample_device_def)

section \<open>The callback\<close>

definition client_call :: "ptr \<Rightarrow> hackrf_device \<Rightarrow> usb_transfer \<Rightarrow> int \<Rightarrow> call" where
  "client_call d dv x n = Sample_callback (callback dv)
     \<lparr>t_device = d, t_buffer = x_buffer x, t_buffer_length = x_length x, t_valid_length = n,
      t_rx_ctx = rx_ctx dv, t_tx_ctx = tx_ctx dv\<rparr>"

text \<open>
  C26. When a submitted transfer of a device with a callback finishes, it is submitted again
  exactly if it completed, the client's callback returned zero and libusb took it back; unless
  libusb took it back, the device is told to exit. The client is called only for completed
  transfers, with the device's part of the sample memory and the actual length.
\<close>

theorem callback_resubmits_or_exits:
  assumes "xfers s t = Some x" "x_user_data x = d" "devs s d = Some dv" "callback dv \<noteq> NULL" "t \<notin> active s"
    and "\<And>tr. rc (answer H tr (Usb_submit_transfer t x)) \<le> 0"
  shows "\<exists>s' dv'. hackrf_libusb_transfer_callback H t status n s = Some ((), s') \<and> devs s' d = Some dv' \<and>
    (t \<in> active s' \<longleftrightarrow> status = LIBUSB_TRANSFER_COMPLETED \<and> rc (answer H (trace s) (client_call d dv x n)) = 0 \<and>
       rc (answer H (trace s @ [client_call d dv x n]) (Usb_submit_transfer t x)) = 0) \<and>
    (do_exit dv' \<longleftrightarrow> do_exit dv \<or> t \<notin> active s') \<and>
    trace s' = trace s @ (if status \<noteq> LIBUSB_TRANSFER_COMPLETED then []
      else if rc (answer H (trace s) (client_call d dv x n)) = 0
      then [client_call d dv x n, Usb_submit_transfer t x] else [client_call d dv x n])"
proof -
  define c where "c = client_call d dv x n"
  define sub where "sub = Usb_submit_transfer t x"
  have run: "hackrf_libusb_transfer_callback H t status n s =
    (if status = LIBUSB_TRANSFER_COMPLETED
     then if rc (answer H (trace s) c) = 0
          then if rc (answer H (trace s @ [c]) sub) = 0
               then Some ((), s\<lparr>active := insert t (active s), trace := trace s @ [c, sub]\<rparr>)
               else request_exit d (s\<lparr>trace := trace s @ [c, sub]\<rparr>)
          else request_exit d (s\<lparr>trace := trace s @ [c]\<rparr>)
     else request_exit d s)"
    using assms(1-4) assms(6) [of "trace s @ [c]"]
    by (auto simp: hackrf_libusb_transfer_callback_def libusb_submit_transfer_def client_call_def Let_def c_def sub_def)
  show ?thesis
    unfolding run c_def [symmetric] sub_def [symmetric]
    using assms(3,5) by (simp add: request_exit_def)
qed

theorem callback_resubmits_or_exits_witness:
  "\<exists>s' dv'. hackrf_libusb_transfer_callback (steady_host 0) 2 0 512
      (sample_lib\<lparr>devs := [9 \<mapsto> sample_device\<lparr>callback := 1\<rparr>]\<rparr>) = Some ((), s') \<and>
    devs s' 9 = Some dv' \<and> 2 \<in> active s' \<and> \<not> do_exit dv'"
  using callback_resubmits_or_exits [of "sample_lib\<lparr>devs := [9 \<mapsto> sample_device\<lparr>callback := 1\<rparr>]\<rparr>" 2 sample_transfer 9
      "sample_device\<lparr>callback := 1\<rparr>" "steady_host 0" 0 512]
  by (auto simp: LIBUSB_TRANSFER_COMPLETED_def)

section \<open>Starting\<close>

lemma mode_request_run:
  assumes "devs s d = Some dv" "usb_device dv \<in> handles s"
  shows "hackrf_set_transceiver_mode H d m s =
    (let c = Usb_control (usb_device dv) VENDOR_OUT 1 (mode_code m) 0 [] 0; e = rc (answer H (trace s) c)
     in if e \<noteq> 0 then Some (HACKRF_ERROR_LIBUSB, s\<lparr>last_libusb_error := e, trace := trace s @ [c]\<rparr>)
        else Some (HACKRF_SUCCESS, s\<lparr>trace := trace s @ [c]\<rparr>))"
  using assms by (simp add: hackrf_set_transceiver_mode_def fail_libusb_def Let_def)

text \<open>A host on which no submission fails.\<close>

definition accepting :: "host \<Rightarrow> bool" where
  "accepting H \<longleftrightarrow> (\<forall>tr t x. rc (answer H tr (Usb_submit_transfer t x)) = 0)"

lemma prepare_loop_accepted:
  "accepting H \<Longrightarrow> prepare_loop H d ep cb is s = Some (r, s') \<Longrightarrow> r = HACKRF_SUCCESS"
  by (induction "is" arbitrary: s)
    (auto simp: accepting_def bind_pair_Some bind_eq_Some_conv libusb_submit_transfer_def split: if_splits option.splits)

lemma create_transfer_thread_outcome:
  assumes al: "allocated d dv ts s" and idle: "\<not> transfer_thread_started dv"
  shows "\<exists>r s' dv'. create_transfer_thread H d ep cb s = Some (r, s') \<and> devs s' d = Some dv' \<and>
    rx_ctx dv' = rx_ctx dv \<and> tx_ctx dv' = tx_ctx dv \<and> (accepting H \<longrightarrow> callback dv' = cb) \<and>
    (\<forall>d'. d' \<noteq> d \<longrightarrow> devs s' d' = devs s d') \<and> active s' \<subseteq> active s \<union> set ts \<and>
    (if r = HACKRF_SUCCESS
     then transfer_thread_started dv' \<and> streaming dv' \<and> \<not> do_exit dv' \<and> callback dv' = cb \<and> set ts \<subseteq> active s' \<and>
       trace s' = trace s @ map (submission ep Hackrf_libusb_transfer_callback (xfers s)) ts @ [Pthread_create d]
     else \<not> transfer_thread_started dv' \<and> r \<in> {HACKRF_ERROR_LIBUSB, HACKRF_ERROR_THREAD})"
proof -
  note a = allocatedD [OF al]
  define dv1 where "dv1 = dv\<lparr>streaming := False, do_exit := False\<rparr>"
  define s1 where "s1 = s\<lparr>devs := (devs s)(d \<mapsto> dv1)\<rparr>"
  have "allocated d dv1 ts s1" using a by (simp add: allocated_def s1_def dv1_def)
  from prepare_transfers_outcome [OF this, of H ep Hackrf_libusb_transfer_callback]
  obtain r e k m where prep: "prepare_transfers H d ep Hackrf_libusb_transfer_callback s1 = Some (r, s1\<lparr>last_libusb_error := e,
        xfers := arm ep Hackrf_libusb_transfer_callback (set (take k ts)) (xfers s1),
        active := active s1 \<union> set (take m ts),
        trace := trace s1 @ map (submission ep Hackrf_libusb_transfer_callback (xfers s1)) (take k ts)\<rparr>)" (is "_ = Some (r, ?s2)")
    and r: "r = HACKRF_SUCCESS \<and> k = TRANSFER_COUNT \<and> m = TRANSFER_COUNT \<or> r = HACKRF_ERROR_LIBUSB"
    by blast
  have acc: "r = HACKRF_SUCCESS" if "accepting H"
    using prep prepare_loop_accepted [OF that] a(1,2) by (auto simp: prepare_transfers_def s1_def dv1_def)
  have sub: "set (take m ts) \<subseteq> set ts" by (rule set_take_subset)
  have run: "create_transfer_thread H d ep cb s =
    (if r \<noteq> HACKRF_SUCCESS then Some (r, ?s2)
     else do { (_, s) \<leftarrow> mod_dev d (\<lambda>dv. dv\<lparr>callback := cb, streaming := True\<rparr>) ?s2;
               let thread = fresh s;
               (a, s) \<leftarrow> invoke H (Pthread_create d) s;
               if rc a = 0
               then do { (_, s) \<leftarrow> mod_dev d (\<lambda>dv. dv\<lparr>transfer_thread_started := True, transfer_thread := thread\<rparr>) s;
                         Some (HACKRF_SUCCESS, s) }
               else Some (HACKRF_ERROR_THREAD, s) })"
    using a(1) idle prep by (simp add: create_transfer_thread_def s1_def dv1_def)
  show ?thesis
  proof (cases "r = HACKRF_SUCCESS")
    case False
    with r run idle acc sub show ?thesis by (auto simp: s1_def dv1_def)
  next
    case True
    with r a(3) show ?thesis
      unfolding run by (auto simp: s1_def dv1_def Let_def idle)
  qed
qed

text \<open>The part that \<open>hackrf_start_rx\<close> and \<open>hackrf_start_tx\<close> share.\<close>

definition start_stream :: "host \<Rightarrow> ptr \<Rightarrow> hackrf_transceiver_mode \<Rightarrow> (hackrf_device \<Rightarrow> hackrf_device) \<Rightarrow> u8 \<Rightarrow> ptr
    \<Rightarrow> lib \<Rightarrow> (hackrf_error \<times> lib) option" where
  "start_stream H d m ctx endpoint cb s =
     do { (result, s) \<leftarrow> hackrf_set_transceiver_mode H d m s;
          if result = HACKRF_SUCCESS
          then do { (_, s) \<leftarrow> mod_dev d ctx s; create_transfer_thread H d endpoint cb s }
          else Some (result, s) }"

lemma start_streams:
  "hackrf_start_rx H d cb ctx s = start_stream H d HACKRF_TRANSCEIVER_MODE_RECEIVE (rx_ctx_update (\<lambda>_. ctx)) 0x81 cb s"
  "hackrf_start_tx H d cb ctx s = start_stream H d HACKRF_TRANSCEIVER_MODE_TRANSMIT (tx_ctx_update (\<lambda>_. ctx)) 0x02 cb s"
  by (simp_all add: hackrf_start_rx_def hackrf_start_tx_def start_stream_def)

lemma start_stream_runs:
  assumes ok: "lib_ok s" and dv: "devs s d = Some dv" "\<not> transfer_thread_started dv"
    and f: "transfers (f dv) = transfers dv" "\<not> transfer_thread_started (f dv)"
  shows "\<exists>r s' dv'. start_stream H d m f ep cb s = Some (r, s') \<and> devs s' d = Some dv' \<and>
    (\<forall>d'. d' \<noteq> d \<longrightarrow> devs s' d' = devs s d') \<and> active s' \<subseteq> active s \<union> {t. \<exists>ts. transfers dv = Some ts \<and> t \<in> set ts} \<and>
    (accepting H \<longrightarrow> callback dv' = cb \<or> devs s' = devs s \<and> active s' = active s) \<and>
    (if r = HACKRF_SUCCESS
     then hackrf_is_streaming d s' = Some (HACKRF_TRUE, s') \<and> callback dv' = cb \<and>
       rx_ctx dv' = rx_ctx (f dv) \<and> tx_ctx dv' = tx_ctx (f dv) \<and>
       (\<exists>ts. transfers dv = Some ts \<and> set ts \<subseteq> active s' \<and>
         trace s' = trace s @ Usb_control (usb_device dv) VENDOR_OUT 1 (mode_code m) 0 [] 0
           # map (submission ep Hackrf_libusb_transfer_callback (xfers s)) ts @ [Pthread_create d])
     else \<not> transfer_thread_started dv' \<and> r \<in> {HACKRF_ERROR_LIBUSB, HACKRF_ERROR_THREAD})"
proof -
  have h: "usb_device dv \<in> handles s" using lib_okD(1) [OF ok dv(1)] by (simp add: device_ok_def)
  obtain ts where al: "allocated d dv ts s" "\<And>i. i < TRANSFER_COUNT \<Longrightarrow> slot_ok s d dv i (ts ! i)"
    by (rule device_ok_allocated [OF ok dv(1)], rule that)
  note a = allocatedD [OF al(1)]
  let ?c = "Usb_control (usb_device dv) VENDOR_OUT 1 (mode_code m) 0 [] 0"
  let ?e = "rc (answer H (trace s) ?c)"
  define s1 where "s1 = s\<lparr>devs := (devs s)(d \<mapsto> f dv), trace := trace s @ [?c]\<rparr>"
  have run: "start_stream H d m f ep cb s =
    (if ?e \<noteq> 0 then Some (HACKRF_ERROR_LIBUSB, s\<lparr>last_libusb_error := ?e, trace := trace s @ [?c]\<rparr>)
     else create_transfer_thread H d ep cb s1)"
    using dv(1) h by (simp add: start_stream_def mode_request_run Let_def s1_def)
  have "allocated d (f dv) ts s1" using a f(1) by (simp add: allocated_def s1_def)
  from create_transfer_thread_outcome [OF this f(2), of H ep cb]
  obtain r s2 dv2 where create: "create_transfer_thread H d ep cb s1 = Some (r, s2)" "devs s2 d = Some dv2"
    "rx_ctx dv2 = rx_ctx (f dv)" "tx_ctx dv2 = tx_ctx (f dv)" "accepting H \<longrightarrow> callback dv2 = cb"
    "\<forall>d'. d' \<noteq> d \<longrightarrow> devs s2 d' = devs s1 d'" "active s2 \<subseteq> active s1 \<union> set ts"
    "if r = HACKRF_SUCCESS
     then transfer_thread_started dv2 \<and> streaming dv2 \<and> \<not> do_exit dv2 \<and> callback dv2 = cb \<and> set ts \<subseteq> active s2 \<and>
       trace s2 = trace s1 @ map (submission ep Hackrf_libusb_transfer_callback (xfers s1)) ts @ [Pthread_create d]
     else \<not> transfer_thread_started dv2 \<and> r \<in> {HACKRF_ERROR_LIBUSB, HACKRF_ERROR_THREAD}"
    by fastforce
  show ?thesis
  proof (cases "?e = 0")
    case False
    with dv show ?thesis by (simp add: run)
  next
    case True
    with create a(2) show ?thesis
      by (intro exI [of _ r] exI [of _ s2] exI [of _ dv2])
        (auto simp: run hackrf_is_streaming_def s1_def split: if_splits)
  qed
qed

text \<open>
  C8. In a well-formed state a successful \<open>hackrf_start_rx\<close> on a device whose thread is not
  started has switched the transceiver to receive, submitted each of the four transfers once,
  in order, on endpoint 0x81 with the library's callback, and created the event thread: the
  stream is up, with the client's callback and context. A failing one leaves the thread not
  started; the state is well-formed in both cases.
\<close>

theorem start_rx_outcome:
  assumes "lib_ok s" "devs s d = Some dv" "\<not> transfer_thread_started dv"
  shows "\<exists>r s' dv'. hackrf_start_rx H d cb ctx s = Some (r, s') \<and> lib_ok s' \<and> devs s' d = Some dv' \<and>
    (if r = HACKRF_SUCCESS
     then hackrf_is_streaming d s' = Some (HACKRF_TRUE, s') \<and> callback dv' = cb \<and> rx_ctx dv' = ctx \<and>
       (\<exists>ts. transfers dv = Some ts \<and> set ts \<subseteq> active s' \<and>
         trace s' = trace s @ Usb_control (usb_device dv) VENDOR_OUT 1 1 0 [] 0
           # map (submission 0x81 Hackrf_libusb_transfer_callback (xfers s)) ts @ [Pthread_create d])
     else \<not> transfer_thread_started dv' \<and> r \<in> {HACKRF_ERROR_LIBUSB, HACKRF_ERROR_THREAD})"
proof -
  from start_stream_runs [OF assms, of "rx_ctx_update (\<lambda>_. ctx)" H HACKRF_TRANSCEIVER_MODE_RECEIVE "0x81" cb] assms(3)
  obtain r s' dv' where run: "hackrf_start_rx H d cb ctx s = Some (r, s')" "devs s' d = Some dv'"
    "if r = HACKRF_SUCCESS
     then hackrf_is_streaming d s' = Some (HACKRF_TRUE, s') \<and> callback dv' = cb \<and> rx_ctx dv' = ctx \<and>
       (\<exists>ts. transfers dv = Some ts \<and> set ts \<subseteq> active s' \<and>
         trace s' = trace s @ Usb_control (usb_device dv) VENDOR_OUT 1 1 0 [] 0
           # map (submission 0x81 Hackrf_libusb_transfer_callback (xfers s)) ts @ [Pthread_create d])
     else \<not> transfer_thread_started dv' \<and> r \<in> {HACKRF_ERROR_LIBUSB, HACKRF_ERROR_THREAD}"
    by (fastforce simp: start_streams split: if_splits)
  then show ?thesis
    using lib_ok_evolves [OF assms(1) start_evolves(1) [OF run(1)]] by blast
qed

theorem start_rx_outcome_witness:
  "\<exists>r s' dv'. hackrf_start_rx (steady_host 0) 6 1 42 opened_lib = Some (r, s') \<and> lib_ok s' \<and> devs s' 6 = Some dv' \<and>
    (r = HACKRF_SUCCESS \<longrightarrow> callback dv' = 1 \<and> rx_ctx dv' = 42 \<and> {8, 9, 10, 11} \<subseteq> active s')"
  using start_rx_outcome [of opened_lib 6 opened_device "steady_host 0" 1 42] by fastforce

text \<open>
  \<open>hackrf_start_rx\<close> on a device that is already streaming fails as busy, but not without
  effect: the running stream's context has been replaced by the argument, and the device has
  been told to receive.
\<close>

theorem start_rx_busy_replaces_context:
  assumes "devs s d = Some dv" "usb_device dv \<in> handles s" "transfer_thread_started dv"
    and "rc (answer H (trace s) (Usb_control (usb_device dv) VENDOR_OUT 1 1 0 [] 0)) = 0"
  shows "\<exists>s'. hackrf_start_rx H d cb ctx s = Some (HACKRF_ERROR_BUSY, s') \<and>
    devs s' d = Some (dv\<lparr>rx_ctx := ctx\<rparr>) \<and>
    trace s' = trace s @ [Usb_control (usb_device dv) VENDOR_OUT 1 1 0 [] 0]"
  using assms by (simp add: hackrf_start_rx_def create_transfer_thread_def mode_request_run Let_def)

theorem start_rx_busy_replaces_context_witness:
  "\<exists>s'. hackrf_start_rx (steady_host 0) 9 1 42
      (sample_lib\<lparr>devs := [9 \<mapsto> sample_device\<lparr>transfer_thread_started := True\<rparr>]\<rparr>) = Some (HACKRF_ERROR_BUSY, s') \<and>
    devs s' 9 = Some (sample_device\<lparr>transfer_thread_started := True, rx_ctx := 42\<rparr>)"
  using start_rx_busy_replaces_context [of "sample_lib\<lparr>devs := [9 \<mapsto> sample_device\<lparr>transfer_thread_started := True\<rparr>]\<rparr>" 9
      "sample_device\<lparr>transfer_thread_started := True\<rparr>" "steady_host 0" 1 42] by auto

text \<open>
  C40. A \<open>hackrf_start_rx\<close> on a freshly opened device that fails at its second submission
  leaves the first transfer submitted while the device still has no callback: if any event
  thread of the library then handles the completion of that transfer, a null pointer is called.
\<close>

theorem failed_start_calls_null:
  assumes "lib_ok s" "devs s d = Some dv" "idle dv" "transfers dv = Some ts"
    and "\<And>tr. rc (answer H tr (Usb_control (usb_device dv) VENDOR_OUT 1 1 0 [] 0)) = 0"
    and "\<And>tr x. rc (answer H tr (Usb_submit_transfer (ts ! 0) x)) = 0"
    and "\<And>tr x. rc (answer H tr (Usb_submit_transfer (ts ! 1) x)) \<noteq> 0"
  shows "\<exists>s'. hackrf_start_rx H d cb ctx s = Some (HACKRF_ERROR_LIBUSB, s') \<and>
    deliver H (ts ! 0, LIBUSB_TRANSFER_COMPLETED, n) s' = None"
proof -
  have h: "usb_device dv \<in> handles s" using lib_okD(1) [OF assms(1,2)] by (simp add: device_ok_def)
  obtain ts' where al: "allocated d dv ts' s" "\<And>i. i < TRANSFER_COUNT \<Longrightarrow> slot_ok s d dv i (ts' ! i)"
    by (rule device_ok_allocated [OF assms(1,2)], rule that)
  then have ts: "ts' = ts" "length ts = 4" "distinct ts"
    using allocatedD(2,3,4) [OF al(1)] assms(4) by (auto simp: TRANSFER_COUNT_def)
  obtain x0 where x0: "xfers s (ts ! 0) = Some x0" "x_user_data x0 = d"
    using al(2) [of 0] by (auto simp: slot_ok_def ts TRANSFER_COUNT_def)
  obtain x1 where x1: "xfers s (ts ! 1) = Some x1"
    using al(2) [of 1] by (auto simp: slot_ok_def ts TRANSFER_COUNT_def)
  have ne: "ts ! 0 \<noteq> ts ! 1" using ts(2,3) by (simp add: distinct_conv_nth)
  have upt: "[0..<TRANSFER_COUNT] = [0, 1, 2, 3]" by (simp add: TRANSFER_COUNT_def upt_rec)
  note idle = assms(3) [unfolded idle_def]
  show ?thesis
    using assms(2,4-7) h x0 x1 ne ts(2) idle
    by (simp add: hackrf_start_rx_def mode_request_run Let_def create_transfer_thread_def prepare_transfers_def
        upt prepare_loop_step deliver_def armed_def hackrf_libusb_transfer_callback_def get_dev_cases
        del: prepare_loop.simps)
qed

definition flaky_host :: host where
  "flaky_host = (steady_host 0)\<lparr>answer := \<lambda>_ c. case c of
     Usb_submit_transfer t x \<Rightarrow> steady_reply (if t = 9 then -1 else 0) | _ \<Rightarrow> steady_reply 0\<rparr>"

theorem failed_start_calls_null_witness:
  "\<exists>s'. hackrf_start_rx flaky_host 6 1 0 opened_lib = Some (HACKRF_ERROR_LIBUSB, s') \<and>
    deliver flaky_host (8, LIBUSB_TRANSFER_COMPLETED, 512) s' = None"
  using failed_start_calls_null [of opened_lib 6 opened_device "[8, 9, 10, 11]" flaky_host 1 0 512]
  by (simp add: flaky_host_def)

section \<open>Stopping\<close>

lemma stop_tx_is_stop_rx: "hackrf_stop_tx = hackrf_stop_rx"
  by (simp add: fun_eq_iff hackrf_stop_tx_def hackrf_stop_rx_def)

lemma stop_rx_runs:
  assumes "lib_ok s" "callbacks_ok s" "devs s d = Some dv"
  shows "\<exists>r s' dv'. hackrf_stop_rx H d s = Some (r, s') \<and> lib_ok s' \<and> callbacks_ok s' \<and>
    devs s' d = Some dv' \<and>
    (r = HACKRF_SUCCESS \<longrightarrow> do_exit dv' \<and> \<not> transfer_thread_started dv' \<and>
      hackrf_is_streaming d s' = Some (HACKRF_ERROR_STREAMING_THREAD_ERR, s') \<and>
      (transfer_thread_started dv \<longrightarrow> (\<exists>ts cs. transfers dv = Some ts \<and>
         trace s' = trace s @ Usb_control (usb_device dv) VENDOR_OUT 1 0 0 [] 0
           # Pthread_join (transfer_thread dv) # cs @ map Usb_cancel_transfer ts)))"
proof -
  have h: "usb_device dv \<in> handles s" using lib_okD(1) [OF assms(1,3)] by (simp add: device_ok_def)
  obtain ts where al: "allocated d dv ts s" "\<And>i. i < TRANSFER_COUNT \<Longrightarrow> slot_ok s d dv i (ts ! i)"
    by (rule device_ok_allocated [OF assms(1,3)], rule that)
  let ?c = "Usb_control (usb_device dv) VENDOR_OUT 1 0 0 [] 0"
  let ?e = "rc (answer H (trace s) ?c)"
  let ?s1 = "s\<lparr>trace := trace s @ [?c]\<rparr>"
  have run: "hackrf_stop_rx H d s =
    (if ?e \<noteq> 0 then Some (HACKRF_ERROR_LIBUSB, s\<lparr>last_libusb_error := ?e, trace := trace s @ [?c]\<rparr>)
     else kill_transfer_thread H d ?s1)"
    using assms(3) h by (simp add: hackrf_stop_rx_def mode_request_run Let_def)
  show ?thesis
  proof (cases "?e = 0")
    case False
    then have some: "hackrf_stop_rx H d s =
        Some (HACKRF_ERROR_LIBUSB, s\<lparr>last_libusb_error := ?e, trace := trace s @ [?c]\<rparr>)" by (simp add: run)
    have "lib_ok (s\<lparr>last_libusb_error := ?e, trace := trace s @ [?c]\<rparr>)"
      by (rule lib_ok_evolves [OF assms(1) confined_evolves]) simp
    with some assms(2,3) show ?thesis by simp
  next
    case True
    have "callbacks_ok ?s1" using assms(2) by (simp add: callbacks_ok_def)
    moreover have "allocated d dv ts ?s1" using al(1) by (simp add: allocated_def)
    ultimately obtain r s' dv' where kill: "kill_transfer_thread H d ?s1 = Some (r, s')" "devs s' d = Some dv'" "do_exit dv'" "callbacks_ok s'"
      "r = HACKRF_SUCCESS \<longrightarrow> \<not> transfer_thread_started dv' \<and>
        (transfer_thread_started dv \<longrightarrow> (\<exists>cs. trace s' = trace ?s1 @ Pthread_join (transfer_thread dv) # cs @ map Usb_cancel_transfer ts))"
      using kill_transfer_thread_outcome [of ?s1 d dv ts H] by blast
    have some: "hackrf_stop_rx H d s = Some (r, s')" using True kill(1) by (simp add: run)
    have "lib_ok s'"
      by (rule lib_ok_evolves [OF assms(1) stop_evolves(1) [OF lib_okD(5) [OF assms(1)] some]])
    with some kill(2-5) allocatedD(2) [OF al(1)] show ?thesis
      by (intro exI [of _ r] exI [of _ s'] exI [of _ dv'])
        (auto simp: hackrf_is_streaming_def)
  qed
qed

text \<open>
  C7. In a well-formed state where every device with a submitted transfer has a callback,
  \<open>hackrf_stop_rx\<close> (and \<open>hackrf_stop_tx\<close>, which is the same code) is defined and keeps
  the state well-formed. When it succeeds the device is off, told to exit and without a thread;
  a thread that was started has been waited for, and after that all four transfers have been
  cancelled, in order.
\<close>

theorem stop_outcome:
  assumes "lib_ok s" "callbacks_ok s" "devs s d = Some dv"
  shows "\<exists>r s' dv'. hackrf_stop_rx H d s = Some (r, s') \<and> hackrf_stop_tx H d s = Some (r, s') \<and> lib_ok s' \<and>
    devs s' d = Some dv' \<and>
    (r = HACKRF_SUCCESS \<longrightarrow> do_exit dv' \<and> \<not> transfer_thread_started dv' \<and>
      hackrf_is_streaming d s' = Some (HACKRF_ERROR_STREAMING_THREAD_ERR, s') \<and>
      (transfer_thread_started dv \<longrightarrow> (\<exists>ts cs. transfers dv = Some ts \<and>
         trace s' = trace s @ Usb_control (usb_device dv) VENDOR_OUT 1 0 0 [] 0
           # Pthread_join (transfer_thread dv) # cs @ map Usb_cancel_transfer ts)))"
  using stop_rx_runs [OF assms, of H] unfolding stop_tx_is_stop_rx by blast

theorem stop_outcome_witness:
  "\<exists>r s' dv'. hackrf_stop_rx (steady_host 0) 6 streaming_lib = Some (r, s') \<and> devs s' 6 = Some dv' \<and>
    (r = HACKRF_SUCCESS \<longrightarrow> \<not> transfer_thread_started dv')"
  using stop_outcome [of streaming_lib 6 streaming_device "steady_host 0"] by fastforce

section \<open>The end of the event thread\<close>

text \<open>
  When a call for events fails with anything but an interruption, the event thread does not
  go on: it returns after that pass, and the stream is reported as stopped.
\<close>

theorem event_error_ends_thread:
  assumes "callbacks_ok s" "devs s d = Some dv" "streaming dv" "\<not> do_exit dv" "transfer_thread_started dv"
    and "rc (answer H (trace s) Usb_handle_events) \<notin> {0, LIBUSB_ERROR_INTERRUPTED}"
  shows "\<exists>s'. transfer_threadproc H d s = Some ((), s') \<and>
    hackrf_is_streaming d s' = Some (HACKRF_ERROR_STREAMING_STOPPED, s')"
proof -
  let ?r = "answer H (trace s) Usb_handle_events"
  obtain s1 s2 dv2 where ev: "deliver_all H (completed ?r) (s\<lparr>trace := trace s @ [Usb_handle_events]\<rparr>) = Some ((), s1)"
    "after_events d (rc ?r) s1 = Some ((), s2)" "flags_only s s2" "devs s2 d = Some dv2" "\<not> streaming dv2"
    using events_run [OF assms(1,2), of H "completed ?r" Usb_handle_events "rc ?r"] assms(6) by auto
  have "transfer_thread_started dv2"
    using flags_only_dev [OF ev(3) assms(2)] flags_like_fields(2) ev(4) assms(5) by (metis option.inject)
  then have "hackrf_is_streaming d s2 = Some (HACKRF_ERROR_STREAMING_STOPPED, s2)"
    using ev(4,5) by (simp add: hackrf_is_streaming_def)
  moreover have "thread_pass H d s = Some (True, s2)"
    using ev assms(2-4) by (simp add: thread_pass_def libusb_handle_events_def)
  moreover have "thread_pass H d s2 = Some (False, s2)"
    using ev(4,5) by (simp add: thread_pass_def)
  then have "transfer_threadproc H d s2 = Some ((), s2)"
    by (subst transfer_threadproc.simps) simp
  ultimately show ?thesis
    by (intro exI [of _ s2]) (subst transfer_threadproc.simps, simp)
qed

theorem event_error_ends_thread_witness:
  "\<exists>s'. transfer_threadproc (steady_host (-1)) 6 streaming_lib = Some ((), s') \<and>
    hackrf_is_streaming 6 s' = Some (HACKRF_ERROR_STREAMING_STOPPED, s')"
  using event_error_ends_thread [of streaming_lib 6 streaming_device "steady_host (-1)"]
  by (simp add: LIBUSB_ERROR_INTERRUPTED_def)

end
