(* ===== verification/Lifecycle_Results.thy ===== *)
theory Lifecycle_Results
  imports Streaming_Results
begin

text \<open>
  The life cycle of devices as a client sees it: what opening acquires, what a failed opening
  and closing give back, when \<open>hackrf_exit\<close> lets the library go, and what closing does to a
  stream that could not be stopped.
\<close>

lemma after_close_fields:
  "devs (after_close d dv ts s) = (devs s)(d := None)"
  "xfers (after_close d dv ts s) = xfers s |` (- set ts)"
  "handles (after_close d dv ts s) = handles s - {usb_device dv}"
  "open_devices (after_close d dv ts s) = open_devices s"
  "trace (after_close d dv ts s) = trace s @ Usb_release_interface (usb_device dv) 0
     # Usb_close (usb_device dv) # map Usb_free_transfer ts"
  "g_libusb_context (after_close d dv ts s) = g_libusb_context s"
  "active (after_close d dv ts s) =
     {t \<in> active s. case xfers s t of None \<Rightarrow> True | Some x \<Rightarrow> x_dev_handle x \<noteq> usb_device dv}"
  by (simp_all add: after_close_def)

lemma lib_ok_after_close:
  assumes ok: "lib_ok s" and dv: "devs s d = Some dv" "allocated d dv ts s"
    and s': "s' = (after_close d dv ts s)\<lparr>open_devices := open_devices s - 1\<rparr>"
  shows "lib_ok s'"
proof (rule lib_okI)
  note F = after_close_fields [of d dv ts s]
  have devs': "devs s' = (devs s)(d := None)" by (simp add: s' F)
  have other: "devs s d' = Some dv'" "d' \<noteq> d" "usb_device dv' \<noteq> usb_device dv"
    if "devs s' d' = Some dv'" for d' dv'
    using that lib_okD(2) [OF ok, of d' dv' d dv] dv by (auto simp: devs' split: if_splits)
  show "finite (dom (devs s'))" using lib_okD(3) [OF ok] by (simp add: devs')
  have "Suc (card (dom (devs s) - {d})) = card (dom (devs s))"
    using lib_okD(3) [OF ok] dv(1) by (intro card_Suc_Diff1) auto
  moreover have "dom (devs s') = dom (devs s) - {d}" by (simp add: devs')
  moreover have "open_devices s' = of_nat (card (dom (devs s))) - 1"
    using lib_okD(4) [OF ok] by (simp add: s')
  ultimately show "open_devices s' = of_nat (card (dom (devs s')))"
    by (metis add_diff_cancel_left' of_nat_Suc)
  show "device_ok s' d' dv'" if "devs s' d' = Some dv'" for d' dv'
  proof -
    note o = other [OF that]
    obtain ts' where ts': "transfers dv' = Some ts'" "length ts' = TRANSFER_COUNT"
      "\<And>i. i < TRANSFER_COUNT \<Longrightarrow> slot_ok s d' dv' i (ts' ! i)" and h: "usb_device dv' \<in> handles s"
      using lib_okD(1) [OF ok o(1)] by (auto simp: device_ok_def)
    obtain ts0 where "allocated d dv ts0 s" and slots: "\<And>i. i < TRANSFER_COUNT \<Longrightarrow> slot_ok s d dv i (ts0 ! i)"
      by (rule device_ok_allocated [OF ok dv(1)], rule that)
    then have ts0: "ts0 = ts" "length ts = TRANSFER_COUNT"
      using allocatedD(2) [OF dv(2)] allocatedD(2) [of d dv ts0 s] allocatedD(3) [OF dv(2)] by auto
    have "slot_ok s' d' dv' i (ts' ! i)" if i: "i < TRANSFER_COUNT" for i
    proof -
      have "ts' ! i \<notin> set ts"
      proof
        assume "ts' ! i \<in> set ts"
        then obtain j where "j < TRANSFER_COUNT" "ts' ! i = ts ! j"
          using ts0(2) by (auto simp: in_set_conv_nth)
        with slots [of j] ts'(3) [OF i] o(2) show False by (auto simp: slot_ok_def ts0(1))
      qed
      with ts'(3) [OF i] show ?thesis by (simp add: slot_ok_def s' F)
    qed
    with ts' h o(3) show ?thesis by (auto simp: device_ok_def s' F)
  qed
  show "d1 = d2" if "devs s' d1 = Some dv1" "devs s' d2 = Some dv2" "usb_device dv1 = usb_device dv2" for d1 d2 dv1 dv2
    using other(1) [OF that(1)] other(1) [OF that(2)] that(3) by (rule lib_okD(2) [OF ok])
  show "names_ok s'"
    using lib_okD(6) [OF ok] by (rule names_ok_mono) (auto simp: s' F)
  show "active s' \<subseteq> owned s'"
  proof
    fix t assume "t \<in> active s'"
    then have t: "t \<in> active s" and not: "\<And>x. xfers s t = Some x \<Longrightarrow> x_dev_handle x \<noteq> usb_device dv"
      by (auto simp: s' F split: option.splits)
    from t lib_okD(5) [OF ok] have "t \<in> owned s" by blast
    then obtain d' dv' ts' where d': "devs s d' = Some dv'" "transfers dv' = Some ts'" "t \<in> set ts'"
      by (auto simp: owned_iff)
    have "d' \<noteq> d"
    proof
      assume "d' = d"
      with d' dv obtain i where "i < TRANSFER_COUNT" "t = ts ! i" "dv' = dv"
        using allocatedD(2,3) [OF dv(2)] by (auto simp: in_set_conv_nth)
      moreover obtain ts0 where ts0: "allocated d dv ts0 s" "\<And>i. i < TRANSFER_COUNT \<Longrightarrow> slot_ok s d dv i (ts0 ! i)"
        by (rule device_ok_allocated [OF ok dv(1)], rule that)
      moreover have "ts0 = ts" using allocatedD(2) [OF ts0(1)] allocatedD(2) [OF dv(2)] by simp
      ultimately show False using not by (auto simp: slot_ok_def)
    qed
    with d' show "t \<in> owned s'" by (auto simp: owned_iff devs')
  qed
qed

lemma close_outcome:
  assumes ok: "lib_ok s" and dv: "devs s d = Some dv" and run: "hackrf_close H d s = Some (r, s')"
  shows "lib_ok s' \<and> dom (devs s') = dom (devs s) - {d} \<and> handles s' = handles s - {usb_device dv} \<and>
    (\<exists>ts. transfers dv = Some ts \<and> dom (xfers s') = dom (xfers s) - set ts \<and> active s' \<inter> set ts = {}) \<and>
    open_devices s' = open_devices s - 1"
proof -
  have "d \<noteq> NULL"
    using names_okD(1) [OF lib_okD(6) [OF ok], of d] dv by auto
  with run obtain r1 r2 s3 where close: "close_device H d s = Some ((r1, r2), s3)"
    and s': "s' = s3\<lparr>open_devices := open_devices s3 - 1\<rparr>"
    by (auto simp: hackrf_close_def bind_pair_Some Let_def)
  obtain s1 s2 dv2 ts where ev: "evolves s s2" and dv2: "devs s2 d = Some dv2" "usb_device dv2 = usb_device dv"
    and al: "allocated d dv ts s" and ts: "transfers dv2 = Some ts" and s3: "s3 = after_close d dv2 ts s2"
    using close_device_run [OF ok dv close] by blast
  note ok2 = lib_ok_evolves [OF ok ev]
  obtain ts' where al2: "allocated d dv2 ts' s2" "\<And>i. i < TRANSFER_COUNT \<Longrightarrow> slot_ok s2 d dv2 i (ts' ! i)"
    by (rule device_ok_allocated [OF ok2 dv2(1)], rule that)
  have eq: "ts' = ts" using allocatedD(2) [OF al2(1)] ts by simp
  note F = after_close_fields [of d dv2 ts s2]
  have doms: "dom (devs s2) = dom (devs s)" "dom (xfers s2) = dom (xfers s)"
    using evolvesD(1,2) [OF ev] rel_option_dom [of dev_like "devs s" "devs s2"]
      rel_option_dom [of xfer_like "xfers s" "xfers s2"] by simp_all
  have "lib_ok s'"
    using lib_ok_after_close [OF ok2 dv2(1), of ts s'] al2(1) s' F(4) by (simp add: eq s3)
  moreover have "active s' \<inter> set ts = {}"
  proof (rule ccontr)
    assume "active s' \<inter> set ts \<noteq> {}"
    then obtain i where "i < length ts" "ts ! i \<in> active s'" by (auto simp: in_set_conv_nth)
    moreover from this al2 obtain x where "xfers s2 (ts ! i) = Some x" "x_dev_handle x = usb_device dv2"
      using allocatedD(3) [OF al2(1)] by (auto simp: eq slot_ok_def)
    ultimately show False by (simp add: s' s3 F)
  qed
  ultimately show ?thesis
    using allocatedD(2) [OF al] doms evolvesD(3,5) [OF ev] dv2(2) F
    by (auto simp: s' s3)
qed

lemma close_runs:
  assumes ok: "lib_ok s" "callbacks_ok s" and dv: "devs s d = Some dv"
  shows "\<exists>r s'. hackrf_close H d s = Some (r, s') \<and> callbacks_ok s'"
proof -
  obtain r1 s1 dv1 where 1: "hackrf_stop_rx H d s = Some (r1, s1)" "lib_ok s1" "callbacks_ok s1" "devs s1 d = Some dv1"
    using stop_rx_runs [OF ok dv, of H] by blast
  obtain r2 s2 dv2 where 2: "hackrf_stop_tx H d s1 = Some (r2, s2)" "lib_ok s2" "callbacks_ok s2" "devs s2 d = Some dv2"
    using stop_rx_runs [OF 1(2-4), of H] by (auto simp: stop_tx_is_stop_rx)
  obtain ts where ts: "allocated d dv2 ts s2" "\<And>i. i < TRANSFER_COUNT \<Longrightarrow> slot_ok s2 d dv2 i (ts ! i)"
    by (rule device_ok_allocated [OF 2(2,4)], rule that)
  from close_tail_run [OF 2(2,4) ts, of H r1 r2]
  have "close_device H d s = Some ((r1, r2), after_close d dv2 ts s2)"
    by (simp add: close_device_def 1(1) 2(1))
  then obtain r s' where run: "hackrf_close H d s = Some (r, s')"
    and s': "s' = (after_close d dv2 ts s2)\<lparr>open_devices := open_devices (after_close d dv2 ts s2) - 1\<rparr>"
    if "d \<noteq> NULL"
    by (simp add: hackrf_close_def)
  have "d \<noteq> NULL" using names_okD(1) [OF lib_okD(6) [OF ok(1)], of d] dv by auto
  note run = run [OF this] and s' = s' [OF this]
  have "lib_ok s'" using close_outcome [OF ok(1) dv run] by blast
  with 2(2,3) have "callbacks_ok s'"
    by (rule callbacks_okI) (auto simp: s' after_close_fields split: if_splits)
  with run show ?thesis by blast
qed

section \<open>Opening\<close>





section \<open>Closing\<close>



text \<open>
  With fewer than 65536 devices open, \<open>hackrf_exit\<close> succeeds exactly when no device is
  open; it then drops the libusb context, and otherwise changes nothing.
\<close>

theorem exit_iff_no_device:
  assumes "lib_ok s" "card (dom (devs s)) < 65536"
  shows "\<exists>r s'. hackrf_exit H s = Some (r, s') \<and> (r = HACKRF_SUCCESS \<longleftrightarrow> devs s = Map.empty) \<and>
    (if devs s = Map.empty then g_libusb_context s' = NULL \<and> open_devices s' = open_devices s
     else r = HACKRF_ERROR_NOT_LAST_DEVICE \<and> s' = s)"
proof -
  have "open_devices s = 0 \<longleftrightarrow> card (dom (devs s)) = 0"
    using lib_okD(4) [OF assms(1)] assms(2) by (simp add: word_of_nat_eq_0_iff nat_dvd_not_less)
      (metis dvd_0_right gr0I nat_dvd_not_less)
  also have "\<dots> \<longleftrightarrow> devs s = Map.empty"
    using lib_okD(3) [OF assms(1)] by (simp add: card_eq_0_iff)
  finally show ?thesis by (auto simp: hackrf_exit_def)
qed

theorem exit_iff_no_device_witness:
  "\<exists>r s'. hackrf_exit (steady_host 0) init_lib = Some (r, s') \<and> r = HACKRF_SUCCESS"
  using exit_iff_no_device [OF lib_ok_init, of "steady_host 0"] by (auto simp: init_lib_def)

text \<open>
  \<open>hackrf_close\<close> of a null pointer succeeds and still decrements the count of open
  devices, so that the count no longer tells how many devices are open: with none open,
  \<open>hackrf_exit\<close> then refuses to end the library.
\<close>

theorem close_null_breaks_the_count:
  assumes "lib_ok s"
  shows "\<exists>s'. hackrf_close H NULL s = Some (HACKRF_SUCCESS, s') \<and> \<not> lib_ok s' \<and>
    (devs s = Map.empty \<longrightarrow> hackrf_exit H s' = Some (HACKRF_ERROR_NOT_LAST_DEVICE, s'))"
proof (intro exI conjI)
  let ?s' = "s\<lparr>open_devices := open_devices s - 1\<rparr>"
  show "hackrf_close H NULL s = Some (HACKRF_SUCCESS, ?s')"
    by (simp add: hackrf_close_def)
  show "\<not> lib_ok ?s'"
    using lib_okD(4) [OF assms] lib_okD(4) [of ?s'] by auto
  show "devs s = Map.empty \<longrightarrow> hackrf_exit H ?s' = Some (HACKRF_ERROR_NOT_LAST_DEVICE, ?s')"
    using lib_okD(4) [OF assms] by (auto simp: hackrf_exit_def)
qed

theorem close_null_breaks_the_count_witness:
  "\<exists>s'. hackrf_close (steady_host 0) NULL init_lib = Some (HACKRF_SUCCESS, s') \<and> \<not> lib_ok s'"
  using close_null_breaks_the_count [OF lib_ok_init, of "steady_host 0"] by blast

text \<open>
  C39. When the device refuses the request to switch its transceiver off, as an unplugged one
  does, \<open>hackrf_close\<close> frees the device without waiting for its event thread: the next pass
  of that thread uses freed memory.
\<close>

theorem close_frees_under_running_thread:
  assumes "lib_ok s" "devs s d = Some dv" "transfer_thread_started dv"
    and "\<And>tr. rc (answer H tr (Usb_control (usb_device dv) VENDOR_OUT 1 0 0 [] 0)) \<noteq> 0"
  shows "\<exists>s' cs. hackrf_close H d s = Some (HACKRF_ERROR_LIBUSB, s') \<and> trace s' = trace s @ cs \<and>
    (\<forall>t. Pthread_join t \<notin> set cs) \<and> thread_pass H d s' = None"
proof -
  let ?c = "Usb_control (usb_device dv) VENDOR_OUT 1 0 0 [] 0"
  let ?e = "\<lambda>tr. rc (answer H tr ?c)"
  let ?s1 = "s\<lparr>last_libusb_error := ?e (trace s), trace := trace s @ [?c]\<rparr>"
  let ?s2 = "s\<lparr>last_libusb_error := ?e (trace s @ [?c]), trace := trace s @ [?c, ?c]\<rparr>"
  have h: "usb_device dv \<in> handles s"
    using lib_okD(1) [OF assms(1,2)] by (simp add: device_ok_def)
  have stop: "hackrf_stop_rx H d s = Some (HACKRF_ERROR_LIBUSB, ?s1)"
    "hackrf_stop_tx H d ?s1 = Some (HACKRF_ERROR_LIBUSB, ?s2)"
    using assms(2,4) h
    by (simp_all add: hackrf_stop_rx_def hackrf_stop_tx_def hackrf_set_transceiver_mode_def fail_libusb_def Let_def)
  have ok2: "lib_ok ?s2" and dv2: "devs ?s2 d = Some dv"
    using lib_ok_evolves [OF assms(1) confined_evolves [OF confined_updates(1)]] assms(2) by simp_all
  obtain ts where ts: "allocated d dv ts ?s2" "\<And>i. i < TRANSFER_COUNT \<Longrightarrow> slot_ok ?s2 d dv i (ts ! i)"
    by (rule device_ok_allocated [OF ok2 dv2], rule that)
  have "close_device H d s = Some ((HACKRF_ERROR_LIBUSB, HACKRF_ERROR_LIBUSB), after_close d dv ts ?s2)"
    unfolding close_device_def stop using close_tail_run [OF ok2 dv2 ts] by (simp add: stop)
  moreover have "d \<noteq> NULL"
    using names_okD(1) [OF lib_okD(6) [OF assms(1)], of d] assms(2) by auto
  ultimately have "hackrf_close H d s = Some (HACKRF_ERROR_LIBUSB,
      (after_close d dv ts ?s2)\<lparr>open_devices := open_devices s - 1\<rparr>)" (is "_ = Some (_, ?s')")
    by (simp add: hackrf_close_def after_close_fields)
  moreover have "trace ?s' = trace s @ ?c # ?c # Usb_release_interface (usb_device dv) 0 # Usb_close (usb_device dv) # map Usb_free_transfer ts"
    by (simp add: after_close_fields)
  moreover have "devs ?s' d = None" by (simp add: after_close_fields)
  then have "thread_pass H d ?s' = None" by (simp add: thread_pass_def)
  ultimately show ?thesis
    by (intro exI conjI) auto
qed

theorem close_frees_under_running_thread_witness:
  "\<exists>s'. hackrf_close (steady_host (-4)) 6 streaming_lib = Some (HACKRF_ERROR_LIBUSB, s') \<and>
    thread_pass (steady_host (-4)) 6 s' = None"
  using close_frees_under_running_thread [of streaming_lib 6 streaming_device "steady_host (-4)"] by auto

end
