(* ===== verification/Fractional_Rate.thy ===== *)
theory Fractional_Rate
  imports Sample_Rate "HOL-Library.Log_Nat"
begin

text \<open>
  \<open>hackrf_set_sample_rate\<close>: the search for a divider of at most 31 that turns a fractional sample
  rate into a whole number of hertz. The rate is a double, given by its bits. The results are the
  choice of the divider, the accuracy of the pair that is sent, and that whole rates pass
  unchanged.
\<close>

section \<open>Doubles\<close>

text \<open>
  A finite double of at least \<open>2 ^ -4\<close> is a multiple of \<open>2 ^ -56\<close>, and so are its sums and
  products with integers: their values are natural numbers in this unit. Each operation is rounded
  to 53 significant bits, to nearest with ties to even, the default of IEEE 754.
\<close>

definition exponent :: "u64 \<Rightarrow> int" where
  "exponent x = int (unat (drop_bit 52 x)) - 1023"

definition units :: "u64 \<Rightarrow> nat" where
  "units x = (2 ^ 52 + unat (take_bit 52 x)) * 2 ^ nat (exponent x + 4)"

definition round_to :: "nat \<Rightarrow> nat \<Rightarrow> nat" where
  "round_to k n =
     (let q = n div 2 ^ k; r = n mod 2 ^ k
      in if 2 ^ k < 2 * r \<or> 2 ^ k = 2 * r \<and> odd q then Suc q * 2 ^ k else q * 2 ^ k)"

definition to_double :: "nat \<Rightarrow> nat" where
  "to_double n = round_to (floorlog 2 n - 53) n"

text \<open>The 52 bits of the fraction in the representation of a value.\<close>

definition fraction_bits :: "nat \<Rightarrow> u64" where
  "fraction_bits n = of_nat (n * 2 ^ 53 div 2 ^ floorlog 2 n mod 2 ^ 52)"

section \<open>The search\<close>

text \<open>\<open>1.0 + freq - (int)freq\<close>\<close>

definition freq_frac :: "nat \<Rightarrow> nat" where
  "freq_frac x = to_double (to_double (2 ^ 56 + x) - x div 2 ^ 56 * 2 ^ 56)"

function divider_loop :: "u64 \<Rightarrow> u64 \<Rightarrow> u64 \<Rightarrow> nat \<Rightarrow> nat" where
  "divider_loop v m a i =
     (if i < 32
      then let a = a + v
           in if a AND m = 0 \<or> NOT a AND m = 0 then i else divider_loop v m a (Suc i)
      else i)"
  by pat_completeness auto
termination
  by (relation "measure (\<lambda>(v, m, a, i). 32 - i)") auto

declare divider_loop.simps [simp del]

text \<open>
  The rate in hertz and the divider. Shifting an \<open>int\<close> by a negative amount or by more than 30
  is undefined.
\<close>

definition rate_and_divider :: "u64 \<Rightarrow> (u32 \<times> u32) option" where
  "rate_and_divider freq =
     (let x = units freq;
          e = exponent freq;
          v = fraction_bits (freq_frac x);
          m = mask 52
      in if e + 4 < 0 \<or> 30 < e + 4 then None
         else let m = m AND NOT (mask (nat (e + 4)));
                  i = divider_loop v m 0 1;
                  i = (if i = 32 then 1 else i)
              in Some (of_nat (to_double (to_double (x * i) + 2 ^ 55) div 2 ^ 56), of_nat i))"

definition hackrf_set_sample_rate :: "host \<Rightarrow> ptr \<Rightarrow> u64 \<Rightarrow> lib \<Rightarrow> (hackrf_error \<times> lib) option" where
  "hackrf_set_sample_rate H device freq s =
     do { (freq_hz, divider) \<leftarrow> rate_and_divider freq;
          hackrf_set_sample_rate_manual H device freq_hz divider s }"

section \<open>Rounding\<close>

lemma round_to_exact: "2 ^ k dvd n \<Longrightarrow> round_to k n = n"
  by (auto simp: round_to_def Let_def elim!: dvdE)

lemma round_to_dvd: "2 ^ k dvd round_to k n"
  by (auto simp: round_to_def Let_def)

lemma round_to_near: "\<bar>2 * int (round_to k n) - 2 * int n\<bar> \<le> 2 ^ k"
proof -
  define P q r where "P = (2 :: nat) ^ k" and "q = n div P" and "r = n mod P"
  have n: "int n = int q * int P + int r"
    by (simp add: q_def r_def flip: of_nat_mult of_nat_add)
  have "int r < int P" by (simp add: r_def P_def)
  then have "\<bar>2 * int (round_to k n) - 2 * int n\<bar> \<le> int P"
    using n unfolding round_to_def Let_def P_def [symmetric] q_def [symmetric] r_def [symmetric]
    by (auto simp: algebra_simps)
  then show ?thesis by (simp add: P_def)
qed

lemma round_to_mono: "2 ^ k dvd m \<Longrightarrow> m \<le> n \<Longrightarrow> m \<le> round_to k n"
proof -
  assume "2 ^ k dvd m" "m \<le> n"
  then have "m = m div 2 ^ k * 2 ^ k" "m div 2 ^ k \<le> n div 2 ^ k"
    by (simp_all add: div_le_mono)
  then have "m \<le> n div 2 ^ k * 2 ^ k" by (metis mult_le_mono1)
  then show ?thesis by (auto simp: round_to_def Let_def)
qed

lemma round_to_mono': "2 ^ k dvd m \<Longrightarrow> n \<le> m \<Longrightarrow> round_to k n \<le> m"
proof (cases "n = m")
  case False
  assume "2 ^ k dvd m" "n \<le> m"
  with False obtain c where c: "m = 2 ^ k * c" "n < 2 ^ k * c" by (auto elim!: dvdE)
  then have "Suc (n div 2 ^ k) \<le> c" by (simp add: less_mult_imp_div_less mult.commute Suc_leI)
  then have "Suc (n div 2 ^ k) * 2 ^ k \<le> m" using mult_le_mono2 [of _ c "2 ^ k"] by (subst mult.commute) (simp only: c(1))
  moreover have "n div 2 ^ k * 2 ^ k \<le> m" using div_times_less_eq_dividend \<open>n \<le> m\<close> by (rule le_trans)
  ultimately show ?thesis unfolding round_to_def Let_def by (split if_split) blast
qed (simp add: round_to_exact)

lemma floorlog_le: "n < 2 ^ k \<Longrightarrow> floorlog 2 n \<le> k"
  by (rule floorlog_leI) simp_all

lemma to_double_exact: "a < 2 ^ 53 \<Longrightarrow> to_double (a * 2 ^ k) = a * 2 ^ k"
proof -
  assume "a < 2 ^ 53"
  then have "a * 2 ^ k < 2 ^ (53 + k)" by (simp add: power_add)
  then have "floorlog 2 (a * 2 ^ k) - 53 \<le> k" using floorlog_le [of "a * 2 ^ k" "53 + k"] by simp
  then show ?thesis unfolding to_double_def by (intro round_to_exact) (simp add: dvd_mult le_imp_power_dvd)
qed

lemma to_double_near: "n < 2 ^ (53 + k) \<Longrightarrow> \<bar>2 * int (to_double n) - 2 * int n\<bar> \<le> 2 ^ k"
proof -
  assume "n < 2 ^ (53 + k)"
  then have "floorlog 2 n - 53 \<le> k" using floorlog_le [of n "53 + k"] by simp
  then have "(2 :: int) ^ (floorlog 2 n - 53) \<le> 2 ^ k" by (rule power_increasing) simp
  with round_to_near [of "floorlog 2 n - 53" n] show ?thesis unfolding to_double_def by linarith
qed

lemma floorlog_2_power: "floorlog 2 (2 ^ k) = Suc k"
  using floorlog_power [of 1 2 k] by (simp add: floorlog_def)

lemma floorlog_2_56: "floorlog 2 (2 ^ 56 + x) \<ge> 57"
  using floorlog_mono [of "2 ^ 56" "2 ^ 56 + x" 2] by (simp only: floorlog_2_power) simp

section \<open>The fraction of the rate\<close>

lemma units_bounds:
  assumes "0 \<le> exponent x + 4"
  shows "2 ^ (nat (exponent x + 4) + 52) \<le> units x" and "units x < 2 ^ (nat (exponent x + 4) + 53)"
proof -
  have "unat (take_bit 52 x) < 2 ^ 52"
    by (simp only: unsigned_take_bit_eq take_bit_nat_less_exp)
  then have "units x < 2 ^ 53 * 2 ^ nat (exponent x + 4)"
    unfolding units_def by (intro mult_strict_right_mono) simp_all
  then show "units x < 2 ^ (nat (exponent x + 4) + 53)"
    by (simp add: power_add mult.commute)
  show "2 ^ (nat (exponent x + 4) + 52) \<le> units x"
    unfolding units_def power_add by (simp add: mult.commute)
qed

lemma fraction_bits_value:
  assumes "16 dvd t" "t \<le> 2 ^ 56"
  shows "fraction_bits (2 ^ 56 + t) = of_nat (t div 16 mod 2 ^ 52)"
proof (cases "t = 2 ^ 56")
  case True
  then have "2 ^ 56 + t = 2 ^ 57" by simp
  moreover have "floorlog 2 (2 ^ 57) = 58" by (simp only: floorlog_2_power)
  ultimately show ?thesis using True by (simp only: fraction_bits_def) simp
next
  case False
  from assms(1) obtain c where t: "t = 16 * c" by (auto elim: dvdE)
  with assms(2) False have c: "c < 2 ^ 52" by simp
  have "floorlog 2 (2 ^ 56 + t) \<le> 57" using assms(2) False by (intro floorlog_le) simp
  then have "floorlog 2 (2 ^ 56 + t) = 57" using floorlog_2_56 [of t] by (rule antisym)
  moreover have "(2 ^ 56 + t) * 2 ^ 53 = (2 ^ 52 + c) * 2 ^ 57" by (simp add: t)
  ultimately have "fraction_bits (2 ^ 56 + t) = of_nat ((2 ^ 52 + c) mod 2 ^ 52)"
    unfolding fraction_bits_def by (simp only: nonzero_mult_div_cancel_right) simp
  with c show ?thesis by (simp add: t)
qed

lemma fraction_of_rate:
  assumes k: "k \<le> 30" and x: "x < 2 ^ (k + 53)"
  defines "y \<equiv> to_double (2 ^ 56 + x)"
  shows "16 dvd y" and "unat (fraction_bits (freq_frac x)) = y div 16 mod 2 ^ 52"
proof -
  define l N where "l = floorlog 2 (2 ^ 56 + x) - 53" and "N = x div 2 ^ 56"
  have "(2 :: nat) ^ (k + 53) \<le> 2 ^ 83" using k by (intro power_increasing) simp_all
  then have "floorlog 2 (2 ^ 56 + x) \<le> 84" using x by (intro floorlog_le) simp
  then have l: "4 \<le> l" "l \<le> 31" using floorlog_2_56 [of x] by (simp_all add: l_def)
  have y: "y = round_to l (2 ^ 56 + x)" by (simp add: y_def to_double_def l_def)
  have "(2 :: nat) ^ 4 dvd 2 ^ l" using l(1) by (rule le_imp_power_dvd)
  also have "\<dots> dvd y" unfolding y by (rule round_to_dvd)
  finally have "2 ^ 4 dvd y" .
  then show 16: "16 dvd y" by simp
  have "2 ^ l dvd (2 :: nat) ^ 56" using l by (intro le_imp_power_dvd) simp
  then have dvd: "2 ^ l dvd m * 2 ^ 56" for m :: nat by (rule dvd_mult)
  have "N * 2 ^ 56 \<le> x" "x \<le> Suc N * 2 ^ 56"
    unfolding N_def by (simp_all add: dividend_less_div_times less_imp_le)
  then have low: "Suc N * 2 ^ 56 \<le> y" and high: "y \<le> Suc (Suc N) * 2 ^ 56"
    unfolding y by (intro round_to_mono round_to_mono' dvd; simp)+
  define t where "t = y - Suc N * 2 ^ 56"
  have t: "t \<le> 2 ^ 56" and yt: "y = Suc N * 2 ^ 56 + t" using low high by (simp_all add: t_def)
  have "16 dvd Suc N * 2 ^ 56" by simp
  then have t16: "16 dvd t" using 16 unfolding yt by (simp only: dvd_add_right_iff)
  have "freq_frac x = to_double (2 ^ 56 + t)"
    using yt by (simp add: freq_frac_def y_def N_def)
  also have "\<dots> = 2 ^ 56 + t"
  proof (cases "t = 2 ^ 56")
    case True
    then show ?thesis using to_double_exact [of 1 57] by simp
  next
    case False
    from t16 obtain c where "t = 16 * c" by (auto elim: dvdE)
    with t False to_double_exact [of "2 ^ 52 + c" 4] show ?thesis by (simp add: algebra_simps)
  qed
  finally have "fraction_bits (freq_frac x) = of_nat (t div 16 mod 2 ^ 52)"
    using fraction_bits_value [OF t16 t] by simp
  moreover have "y div 16 mod 2 ^ 52 = t div 16 mod 2 ^ 52"
  proof -
    from t16 obtain c where c: "t = 16 * c" by (auto elim: dvdE)
    then have "y = 16 * (Suc N * 2 ^ 52 + c)" by (simp add: yt)
    then have "y div 16 = Suc N * 2 ^ 52 + c" by simp
    moreover have "t div 16 = c" using c by simp
    ultimately show ?thesis by (simp only: mod_mult_self3)
  qed
  moreover have "t div 16 mod 2 ^ 52 < 2 ^ 64" by (rule less_trans [of _ "2 ^ 52"]) simp_all
  ultimately show "unat (fraction_bits (freq_frac x)) = y div 16 mod 2 ^ 52"
    by (simp add: unat_of_nat take_bit_nat_eq_self)
qed

section \<open>The loop\<close>

text \<open>The low 52 bits of \<open>w\<close> are within \<open>2 ^ k\<close> of a multiple of \<open>2 ^ 52\<close>.\<close>

definition nearly_whole :: "nat \<Rightarrow> nat \<Rightarrow> bool" where
  "nearly_whole k w \<longleftrightarrow> w mod 2 ^ 52 < 2 ^ k \<or> 2 ^ 52 \<le> w mod 2 ^ 52 + 2 ^ k"

lemma unat_low: "unat (take_bit n a) = unat a mod 2 ^ n"
  by (subst unsigned_take_bit_eq) (rule take_bit_eq_mod)

lemma high_bits_zero:
  fixes a :: u64
  assumes "k \<le> 30"
  shows "a AND (mask 52 AND NOT (mask k)) = 0 \<longleftrightarrow> unat a mod 2 ^ 52 < 2 ^ k"
proof -
  let ?b = "take_bit 52 a"
  have "a AND (mask 52 AND NOT (mask k)) = 0 \<longleftrightarrow> take_bit k ?b = ?b"
    by (auto simp: bit_eq_iff bit_simps)
  also have "\<dots> \<longleftrightarrow> take_bit k (unat ?b) = unat ?b"
    by (simp only: word_unat_eq_iff unsigned_take_bit_eq)
  also have "\<dots> \<longleftrightarrow> unat ?b < 2 ^ k" by (rule take_bit_nat_eq_self_iff)
  also have "unat ?b = unat a mod 2 ^ 52" by (rule unat_low)
  finally show ?thesis .
qed

lemma unat_not_low:
  fixes a :: u64
  shows "unat (NOT a) mod 2 ^ 52 = 2 ^ 52 - 1 - unat a mod 2 ^ 52"
proof -
  have full: "unat (mask 52 :: u64) = 2 ^ 52 - 1" by (simp add: mask_eq_decr_exp)
  have "unat a mod 2 ^ 52 < 2 ^ 52" by simp
  then have "take_bit 52 a \<le> mask 52"
    unfolding word_le_nat_alt full unat_low by linarith
  then have "unat (mask 52 - take_bit 52 a) = unat (mask 52 :: u64) - unat (take_bit 52 a)"
    by (rule unat_sub)
  then have "unat (take_bit 52 (NOT a)) = unat (mask 52 :: u64) - unat (take_bit 52 a)"
    by (simp only: take_bit_not_eq_mask_diff)
  then show ?thesis by (simp only: full unat_low)
qed

lemma loop_test:
  fixes a :: u64
  assumes "k \<le> 30"
  shows "a AND (mask 52 AND NOT (mask k)) = 0 \<or> NOT a AND (mask 52 AND NOT (mask k)) = 0 \<longleftrightarrow> nearly_whole k (unat a)"
proof -
  have "unat a mod 2 ^ 52 < 2 ^ 52" by simp
  then have "2 ^ 52 - 1 - unat a mod 2 ^ 52 < 2 ^ k \<longleftrightarrow> 2 ^ 52 \<le> unat a mod 2 ^ 52 + 2 ^ k" by linarith
  then show ?thesis
    unfolding high_bits_zero [OF assms] unat_not_low nearly_whole_def by simp
qed

lemma unat_multiple:
  fixes v :: u64
  assumes "unat v < 2 ^ 52" "i \<le> 32"
  shows "unat (of_nat i * v) = i * unat v"
proof -
  have "i * unat v \<le> 32 * 2 ^ 52" using assms by (intro mult_le_mono) simp_all
  moreover have "unat (of_nat i :: u64) = i" using assms(2) by (simp add: unat_of_nat take_bit_nat_eq_self)
  ultimately show ?thesis by (simp add: unat_mult_lem [THEN iffD1])
qed

lemma divider_loop_finds:
  fixes v :: u64
  assumes k: "k \<le> 30" and v: "unat v < 2 ^ 52" and "j < 32"
  defines "m \<equiv> mask 52 AND NOT (mask k)"
  shows "j < divider_loop v m (of_nat j * v) (Suc j) \<and> divider_loop v m (of_nat j * v) (Suc j) \<le> 32 \<and>
    (divider_loop v m (of_nat j * v) (Suc j) < 32 \<longrightarrow> nearly_whole k (divider_loop v m (of_nat j * v) (Suc j) * unat v)) \<and>
    (\<forall>i. j < i \<and> i < divider_loop v m (of_nat j * v) (Suc j) \<longrightarrow> \<not> nearly_whole k (i * unat v))"
  using \<open>j < 32\<close>
proof (induction "31 - j" arbitrary: j)
  case 0
  then have "j = 31" by simp
  then show ?case by (auto simp: divider_loop.simps dest: Suc_leI)
next
  case (Suc n)
  then have j: "j < 31" by simp
  have next_a: "of_nat j * v + v = of_nat (Suc j) * v" by (simp add: distrib_right)
  have test: "of_nat (Suc j) * v AND m = 0 \<or> NOT (of_nat (Suc j) * v) AND m = 0 \<longleftrightarrow> nearly_whole k (Suc j * unat v)"
    unfolding m_def loop_test [OF k] using j by (subst unat_multiple [OF v]) simp_all
  have step: "divider_loop v m (of_nat j * v) (Suc j) =
      (if nearly_whole k (Suc j * unat v) then Suc j else divider_loop v m (of_nat (Suc j) * v) (Suc (Suc j)))"
    using j by (subst divider_loop.simps) (simp only: Let_def next_a test, simp)
  show ?case
  proof (cases "nearly_whole k (Suc j * unat v)")
    case True
    with step j show ?thesis by auto
  next
    case False
    define D where "D = divider_loop v m (of_nat (Suc j) * v) (Suc (Suc j))"
    have "Suc j < D \<and> D \<le> 32 \<and> (D < 32 \<longrightarrow> nearly_whole k (D * unat v)) \<and>
        (\<forall>i. Suc j < i \<and> i < D \<longrightarrow> \<not> nearly_whole k (i * unat v))"
      unfolding D_def using Suc.hyps j by (intro Suc.hyps(1)) simp_all
    moreover have "j < i \<longleftrightarrow> i = Suc j \<or> Suc j < i" for i by auto
    ultimately show ?thesis
      using False unfolding step D_def [symmetric] by auto
  qed
qed

section \<open>The pair that is sent\<close>

lemma nearest_hertz:
  assumes n: "n < 2 ^ 88"
  defines "f \<equiv> int (to_double (to_double n + 2 ^ 55) div 2 ^ 56)"
  shows "\<bar>2 ^ 56 * f - int n\<bar> \<le> 2 ^ 55 + 2 ^ 36" and "\<bar>int n - M * 2 ^ 56\<bar> \<le> 2 ^ 36 \<Longrightarrow> f = M"
proof -
  define p where "p = to_double n"
  define q where "q = to_double (p + 2 ^ 55)"
  have f: "f = int q div 2 ^ 56" by (simp add: f_def q_def p_def zdiv_int)
  have p: "\<bar>2 * int p - 2 * int n\<bar> \<le> 2 ^ 35"
    unfolding p_def using n by (intro to_double_near) simp
  then have "p + 2 ^ 55 < 2 ^ (53 + 36)" using n by simp
  then have "\<bar>2 * int q - 2 * int (p + 2 ^ 55)\<bar> \<le> 2 ^ 36"
    unfolding q_def by (rule to_double_near)
  with p have q: "\<bar>2 * int q - 2 * int n - 2 ^ 56\<bar> \<le> 2 ^ 37"
    by simp
  have split: "2 ^ 56 * f + int q mod 2 ^ 56 = int q" unfolding f by (rule mult_div_mod_eq)
  have "int q mod 2 ^ 56 < 2 ^ 56" "0 \<le> int q mod 2 ^ 56" by simp_all
  with split have "2 ^ 56 * f \<le> int q \<and> int q < 2 ^ 56 * f + 2 ^ 56" by linarith
  then have "2 ^ 56 * f \<le> int q" "int q < 2 ^ 56 * f + 2 ^ 56" by simp_all
  with q show "\<bar>2 ^ 56 * f - int n\<bar> \<le> 2 ^ 55 + 2 ^ 36"
    by simp
  assume "\<bar>int n - M * 2 ^ 56\<bar> \<le> 2 ^ 36"
  with q have "2 ^ 56 * M \<le> int q" "int q < 2 ^ 56 * M + 2 ^ 56" by simp_all
  then show "f = M" unfolding f by (intro int_div_pos_eq [of _ _ _ "int q - 2 ^ 56 * M"]) simp_all
qed

lemma int_split: "int n = int (n div m) * int m + int (n mod m)"
  by (simp flip: of_nat_mult of_nat_add)

lemma int_less_power: "r < 2 ^ k \<Longrightarrow> int r < 2 ^ k"
  by (metis of_nat_less_iff of_nat_numeral of_nat_power)

lemma int_le_power: "2 ^ 52 \<le> r + 2 ^ k \<Longrightarrow> 2 ^ 52 \<le> int r + 2 ^ k"
  using of_nat_mono [of "2 ^ 52" "r + 2 ^ k", where 'a = int] by simp

lemma nearly_whole_multiple:
  assumes "nearly_whole k (i * v)" "v = z mod 2 ^ 52"
  obtains M where "\<bar>int (i * z) - M * 2 ^ 52\<bar> \<le> 2 ^ k"
proof -
  define r where "r = i * z mod 2 ^ 52"
  have w: "int (i * z) = int (i * z div 2 ^ 52) * 2 ^ 52 + int r"
    unfolding r_def using int_split [of "i * z" "2 ^ 52"] by simp
  have "r < 2 ^ k \<or> 2 ^ 52 \<le> r + 2 ^ k"
    using assms by (simp add: nearly_whole_def r_def mod_mult_right_eq)
  moreover have "r < 2 ^ 52" by (simp add: r_def)
  ultimately consider "int r < 2 ^ k" | "2 ^ 52 \<le> int r + 2 ^ k" "int r < 2 ^ 52"
    using int_less_power [of r k] int_less_power [of r 52] int_le_power [of r k] by auto
  then show thesis
  proof cases
    case 1
    then show ?thesis using w that [of "int (i * z div 2 ^ 52)"] by simp
  next
    case 2
    then show ?thesis using w that [of "int (i * z div 2 ^ 52) + 1"] by (simp add: distrib_right)
  qed
qed

lemma combine_bounds:
  fixes a b c w M P :: int
  assumes "\<bar>b - (c + a)\<bar> \<le> 31 * P" "b = 16 * w" "\<bar>w - M\<bar> \<le> P"
  shows "\<bar>a - (16 * M - c)\<bar> \<le> 47 * P"
  using assms by linarith

lemma nearly_whole_rate:
  assumes k: "4 \<le> k" "k \<le> 30" and x: "x < 2 ^ (k + 53)" and i: "i \<le> 31"
    and near: "nearly_whole k (i * unat (fraction_bits (freq_frac x)))"
  obtains M where "\<bar>int (x * i) - M * 2 ^ 56\<bar> \<le> 47 * 2 ^ k"
proof -
  define y where "y = to_double (2 ^ 56 + x)"
  note y_facts = fraction_of_rate [OF k(2) x, folded y_def]
  from y_facts(1) obtain z where z: "y = 16 * z" by (auto elim: dvdE)
  then have "unat (fraction_bits (freq_frac x)) = z mod 2 ^ 52" using y_facts(2) by simp
  with near obtain M where M: "\<bar>int (i * z) - M * 2 ^ 52\<bar> \<le> 2 ^ k" by (rule nearly_whole_multiple)
  have "(2 :: nat) ^ 57 \<le> 2 ^ (k + 53)" using k(1) by (intro power_increasing) simp_all
  moreover have "(2 :: nat) ^ (53 + Suc k) = 2 * 2 ^ (k + 53)" by (simp add: power_add)
  ultimately have "2 ^ 56 + x < 2 ^ (53 + Suc k)" using x by simp
  then have "\<bar>2 * int y - 2 * int (2 ^ 56 + x)\<bar> \<le> 2 ^ Suc k" unfolding y_def by (rule to_double_near)
  then have d: "\<bar>int y - (2 ^ 56 + int x)\<bar> \<le> 2 ^ k" by simp
  have "\<bar>int i * (int y - (2 ^ 56 + int x))\<bar> = int i * \<bar>int y - (2 ^ 56 + int x)\<bar>" by (simp add: abs_mult)
  also have "\<dots> \<le> 31 * 2 ^ k" using d i by (intro mult_mono) simp_all
  finally have "\<bar>int (i * y) - (int i * 2 ^ 56 + int (x * i))\<bar> \<le> 31 * 2 ^ k" by (simp add: algebra_simps)
  moreover have "int (i * y) = 16 * int (i * z)" by (simp add: z)
  ultimately have "\<bar>int (x * i) - (16 * (M * 2 ^ 52) - int i * 2 ^ 56)\<bar> \<le> 47 * 2 ^ k"
    using M by (rule combine_bounds)
  also have "16 * (M * 2 ^ 52) - int i * 2 ^ 56 = (M - int i) * 2 ^ 56" by simp
  finally have "\<bar>int (x * i) - (M - int i) * 2 ^ 56\<bar> \<le> 47 * 2 ^ k" .
  then show thesis by (rule that)
qed

text \<open>The rate \<open>freq\<close> times \<open>i\<close> is, as far as the search can tell, a whole number of hertz.\<close>

definition whole_after :: "u64 \<Rightarrow> nat \<Rightarrow> bool" where
  "whole_after freq i \<longleftrightarrow>
     nearly_whole (nat (exponent freq + 4)) (i * unat (fraction_bits (freq_frac (units freq))))"

lemma search_result:
  assumes "rate_and_divider freq = Some (hz, dv)"
  defines "k \<equiv> nat (exponent freq + 4)" and "i \<equiv> unat dv"
  shows "k \<le> 30" "0 \<le> exponent freq + 4" "units freq < 2 ^ (k + 53)"
    and "1 \<le> i" "i \<le> 31" "\<forall>j \<in> {1..<i}. \<not> whole_after freq j"
    and "whole_after freq i \<or> i = 1 \<and> (\<forall>j \<in> {1..31}. \<not> whole_after freq j)"
    and "int (unat hz) = int (to_double (to_double (units freq * i) + 2 ^ 55) div 2 ^ 56)"
    and "units freq * i < 2 ^ 88"
proof -
  let ?x = "units freq"
  let ?v = "fraction_bits (freq_frac ?x)"
  define L where "L = divider_loop ?v (mask 52 AND NOT (mask k)) 0 1"
  define n where "n = (if L = 32 then 1 else L)"
  from assms(1) have e: "0 \<le> exponent freq + 4" "exponent freq + 4 \<le> 30"
    by (auto simp: rate_and_divider_def Let_def split: if_splits)
  then show k: "k \<le> 30" "0 \<le> exponent freq + 4" by (simp_all add: k_def)
  show x: "?x < 2 ^ (k + 53)" using units_bounds(2) [OF e(1)] by (simp add: k_def)
  have res: "hz = of_nat (to_double (to_double (?x * n) + 2 ^ 55) div 2 ^ 56)" "dv = of_nat n"
    using assms(1) e by (simp_all add: rate_and_divider_def Let_def k_def L_def n_def split: if_splits)
  have "unat ?v < 2 ^ 52" unfolding fraction_of_rate(2) [OF k(1) x] by simp
  from divider_loop_finds [OF k(1) this, of 0]
  have L: "0 < L" "L \<le> 32" "L < 32 \<Longrightarrow> whole_after freq L" "\<And>j. 0 < j \<Longrightarrow> j < L \<Longrightarrow> \<not> whole_after freq j"
    by (auto simp: L_def whole_after_def k_def)
  have n: "1 \<le> n" "n \<le> 31" using L by (auto simp: n_def)
  then have i: "i = n" by (simp add: i_def res(2) unat_of_nat_u32)
  show "1 \<le> i" "i \<le> 31" using n i by simp_all
  show "\<forall>j \<in> {1..<i}. \<not> whole_after freq j" using L(4) unfolding i n_def by auto
  show "whole_after freq i \<or> i = 1 \<and> (\<forall>j \<in> {1..31}. \<not> whole_after freq j)"
    using L unfolding i n_def by (auto intro: L(4))
  have "(2 :: nat) ^ (k + 53) \<le> 2 ^ 83" using k by (intro power_increasing) simp_all
  then have big: "?x * n \<le> 2 ^ 83 * 31" using x n by (intro mult_le_mono) simp_all
  then show small: "?x * i < 2 ^ 88" unfolding i by simp
  define f where "f = to_double (to_double (?x * n) + 2 ^ 55) div 2 ^ 56"
  have "\<bar>2 ^ 56 * int f - int (?x * n)\<bar> \<le> 2 ^ 55 + 2 ^ 36"
    using nearest_hertz(1) [OF small] unfolding f_def i .
  then have "2 ^ 56 * int f \<le> int (?x * n) + 2 ^ 55 + 2 ^ 36" by linarith
  moreover have "int (?x * n) \<le> 2 ^ 83 * 31" using of_nat_mono [OF big, where 'a = int] by simp
  ultimately have "f < 2 ^ 32" by simp
  then have "unat hz = f" unfolding res(1) f_def [symmetric] by (rule unat_of_nat_u32)
  then show "int (unat hz) = int (to_double (to_double (?x * i) + 2 ^ 55) div 2 ^ 56)"
    unfolding i f_def [symmetric] by (rule arg_cong)
qed

text \<open>
  C12. For a rate of at least 1 Hz, \<open>hackrf_set_sample_rate\<close> takes the least divider of at most 31
  that makes the rate a whole number of hertz to the precision of the search, and then the rate
  and divider that it sends are within \<open>2 ^ (e - 46)\<close> hertz of the request times the divider,
  for a rate between \<open>2 ^ e\<close> and \<open>2 ^ (e + 1)\<close>. Without such a divider it sends divider 1 and
  the nearest whole rate.
\<close>

theorem divider_is_least_and_accurate:
  assumes "rate_and_divider freq = Some (hz, dv)" "0 \<le> exponent freq"
  shows "if \<exists>i \<in> {1..31}. whole_after freq i
    then unat dv = (LEAST i. 1 \<le> i \<and> whole_after freq i)
      \<and> \<bar>2 ^ 56 * int (unat hz) - int (units freq * unat dv)\<bar> \<le> 2 ^ nat (exponent freq + 10)
    else dv = 1 \<and> \<bar>2 ^ 56 * int (unat hz) - int (units freq)\<bar> \<le> 2 ^ 55 + 2 ^ 36"
proof (cases "\<exists>i \<in> {1..31}. whole_after freq i")
  case True
  define k i where "k = nat (exponent freq + 4)" and "i = unat dv"
  note found = search_result [OF assms(1), folded k_def i_def]
  from True found(7) have whole: "whole_after freq i" by auto
  have least: "i = (LEAST i. 1 \<le> i \<and> whole_after freq i)"
  proof (rule sym, rule Least_equality)
    fix j assume j: "1 \<le> j \<and> whole_after freq j"
    show "i \<le> j"
    proof (rule ccontr)
      assume "\<not> i \<le> j"
      with j have "j \<in> {1..<i}" by simp
      with found(6) j show False by blast
    qed
  qed (use whole found(4) in simp)
  have "4 \<le> k" using assms(2) by (simp add: k_def)
  then obtain M where M: "\<bar>int (units freq * i) - M * 2 ^ 56\<bar> \<le> 47 * 2 ^ k"
    using found(1,3,5) whole unfolding whole_after_def k_def [symmetric] by (rule nearly_whole_rate)
  have "(2 :: int) ^ k \<le> 2 ^ 30" using found(1) by (intro power_increasing) simp_all
  then have "47 * (2 :: int) ^ k \<le> 2 ^ 36" by simp
  with M have "\<bar>int (units freq * i) - M * 2 ^ 56\<bar> \<le> 2 ^ 36" by (rule order_trans)
  then have "int (unat hz) = M" unfolding found(8) by (rule nearest_hertz(2) [OF found(9)])
  moreover have "(2 :: int) ^ nat (exponent freq + 10) = 64 * 2 ^ k"
    using assms(2) by (simp add: k_def nat_add_distrib power_add)
  ultimately have "\<bar>2 ^ 56 * int (unat hz) - int (units freq * i)\<bar> \<le> 2 ^ nat (exponent freq + 10)"
    using M by (simp add: abs_minus_commute mult.commute)
  with True least show ?thesis by (simp add: i_def)
next
  case False
  note found = search_result [OF assms(1)]
  from False found(4,5,7) have "unat dv = 1" by auto
  then have "dv = 1" by (simp add: word_unat_eq_iff)
  with found(8,9) nearest_hertz(1) [of "units freq"] have "\<bar>2 ^ 56 * int (unat hz) - int (units freq)\<bar> \<le> 2 ^ 55 + 2 ^ 36"
    by simp
  with False \<open>dv = 1\<close> show ?thesis by simp
qed

text \<open>
  C29. A whole rate of less than \<open>2 ^ 27\<close> hertz is sent as it is, with divider 1.
\<close>

theorem whole_rate_sent_unchanged:
  assumes n: "units freq = n * 2 ^ 56" "0 < n" "n < 2 ^ 27" and e: "0 \<le> exponent freq"
  shows "hackrf_set_sample_rate H d freq s = hackrf_set_sample_rate_manual H d (of_nat n) 1 s"
proof -
  have "2 ^ (nat (exponent freq + 4) + 52) \<le> n * 2 ^ 56"
    using units_bounds(1) [of freq] e n by simp
  also have "\<dots> < 2 ^ 27 * 2 ^ 56" using n(3) by (rule mult_strict_right_mono) simp
  finally have "(2 :: nat) ^ (nat (exponent freq + 4) + 52) < 2 ^ 83" by simp
  then have "nat (exponent freq + 4) + 52 < 83" by (rule power_less_imp_less_exp [rotated]) simp
  then have le: "exponent freq + 4 \<le> 30" by simp
  have one: "to_double (2 ^ 56 + n * 2 ^ 56) = Suc n * 2 ^ 56"
    using to_double_exact [of "Suc n" 56] n(3) by simp
  have "freq_frac (n * 2 ^ 56) = to_double (1 * 2 ^ 56)"
    unfolding freq_frac_def one by simp
  also have "\<dots> = 2 ^ 56 + 0" by (subst to_double_exact) simp_all
  finally have frac: "fraction_bits (freq_frac (n * 2 ^ 56)) = 0"
    using fraction_bits_value [of 0] by simp
  have loop: "divider_loop 0 m 0 1 = 1" for m by (subst divider_loop.simps) simp
  have sum: "n * 2 ^ 56 + 2 ^ 55 = (2 * n + 1) * (2 :: nat) ^ 55" by simp
  have "to_double (n * 2 ^ 56 * 1) = n * 2 ^ 56" using to_double_exact [of n 56] n(3) by simp
  then have "to_double (to_double (n * 2 ^ 56 * 1) + 2 ^ 55) = to_double ((2 * n + 1) * 2 ^ 55)"
    by (simp only: sum)
  also have "\<dots> = (2 * n + 1) * 2 ^ 55" using n(3) by (intro to_double_exact) simp
  finally have "to_double (to_double (n * 2 ^ 56 * 1) + 2 ^ 55) div 2 ^ 56 = n" by simp
  then have "rate_and_divider freq = Some (of_nat n, 1)"
    using e le unfolding rate_and_divider_def Let_def n(1) frac loop by simp
  then show ?thesis by (simp add: hackrf_set_sample_rate_def)
qed

lemma rate_and_divider_defined_iff: "rate_and_divider freq \<noteq> None \<longleftrightarrow> - 4 \<le> exponent freq \<and> exponent freq \<le> 26"
  by (auto simp: rate_and_divider_def Let_def)

lemma rate_and_divider_nonzero: "rate_and_divider freq = Some (hz, dv) \<Longrightarrow> dv \<noteq> 0"
  using search_result(4) [of freq hz dv] by auto

interpretation set_sample_rate_request: vendor_request hackrf_set_sample_rate id
  "\<lambda>_ freq. - 4 \<le> exponent freq \<and> exponent freq \<le> 26"
proof
  fix H d r freq and s s' :: lib
  assume "hackrf_set_sample_rate H d freq s = Some (r, s')"
  then show "confined s s'"
    using set_sample_rate_manual_request.confined [where x = "(a, b)" for a b, unfolded prod.case]
    by (auto simp: hackrf_set_sample_rate_def bind_eq_Some_conv)
next
  fix H d freq and s :: lib
  assume bus: "on_bus d s" and "- 4 \<le> exponent freq \<and> exponent freq \<le> 26"
  then obtain hz dv where p: "rate_and_divider freq = Some (hz, dv)"
    using rate_and_divider_defined_iff [of freq] by (cases "rate_and_divider freq") auto
  with set_sample_rate_manual_request.runs [where x = "(hz, dv)", unfolded prod.case, OF bus]
  show "\<exists>r s'. hackrf_set_sample_rate H d freq s = Some (r, s')"
    using rate_and_divider_nonzero by (auto simp: hackrf_set_sample_rate_def)
qed

text \<open>
  On an open device \<open>hackrf_set_sample_rate\<close> is defined exactly for the positive rates from
  1/16 Hz to below 134217728 Hz; for any other double it shifts an integer out of its range.
\<close>

theorem sample_rate_defined_iff:
  assumes "on_bus d s"
  shows "hackrf_set_sample_rate H d freq s \<noteq> None \<longleftrightarrow> - 4 \<le> exponent freq \<and> exponent freq \<le> 26"
  using set_sample_rate_request.runs [OF assms, of freq H] rate_and_divider_defined_iff [of freq]
  by (cases "rate_and_divider freq") (auto simp: hackrf_set_sample_rate_def)

section \<open>Examples\<close>

text \<open>The double 10000000.5\<close>

lemma half_hertz:
  defines "F \<equiv> 0x416312D010000000"
  shows "exponent F = 23" "units F = 20000001 * 2 ^ 55" "fraction_bits (freq_frac (units F)) = 2 ^ 51"
    "whole_after F 2" "rate_and_divider F = Some (20000001, 2)"
proof -
  show e: "exponent F = 23" by (simp add: exponent_def F_def)
  have u: "units F = 20000001 * 2 ^ 55" unfolding units_def e by (simp add: F_def)
  then show "units F = 20000001 * 2 ^ 55" .
  have "units F < 2 ^ (27 + 53)" unfolding u by simp
  from fraction_of_rate(2) [OF _ this] to_double_exact [of 20000003 55]
  have "unat (fraction_bits (freq_frac (units F))) = 20000003 * 2 ^ 55 div 16 mod 2 ^ 52" unfolding u by simp
  then have "unat (fraction_bits (freq_frac (units F))) = unat (2 ^ 51 :: u64)" by simp
  then show v: "fraction_bits (freq_frac (units F)) = 2 ^ 51" by (simp only: word_unat_eq_iff)
  show "whole_after F 2" unfolding whole_after_def v e by (simp add: nearly_whole_def)
  have "to_double (to_double (units F * 2) + 2 ^ 55) div 2 ^ 56 = 20000001"
    unfolding u using to_double_exact [of 20000001 56] to_double_exact [of 40000003 55] by simp
  moreover have "divider_loop (2 ^ 51) (mask 52 AND NOT (mask 27)) 0 1 = 2"
    by (simp add: divider_loop.simps mask_eq_decr_exp)
  ultimately show "rate_and_divider F = Some (20000001, 2)"
    unfolding rate_and_divider_def Let_def e v by simp
qed

theorem divider_is_least_and_accurate_witness:
  "2 = (LEAST i. 1 \<le> i \<and> whole_after 0x416312D010000000 i)"
proof -
  have "\<exists>i \<in> {1..31}. whole_after 0x416312D010000000 i"
    using half_hertz(4) by (intro bexI [of _ 2]) simp_all
  with divider_is_least_and_accurate [OF half_hertz(5)] half_hertz(1) show ?thesis by simp
qed

theorem whole_rate_sent_unchanged_witness:
  "hackrf_set_sample_rate (steady_host 0) 9 0x416312D000000000 sample_lib =
    hackrf_set_sample_rate_manual (steady_host 0) 9 10000000 1 sample_lib"
  by (rule whole_rate_sent_unchanged [of "0x416312D000000000" 10000000, simplified])
    (simp_all add: units_def exponent_def)

text \<open>The rate -1.0\<close>

theorem sample_rate_defined_iff_witness:
  "hackrf_set_sample_rate (steady_host 0) 9 0xBFF0000000000000 sample_lib = None"
proof -
  have "on_bus 9 sample_lib" by (simp add: on_bus_def)
  from sample_rate_defined_iff [OF this, of "steady_host 0" "0xBFF0000000000000"] show ?thesis
    by (simp add: exponent_def del: not_None_eq)
qed

end
