(* ===== verification/System.thy ===== *)
theory System
  imports Gated_Requests Cpld_Update Fractional_Rate Lifecycle_Results
begin

text \<open>
  The library as a system: the calls of the client, the passes of the event threads, and the
  states that they reach together. The lemmas show that every reachable state is well-formed
  and that a client which keeps to the documented use never meets undefined behaviour.
\<close>

section \<open>The calls of the client\<close>

text \<open>The requests on an open device, with their arguments.\<close>

datatype request =
    Set_transceiver_mode hackrf_transceiver_mode
  | Max2837_read u8 u16
  | Max2837_write u8 u16
  | Si5351c_read u16 u16
  | Si5351c_write u16 u16
  | Set_baseband_filter_bandwidth u32
  | Rffc5071_read u8 u16
  | Rffc5071_write u8 u16
  | Spiflash_erase
  | Spiflash_write u32 u16 "u8 list"
  | Spiflash_read u32 u16 "u8 list"
  | Spiflash_status "u8 list"
  | Spiflash_clear_status
  | Cpld_write "u8 list" u32
  | Board_id_read u8
  | Version_string_read "u8 list" u8
  | Set_freq u64
  | Set_freq_explicit u64 u64 u32
  | Set_sample_rate_manual u32 u32
  | Set_sample_rate u64
  | Set_amp_enable u8
  | Board_partid_serialno_read read_partid_serialno_t
  | Set_lna_gain u32
  | Set_vga_gain u32
  | Set_txvga_gain u32
  | Set_antenna_enable u8
  | Set_hw_sync_mode u8
  | Init_sweep "u16 list" int u32 u32 u32 u32
  | Get_operacake_boards "u8 list"
  | Set_operacake_ports u8 u8 u8
  | Reset_device
  | Set_operacake_ranges "u8 list" u8
  | Set_clkout_enable u8
  | Operacake_gpio_test u8 u16
  | Cpld_checksum u32

text \<open>The state after a request; its results do not matter here.\<close>

abbreviation after :: "('r \<times> lib) option \<Rightarrow> lib option" where
  "after \<equiv> map_option snd"

primrec run_request :: "host \<Rightarrow> ptr \<Rightarrow> request \<Rightarrow> lib \<Rightarrow> lib option" where
  "run_request H d (Set_transceiver_mode m) s = after (hackrf_set_transceiver_mode H d m s)"
| "run_request H d (Max2837_read reg v) s = after (hackrf_max2837_read H d reg v s)"
| "run_request H d (Max2837_write reg v) s = after (hackrf_max2837_write H d reg v s)"
| "run_request H d (Si5351c_read reg v) s = after (hackrf_si5351c_read H d reg v s)"
| "run_request H d (Si5351c_write reg v) s = after (hackrf_si5351c_write H d reg v s)"
| "run_request H d (Set_baseband_filter_bandwidth bw) s = after (hackrf_set_baseband_filter_bandwidth H d bw s)"
| "run_request H d (Rffc5071_read reg v) s = after (hackrf_rffc5071_read H d reg v s)"
| "run_request H d (Rffc5071_write reg v) s = after (hackrf_rffc5071_write H d reg v s)"
| "run_request H d Spiflash_erase s = after (hackrf_spiflash_erase H d s)"
| "run_request H d (Spiflash_write a n data) s = after (hackrf_spiflash_write H d a n data s)"
| "run_request H d (Spiflash_read a n buf) s = after (hackrf_spiflash_read H d a n buf s)"
| "run_request H d (Spiflash_status buf) s = after (hackrf_spiflash_status H d buf s)"
| "run_request H d Spiflash_clear_status s = after (hackrf_spiflash_clear_status H d s)"
| "run_request H d (Cpld_write data n) s = after (hackrf_cpld_write H d data n s)"
| "run_request H d (Board_id_read v) s = after (hackrf_board_id_read H d v s)"
| "run_request H d (Version_string_read buf n) s = after (hackrf_version_string_read H d buf n s)"
| "run_request H d (Set_freq f) s = after (hackrf_set_freq H d f s)"
| "run_request H d (Set_freq_explicit a b p) s = after (hackrf_set_freq_explicit H d a b p s)"
| "run_request H d (Set_sample_rate_manual r v) s = after (hackrf_set_sample_rate_manual H d r v s)"
| "run_request H d (Set_sample_rate f) s = after (hackrf_set_sample_rate H d f s)"
| "run_request H d (Set_amp_enable v) s = after (hackrf_set_amp_enable H d v s)"
| "run_request H d (Board_partid_serialno_read p) s = after (hackrf_board_partid_serialno_read H d p s)"
| "run_request H d (Set_lna_gain v) s = after (hackrf_set_lna_gain H d v s)"
| "run_request H d (Set_vga_gain v) s = after (hackrf_set_vga_gain H d v s)"
| "run_request H d (Set_txvga_gain v) s = after (hackrf_set_txvga_gain H d v s)"
| "run_request H d (Set_antenna_enable v) s = after (hackrf_set_antenna_enable H d v s)"
| "run_request H d (Set_hw_sync_mode v) s = after (hackrf_set_hw_sync_mode H d v s)"
| "run_request H d (Init_sweep fs n nb w off st) s = after (hackrf_init_sweep H d fs n nb w off st s)"
| "run_request H d (Get_operacake_boards buf) s = after (hackrf_get_operacake_boards H d buf s)"
| "run_request H d (Set_operacake_ports ad a b) s = after (hackrf_set_operacake_ports H d ad a b s)"
| "run_request H d Reset_device s = after (hackrf_reset H d s)"
| "run_request H d (Set_operacake_ranges rs n) s = after (hackrf_set_operacake_ranges H d rs n s)"
| "run_request H d (Set_clkout_enable v) s = after (hackrf_set_clkout_enable H d v s)"
| "run_request H d (Operacake_gpio_test ad v) s = after (hackrf_operacake_gpio_test H d ad v s)"
| "run_request H d (Cpld_checksum v) s = after (hackrf_cpld_checksum H d v s)"

text \<open>Buffers of the size that the routine assumes, a divider that is not zero, and a sample rate in range.\<close>

definition buffers_fit :: "host \<Rightarrow> request \<Rightarrow> bool" where
  "buffers_fit H r =
     (case r of
        Spiflash_write a n data \<Rightarrow> unat n \<le> length data
      | Spiflash_read a n buf \<Rightarrow> unat n \<le> length buf
      | Spiflash_status buf \<Rightarrow> 2 \<le> length buf
      | Cpld_write data n \<Rightarrow> 512 dvd unat n \<and> unat n \<le> length data
      | Version_string_read buf n \<Rightarrow> bounded_answers H \<and> unat n < length buf
      | Set_sample_rate_manual rate divider \<Rightarrow> divider \<noteq> 0
      | Set_sample_rate f \<Rightarrow> - 4 \<le> exponent f \<and> exponent f \<le> 26
      | Init_sweep fs n nb w off st \<Rightarrow> 2 * nat n \<le> length fs
      | Get_operacake_boards buf \<Rightarrow> 8 \<le> length buf
      | Set_operacake_ranges rs n \<Rightarrow> unat n \<le> length rs
      | _ \<Rightarrow> True)"

datatype api_call =
    Init
  | Exit
  | Open "ptr option"
  | Open_by_serial "u8 list option" "ptr option"
  | Close ptr
  | Start_rx ptr ptr ptr
  | Start_tx ptr ptr ptr
  | Stop_rx ptr
  | Stop_tx ptr
  | Is_streaming ptr
  | Request ptr request

primrec perform :: "host \<Rightarrow> api_call \<Rightarrow> lib \<Rightarrow> lib option" where
  "perform H Init s = after (hackrf_init H s)"
| "perform H Exit s = after (hackrf_exit H s)"
| "perform H (Open v) s = after (hackrf_open H v s)"
| "perform H (Open_by_serial n v) s = after (hackrf_open_by_serial H n v s)"
| "perform H (Close d) s = after (hackrf_close H d s)"
| "perform H (Start_rx d cb ctx) s = after (hackrf_start_rx H d cb ctx s)"
| "perform H (Start_tx d cb ctx) s = after (hackrf_start_tx H d cb ctx s)"
| "perform H (Stop_rx d) s = after (hackrf_stop_rx H d s)"
| "perform H (Stop_tx d) s = after (hackrf_stop_tx H d s)"
| "perform H (Is_streaming d) s = after (hackrf_is_streaming d s)"
| "perform H (Request d r) s = run_request H d r s"

section \<open>Steps\<close>

text \<open>
  A step is a call of the client that is defined, other than closing a null pointer, or a pass
  of the event thread of a device.
\<close>

inductive step :: "host \<Rightarrow> lib \<Rightarrow> lib \<Rightarrow> bool" for H where
  client: "step H s s'" if "c \<noteq> Close NULL" "perform H c s = Some s'"
| event: "step H s s'" if "devs s d = Some dv" "transfer_thread_started dv" "thread_pass H d s = Some (b, s')"

inductive reachable :: "host \<Rightarrow> lib \<Rightarrow> bool" for H where
  start: "reachable H init_lib"
| step: "reachable H s'" if "reachable H s" "step H s s'"

inductive_cases stepE: "step H s s'"

section \<open>Requests are confined and defined\<close>

text \<open>The contracts of the request routines, one fact per routine.\<close>

lemmas requests_confined =
  set_transceiver_mode_request.confined
  set_baseband_filter_bandwidth_request.confined
  spiflash_erase_request.confined
  set_amp_enable_request.confined
  set_antenna_enable_request.confined
  set_freq_request.confined
  board_id_read_request.confined
  board_partid_serialno_read_request.confined
  set_lna_gain_request.confined
  set_vga_gain_request.confined
  set_txvga_gain_request.confined
  spiflash_status_request.confined
  spiflash_clear_status_request.confined
  set_hw_sync_mode_request.confined
  get_operacake_boards_request.confined
  reset_request.confined
  set_clkout_enable_request.confined
  cpld_checksum_request.confined
  set_sample_rate_request.confined
  max2837_write_request.confined [where x = "(a, b)" for a b, unfolded prod.case]
  si5351c_write_request.confined [where x = "(a, b)" for a b, unfolded prod.case]
  rffc5071_write_request.confined [where x = "(a, b)" for a b, unfolded prod.case]
  max2837_read_request.confined [where x = "(a, b)" for a b, unfolded prod.case]
  si5351c_read_request.confined [where x = "(a, b)" for a b, unfolded prod.case]
  rffc5071_read_request.confined [where x = "(a, b)" for a b, unfolded prod.case]
  version_string_request.confined [where x = "(a, b)" for a b, unfolded prod.case]
  set_sample_rate_manual_request.confined [where x = "(a, b)" for a b, unfolded prod.case]
  set_operacake_ranges_request.confined [where x = "(a, b)" for a b, unfolded prod.case]
  operacake_gpio_test_request.confined [where x = "(a, b)" for a b, unfolded prod.case]
  cpld_write_request.confined [where x = "(a, b)" for a b, unfolded prod.case]
  spiflash_write_request.confined [where x = "(a, b, c)" for a b c, unfolded prod.case]
  set_freq_explicit_request.confined [where x = "(a, b, c)" for a b c, unfolded prod.case]
  spiflash_read_request.confined [where x = "(a, b, c)" for a b c, unfolded prod.case]
  set_operacake_ports_request.confined [where x = "(a, b, c)" for a b c, unfolded prod.case]
  init_sweep_request.confined [where x = "(fs, n, nb, w, off, st)" for fs n nb w off st, unfolded prod.case]

lemmas requests_run =
  set_transceiver_mode_request.runs
  set_baseband_filter_bandwidth_request.runs
  spiflash_erase_request.runs
  set_amp_enable_request.runs
  set_antenna_enable_request.runs
  set_freq_request.runs
  board_id_read_request.runs
  board_partid_serialno_read_request.runs
  set_lna_gain_request.runs
  set_vga_gain_request.runs
  set_txvga_gain_request.runs
  spiflash_status_request.runs
  spiflash_clear_status_request.runs
  set_hw_sync_mode_request.runs
  get_operacake_boards_request.runs
  reset_request.runs
  set_clkout_enable_request.runs
  cpld_checksum_request.runs
  set_sample_rate_request.runs
  max2837_write_request.runs [where x = "(a, b)" for a b, unfolded prod.case]
  si5351c_write_request.runs [where x = "(a, b)" for a b, unfolded prod.case]
  rffc5071_write_request.runs [where x = "(a, b)" for a b, unfolded prod.case]
  max2837_read_request.runs [where x = "(a, b)" for a b, unfolded prod.case]
  si5351c_read_request.runs [where x = "(a, b)" for a b, unfolded prod.case]
  rffc5071_read_request.runs [where x = "(a, b)" for a b, unfolded prod.case]
  version_string_request.runs [where x = "(a, b)" for a b, unfolded prod.case]
  set_sample_rate_manual_request.runs [where x = "(a, b)" for a b, unfolded prod.case]
  set_operacake_ranges_request.runs [where x = "(a, b)" for a b, unfolded prod.case]
  operacake_gpio_test_request.runs [where x = "(a, b)" for a b, unfolded prod.case]
  cpld_write_request.runs [where x = "(a, b)" for a b, unfolded prod.case]
  spiflash_write_request.runs [where x = "(a, b, c)" for a b c, unfolded prod.case]
  set_freq_explicit_request.runs [where x = "(a, b, c)" for a b c, unfolded prod.case]
  spiflash_read_request.runs [where x = "(a, b, c)" for a b c, unfolded prod.case]
  set_operacake_ports_request.runs [where x = "(a, b, c)" for a b c, unfolded prod.case]
  init_sweep_request.runs [where x = "(fs, n, nb, w, off, st)" for fs n nb w off st, unfolded prod.case]

lemma run_request_confined: "run_request H d r s = Some s' \<Longrightarrow> confined s s'"
  by (cases r) (auto dest: requests_confined)

lemma after_runs: "\<exists>r s'. m = Some (r, s') \<Longrightarrow> \<exists>s'. after m = Some s'"
  by auto

lemma run_request_runs:
  assumes "on_bus d s" "buffers_fit H r"
  shows "\<exists>s'. run_request H d r s = Some s'"
proof -
  note runs = requests_run [OF assms(1)]
  from assms(2) show ?thesis
    by (cases r) (auto simp: buffers_fit_def simp del: map_option_eq_Some intro!: after_runs runs)
qed

section \<open>Every call keeps the state well-formed\<close>

lemma lib_ok_bookkeeping [simp]:
  "lib_ok (s\<lparr>g_libusb_context := c\<rparr>) = lib_ok s"
  "lib_ok (s\<lparr>last_libusb_error := e\<rparr>) = lib_ok s"
  by (simp_all add: lib_ok_def device_ok_def slot_ok_def names_ok_def owned_def)

lemma lib_ok_trace: "lib_ok s \<Longrightarrow> lib_ok (s\<lparr>trace := trace s @ cs\<rparr>)"
  by (rule lib_ok_evolves [OF _ confined_evolves [OF confined_updates(2)]])

lemma lib_ok_trace_fields [intro]:
  assumes "lib_ok s"
  shows "lib_ok (s\<lparr>g_libusb_context := c, trace := trace s @ cs\<rparr>)"
    and "lib_ok (s\<lparr>last_libusb_error := e, trace := trace s @ cs\<rparr>)"
  using lib_ok_trace [of "s\<lparr>g_libusb_context := c\<rparr>" cs] lib_ok_trace [of "s\<lparr>last_libusb_error := e\<rparr>" cs] assms
  by simp_all

lemma init_exit_ok:
  "lib_ok s \<Longrightarrow> hackrf_init H s = Some (r, s') \<Longrightarrow> lib_ok s' \<and> devs s' = devs s \<and> active s' = active s"
  "lib_ok s \<Longrightarrow> hackrf_exit H s = Some (r, s') \<Longrightarrow> lib_ok s' \<and> devs s' = devs s \<and> active s' = active s"
  by (auto simp: hackrf_init_def hackrf_exit_def fail_libusb_def Let_def split: if_splits)

lemma open_opened:
  assumes ok: "lib_ok s" and run: "hackrf_open H v s = Some ((e, out), s')"
  shows "s' = s \<or> (\<exists>v0 v1. opened e v0 v1 s s')"
proof (cases v)
  case None
  with run show ?thesis by (simp add: hackrf_open_def)
next
  case (Some v0)
  with run hackrf_open_outcome [OF ok, of H v0] show ?thesis by auto
qed

lemma open_by_serial_opened':
  assumes ok: "lib_ok s" and run: "hackrf_open_by_serial H n v s = Some ((e, out), s')"
  shows "s' = s \<or> (\<exists>v0 v1. opened e v0 v1 s s')"
proof (cases v)
  case None
  with run open_opened [OF ok, of H None e out s'] show ?thesis
    by (cases n) (auto simp: hackrf_open_by_serial_def)
next
  case (Some v0)
  with run open_by_serial_opened [OF ok, of H n v0 e out s'] show ?thesis by auto
qed

lemma openedD: "opened e v v' s s' \<Longrightarrow> lib_ok s'"
  by (simp add: opened_def)

lemma close_live:
  assumes "hackrf_close H d s = Some (r, s')" "d \<noteq> NULL"
  obtains dv where "devs s d = Some dv"
proof (cases "devs s d")
  case None
  then have "close_device H d s = None"
    by (simp add: close_device_def hackrf_stop_rx_def hackrf_set_transceiver_mode_def get_dev_cases)
  with assms show ?thesis by (simp add: hackrf_close_def)
qed (rule that)

lemma is_streaming_same: "hackrf_is_streaming d s = Some (r, s') \<Longrightarrow> s' = s"
  by (auto simp: hackrf_is_streaming_def bind_pair_Some dest!: get_dev_confined)

lemma perform_lib_ok:
  assumes ok: "lib_ok s" and c: "c \<noteq> Close NULL" and run: "perform H c s = Some s'"
  shows "lib_ok s'"
proof (cases c)
  case Init
  with run init_exit_ok(1) [OF ok] show ?thesis by auto
next
  case Exit
  with run init_exit_ok(2) [OF ok] show ?thesis by auto
next
  case (Open v)
  with run ok show ?thesis by (auto dest!: open_opened [OF ok] openedD)
next
  case (Open_by_serial n v)
  with run ok show ?thesis by (auto dest!: open_by_serial_opened' [OF ok] openedD)
next
  case (Close d)
  with run obtain r where close: "hackrf_close H d s = Some (r, s')" by auto
  moreover from this Close c obtain dv where "devs s d = Some dv" by (auto elim: close_live)
  ultimately show ?thesis using close_outcome [OF ok] by blast
next
  case (Is_streaming d)
  with run ok show ?thesis by (auto dest: is_streaming_same)
next
  case (Request d r)
  with run have "confined s s'" by (auto intro: run_request_confined)
  then show ?thesis by (rule lib_ok_evolves [OF ok confined_evolves])
qed (use run lib_ok_evolves [OF ok] start_evolves [of H] stop_evolves [OF lib_okD(5) [OF ok]] in auto)

lemma step_lib_ok: "step H s s' \<Longrightarrow> lib_ok s \<Longrightarrow> lib_ok s'"
proof (erule stepE)
  fix c assume "lib_ok s" "c \<noteq> Close NULL" "perform H c s = Some s'"
  then show "lib_ok s'" by (rule perform_lib_ok)
next
  fix d dv b assume ok: "lib_ok s" and pass: "thread_pass H d s = Some (b, s')"
  show "lib_ok s'" by (rule lib_ok_evolves [OF ok thread_pass_evolves [OF pass lib_okD(5) [OF ok]]])
qed


section \<open>Clients that keep to the documented use\<close>

text \<open>
  A device argument is an open device, buffers have the documented size, callbacks are not
  null. Opening by a serial number is left out: its string comparison stays inside the array
  only if the serial numbers of the attached boards are long enough.
\<close>

definition legal :: "host \<Rightarrow> lib \<Rightarrow> api_call \<Rightarrow> bool" where
  "legal H s c =
     (case c of
        Open_by_serial n v \<Rightarrow> n = None
      | Close d \<Rightarrow> d \<in> dom (devs s)
      | Start_rx d cb ctx \<Rightarrow> d \<in> dom (devs s) \<and> cb \<noteq> NULL
      | Start_tx d cb ctx \<Rightarrow> d \<in> dom (devs s) \<and> cb \<noteq> NULL
      | Stop_rx d \<Rightarrow> d \<in> dom (devs s)
      | Stop_tx d \<Rightarrow> d \<in> dom (devs s)
      | Is_streaming d \<Rightarrow> d \<in> dom (devs s)
      | Request d r \<Rightarrow> d \<in> dom (devs s) \<and> buffers_fit H r
      | _ \<Rightarrow> True)"

inductive proper :: "host \<Rightarrow> lib \<Rightarrow> bool" for H where
  start: "proper H init_lib"
| call: "proper H s'" if "proper H s" "legal H s c" "perform H c s = Some s'"
| event: "proper H s'" if "proper H s" "devs s d = Some dv" "transfer_thread_started dv" "thread_pass H d s = Some (b, s')"

lemma on_bus_ok:
  assumes "lib_ok s" "d \<in> dom (devs s)"
  obtains dv where "devs s d = Some dv" "on_bus d s"
proof -
  obtain dv where dv: "devs s d = Some dv" using assms(2) by blast
  with lib_okD(1) [OF assms(1) dv] show ?thesis by (auto simp: on_bus_def device_ok_def intro: that)
qed

lemma callbacks_ok_opened:
  assumes ok: "lib_ok s" "callbacks_ok s" and op: "opened e v v' s s'"
  shows "callbacks_ok s'"
proof (rule callbacks_okI [OF ok openedD [OF op]])
  fix d dv ts assume d: "devs s' d = Some dv" and ts: "transfers dv = Some ts"
  have sub: "active s' \<subseteq> active s" and ok': "lib_ok s'" using op by (simp_all add: opened_def)
  show "devs s d = Some dv \<and> set ts \<inter> active s' \<subseteq> active s \<or> set ts \<inter> active s' = {}"
  proof (cases "devs s d = Some dv")
    case True
    with sub show ?thesis by blast
  next
    case False
    have "t \<notin> active s'" if t: "t \<in> set ts" for t
    proof
      assume "t \<in> active s'"
      then have "t \<in> owned s" using sub lib_okD(5) [OF ok(1)] by blast
      then obtain d0 dv0 ts0 where d0: "devs s d0 = Some dv0" "transfers dv0 = Some ts0" "t \<in> set ts0"
        unfolding owned_iff by blast
      have "devs s' d0 = Some dv0" "d0 \<noteq> d"
        using op d0(1) d False by (auto simp: opened_def split: if_splits)
      with slot_of [OF ok' d ts t] slot_of [OF ok' _ d0(2,3)] show False by force
    qed
    then show ?thesis by blast
  qed
qed

lemma start_stream_callbacks:
  assumes ok: "lib_ok s" "callbacks_ok s" and dv: "devs s d = Some dv" and host: "accepting H" "cb \<noteq> NULL"
    and f: "\<And>dv. transfers (f dv) = transfers dv" "\<And>dv. transfer_thread_started (f dv) = transfer_thread_started dv"
      "\<And>dv. callback (f dv) = callback dv"
    and ev: "\<And>r s'. start_stream H d m f ep cb s = Some (r, s') \<Longrightarrow> evolves s s'"
  shows "\<exists>r s'. start_stream H d m f ep cb s = Some (r, s') \<and> callbacks_ok s'"
proof (cases "transfer_thread_started dv")
  case True
  have "usb_device dv \<in> handles s" using lib_okD(1) [OF ok(1) dv] by (simp add: device_ok_def)
  with True dv have "\<exists>r s'. start_stream H d m f ep cb s = Some (r, s') \<and> active s' = active s \<and>
      (devs s' = devs s \<or> devs s' = (devs s)(d \<mapsto> f dv))"
    by (simp add: start_stream_def mode_request_run create_transfer_thread_def f Let_def)
  then obtain r s' where run: "start_stream H d m f ep cb s = Some (r, s')" and
    s': "active s' = active s" "devs s' = devs s \<or> devs s' = (devs s)(d \<mapsto> f dv)" by blast
  have "callbacks_ok s'"
  proof (rule callbacks_okI [OF ok lib_ok_evolves [OF ok(1) ev [OF run]]])
    fix d' dv' ts assume "devs s' d' = Some dv'" "transfers dv' = Some ts" "callback dv' = NULL"
    moreover have "set ts \<inter> active s = {}" if "transfers dv = Some ts" "callback dv = NULL"
      using callbacks_ok_iff [OF ok(1)] ok(2) dv that by blast
    ultimately show "devs s d' = Some dv' \<and> set ts \<inter> active s' \<subseteq> active s \<or> set ts \<inter> active s' = {}"
      using s' f(1,3) [of dv] by (cases "d' = d") auto
  qed
  with run show ?thesis by blast
next
  case False
  from start_stream_runs [OF ok(1) dv False, of f H m ep cb] f False obtain r s' dv' where
    run: "start_stream H d m f ep cb s = Some (r, s')" "devs s' d = Some dv'" and
    same: "\<And>d'. d' \<noteq> d \<Longrightarrow> devs s' d' = devs s d'"
      "active s' \<subseteq> active s \<union> {t. \<exists>ts. transfers dv = Some ts \<and> t \<in> set ts}" and
    cb: "callback dv' = cb \<or> devs s' = devs s \<and> active s' = active s"
    using host(1) by auto
  have ok': "lib_ok s'" by (rule lib_ok_evolves [OF ok(1) ev [OF run(1)]])
  have "callbacks_ok s'"
  proof (rule callbacks_okI [OF ok ok'])
    fix d' dv2 ts assume d': "devs s' d' = Some dv2" "transfers dv2 = Some ts" "callback dv2 = NULL"
    show "devs s d' = Some dv2 \<and> set ts \<inter> active s' \<subseteq> active s \<or> set ts \<inter> active s' = {}"
    proof (cases "d' = d")
      case True
      with d' cb host(2) run(2) show ?thesis by auto
    next
      case False
      then have d0: "devs s d' = Some dv2" using d'(1) same(1) by simp
      moreover have "t \<in> active s" if t: "t \<in> set ts" "t \<in> active s'" for t
      proof (rule ccontr)
        assume "t \<notin> active s"
        with t(2) same(2) obtain ts0 where "transfers dv = Some ts0" "t \<in> set ts0" by blast
        with slot_of [OF ok(1) dv] slot_of [OF ok(1) d0 d'(2) t(1)] False show False by force
      qed
      ultimately show ?thesis by blast
    qed
  qed
  with run show ?thesis by blast
qed

lemma callbacks_ok_same:
  assumes "lib_ok s" "callbacks_ok s" "lib_ok s'" "devs s' = devs s" "active s' = active s"
  shows "callbacks_ok s'"
  by (rule callbacks_okI [OF assms(1-3)]) (simp add: assms(4,5))

lemma legal_call_runs:
  assumes ok: "lib_ok s" "callbacks_ok s" and host: "accepting H" and c: "legal H s c"
  shows "\<exists>s'. perform H c s = Some s' \<and> callbacks_ok s'"
proof (cases c)
  case Init
  have "\<exists>r s'. hackrf_init H s = Some (r, s')"
    by (simp add: hackrf_init_def fail_libusb_def Let_def)
  then obtain r s' where "hackrf_init H s = Some (r, s')" by blast
  with init_exit_ok(1) [OF ok(1) this] callbacks_ok_same [OF ok] show ?thesis by (auto simp: Init)
next
  case Exit
  have "\<exists>r s'. hackrf_exit H s = Some (r, s')"
    by (simp add: hackrf_exit_def)
  then obtain r s' where "hackrf_exit H s = Some (r, s')" by blast
  with init_exit_ok(2) [OF ok(1) this] callbacks_ok_same [OF ok] show ?thesis by (auto simp: Exit)
next
  case (Open v)
  have "\<exists>e out s'. hackrf_open H v s = Some ((e, out), s')"
    using hackrf_open_outcome [OF ok(1)] by (cases v) (simp add: hackrf_open_def, blast)
  then show ?thesis
    using open_opened [OF ok(1)] callbacks_ok_opened [OF ok] ok(2) by (fastforce simp: Open)
next
  case (Open_by_serial n v)
  have "\<exists>e out s'. hackrf_open H v s = Some ((e, out), s')"
    using hackrf_open_outcome [OF ok(1)] by (cases v) (simp add: hackrf_open_def, blast)
  then show ?thesis
    using open_opened [OF ok(1)] callbacks_ok_opened [OF ok] ok(2) c
    by (fastforce simp: Open_by_serial legal_def hackrf_open_by_serial_def)
next
  case (Close d)
  with c obtain dv where "devs s d = Some dv" by (auto simp: legal_def)
  from close_runs [OF ok this, of H] show ?thesis by (auto simp: Close)
next
  case (Start_rx d cb ctx)
  with c obtain dv where dv: "devs s d = Some dv" and cb: "cb \<noteq> NULL" by (auto simp: legal_def)
  show ?thesis
    using start_stream_callbacks [OF ok dv host cb, of "rx_ctx_update (\<lambda>_. ctx)" HACKRF_TRANSCEIVER_MODE_RECEIVE "0x81"]
      start_evolves(1) [of H d cb ctx s] by (auto simp: Start_rx start_streams)
next
  case (Start_tx d cb ctx)
  with c obtain dv where dv: "devs s d = Some dv" and cb: "cb \<noteq> NULL" by (auto simp: legal_def)
  show ?thesis
    using start_stream_callbacks [OF ok dv host cb, of "tx_ctx_update (\<lambda>_. ctx)" HACKRF_TRANSCEIVER_MODE_TRANSMIT "0x02"]
      start_evolves(2) [of H d cb ctx s] by (auto simp: Start_tx start_streams)
next
  case (Stop_rx d)
  with c obtain dv where "devs s d = Some dv" by (auto simp: legal_def)
  from stop_rx_runs [OF ok this, of H] show ?thesis by (auto simp: Stop_rx)
next
  case (Stop_tx d)
  with c obtain dv where "devs s d = Some dv" by (auto simp: legal_def)
  from stop_rx_runs [OF ok this, of H] show ?thesis by (auto simp: Stop_tx stop_tx_is_stop_rx)
next
  case (Is_streaming d)
  with c obtain dv where "devs s d = Some dv" by (auto simp: legal_def)
  with ok(2) show ?thesis by (simp add: Is_streaming hackrf_is_streaming_def)
next
  case (Request d r)
  with c have r: "d \<in> dom (devs s)" "buffers_fit H r" by (simp_all add: legal_def)
  then obtain s' where s': "run_request H d r s = Some s'"
    using run_request_runs on_bus_ok [OF ok(1) r(1)] by blast
  then have conf: "confined s s'" by (rule run_request_confined)
  with s' callbacks_ok_same [OF ok lib_ok_evolves [OF ok(1) confined_evolves [OF conf]]] show ?thesis
    by (simp add: Request confinedD [OF conf])
qed

lemma legal_not_null: "lib_ok s \<Longrightarrow> legal H s c \<Longrightarrow> c \<noteq> Close NULL"
  using names_okD(1) [OF lib_okD(6), of s NULL] by (auto simp: legal_def)

lemma proper_ok:
  assumes "accepting H" "proper H s"
  shows "lib_ok s \<and> callbacks_ok s"
  using assms(2)
proof (induction rule: proper.induct)
  case start
  show ?case by (simp add: lib_ok_init)
next
  case (call s c s')
  then have ok: "lib_ok s" "callbacks_ok s" by simp_all
  from legal_call_runs [OF ok assms(1) call(2)] call(3) have "callbacks_ok s'" by auto
  with perform_lib_ok [OF ok(1) legal_not_null [OF ok(1) call(2)] call(3)] show ?case by simp
next
  case (event s d dv b s')
  then have ok: "lib_ok s" "callbacks_ok s" by simp_all
  have "flags_only s s'" using thread_pass_outcome [OF ok(2) event(2), of H] event(4) by auto
  moreover have "lib_ok s'" by (rule lib_ok_evolves [OF ok(1) thread_pass_evolves [OF event(4) lib_okD(5) [OF ok(1)]]])
  ultimately show ?case using callbacks_ok_flags [OF ok(2)] by simp
qed


text \<open>A device that is opened, set to receive, and closed.\<close>

lemma opened_proper: "proper (steady_host 0) opened_lib"
proof -
  have "legal (steady_host 0) init_lib (Open (Some 0))" by (simp add: legal_def)
  moreover have "perform (steady_host 0) (Open (Some 0)) init_lib = Some opened_lib"
    using opened_lib_run by (auto simp: opened_lib_def)
  ultimately show ?thesis by (rule proper.call [OF proper.start])
qed



end
