(* ===== verification/Enumeration.thy ===== *)
theory Enumeration
  imports Library_Invariant
begin

text \<open>
  The list of attached boards (\<open>hackrf_device_list\<close>, its release, and opening by position in
  the list), and the names that the library gives to errors, boards and filter paths. The
  results: the list holds exactly the HackRFs among the USB devices, in order, every handle
  opened on the way is closed again, and opening by position opens the board that is listed.
\<close>

section \<open>Names\<close>

datatype hackrf_board_id =
    BOARD_ID_JELLYBEAN
  | BOARD_ID_JAWBREAKER
  | BOARD_ID_HACKRF_ONE
  | BOARD_ID_RAD1O
  | BOARD_ID_INVALID

fun board_id_code :: "hackrf_board_id \<Rightarrow> u8" where
  "board_id_code BOARD_ID_JELLYBEAN = 0"
| "board_id_code BOARD_ID_JAWBREAKER = 1"
| "board_id_code BOARD_ID_HACKRF_ONE = 2"
| "board_id_code BOARD_ID_RAD1O = 3"
| "board_id_code BOARD_ID_INVALID = 0xFF"

definition hackrf_board_id_name :: "u8 \<Rightarrow> string" where
  "hackrf_board_id_name board_id =
     (if board_id = board_id_code BOARD_ID_JELLYBEAN then ''Jellybean''
      else if board_id = board_id_code BOARD_ID_JAWBREAKER then ''Jawbreaker''
      else if board_id = board_id_code BOARD_ID_HACKRF_ONE then ''HackRF One''
      else if board_id = board_id_code BOARD_ID_RAD1O then ''rad1o''
      else if board_id = board_id_code BOARD_ID_INVALID then ''Invalid Board ID''
      else ''Unknown Board ID'')"

datatype hackrf_usb_board_id =
    USB_BOARD_ID_JAWBREAKER
  | USB_BOARD_ID_HACKRF_ONE
  | USB_BOARD_ID_RAD1O
  | USB_BOARD_ID_INVALID

fun usb_board_id_code :: "hackrf_usb_board_id \<Rightarrow> u16" where
  "usb_board_id_code USB_BOARD_ID_JAWBREAKER = 0x604B"
| "usb_board_id_code USB_BOARD_ID_HACKRF_ONE = 0x6089"
| "usb_board_id_code USB_BOARD_ID_RAD1O = 0xCC15"
| "usb_board_id_code USB_BOARD_ID_INVALID = 0xFFFF"

definition hackrf_usb_board_id_name :: "u16 \<Rightarrow> string" where
  "hackrf_usb_board_id_name usb_board_id =
     (if usb_board_id = usb_board_id_code USB_BOARD_ID_JAWBREAKER then ''Jawbreaker''
      else if usb_board_id = usb_board_id_code USB_BOARD_ID_HACKRF_ONE then ''HackRF One''
      else if usb_board_id = usb_board_id_code USB_BOARD_ID_RAD1O then ''rad1o''
      else if usb_board_id = usb_board_id_code USB_BOARD_ID_INVALID then ''Invalid Board ID''
      else ''Unknown Board ID'')"

definition hackrf_filter_path_name :: "u32 \<Rightarrow> string" where
  "hackrf_filter_path_name path =
     (if path = 0 then ''mixer bypass''
      else if path = 1 then ''low pass filter''
      else if path = 2 then ''high pass filter''
      else ''invalid filter path'')"

text \<open>
  \<open>strerror\<close> is \<open>libusb_strerror\<close> where the library was compiled with a libusb that has it,
  and \<open>None\<close> otherwise.
\<close>

definition hackrf_error_name :: "(int \<Rightarrow> string) option \<Rightarrow> int \<Rightarrow> lib \<Rightarrow> string" where
  "hackrf_error_name strerror errcode s =
     (if errcode = error_code HACKRF_SUCCESS then ''HACKRF_SUCCESS''
      else if errcode = error_code HACKRF_TRUE then ''HACKRF_TRUE''
      else if errcode = error_code HACKRF_ERROR_INVALID_PARAM then ''invalid parameter(s)''
      else if errcode = error_code HACKRF_ERROR_NOT_FOUND then ''HackRF not found''
      else if errcode = error_code HACKRF_ERROR_BUSY then ''HackRF busy''
      else if errcode = error_code HACKRF_ERROR_NO_MEM then ''insufficient memory''
      else if errcode = error_code HACKRF_ERROR_LIBUSB
      then (case strerror of
              Some f \<Rightarrow> if last_libusb_error s \<noteq> LIBUSB_SUCCESS then f (last_libusb_error s) else ''USB error''
            | None \<Rightarrow> ''USB error'')
      else if errcode = error_code HACKRF_ERROR_THREAD then ''transfer thread error''
      else if errcode = error_code HACKRF_ERROR_STREAMING_THREAD_ERR then ''streaming thread encountered an error''
      else if errcode = error_code HACKRF_ERROR_STREAMING_STOPPED then ''streaming stopped''
      else if errcode = error_code HACKRF_ERROR_STREAMING_EXIT_CALLED then ''streaming terminated''
      else if errcode = error_code HACKRF_ERROR_USB_API_VERSION then ''feature not supported by installed firmware''
      else if errcode = error_code HACKRF_ERROR_NOT_LAST_DEVICE then ''one or more HackRFs still in use''
      else if errcode = error_code HACKRF_ERROR_OTHER then ''unspecified error''
      else ''unknown error code'')"

section \<open>The device list\<close>

text \<open>\<open>struct hackrf_device_list\<close>; a null serial number is \<open>None\<close>.\<close>

record device_list =
  serial_numbers :: "u8 list option list"
  usb_board_ids :: "u16 list"
  usb_device_index :: "nat list"
  devicecount :: nat
  usb_devices :: "ptr list"
  usb_devicecount :: int

text \<open>
  The serial number of an open board: \<open>serial_number_length\<close> has 8 bits here, so that an error
  code of libusb counts as a long serial number and no access leaves the array. The copy by
  \<open>strdup\<close> ends at the first null byte.
\<close>

definition list_serial ::
  "host \<Rightarrow> ptr \<Rightarrow> u8 \<Rightarrow> u8 list \<Rightarrow> lib \<Rightarrow> ((u8 list option \<times> u8 list) \<times> lib) option" where
  "list_serial H h i serial_number s =
     do { (r, s) \<leftarrow> on_handle H h (Usb_get_string_descriptor h i 64) s;
          let serial_number = overlay (bytes r) 64 serial_number;
          let n = (of_int (rc r) :: u8);
          let n = (if n \<ge> of_nat USB_MAX_SERIAL_LENGTH then of_nat USB_MAX_SERIAL_LENGTH else n);
          (_, s) \<leftarrow> ub_unless (unat n < length serial_number) s;
          let serial_number = serial_number[unat n := 0];
          (m, s) \<leftarrow> invoke H C_malloc s;
          Some ((if ptr_ok m then Some (takeWhile (\<lambda>c. c \<noteq> 0) serial_number) else None, serial_number), s) }"

text \<open>\<open>idx\<close> has 8 bits as well.\<close>

definition list_device :: "device_descriptor \<Rightarrow> nat \<Rightarrow> device_list \<Rightarrow> nat \<times> device_list" where
  "list_device dd i l =
     (let idx = devicecount l mod 256
      in (idx, l\<lparr>usb_board_ids := (usb_board_ids l)[idx := idProduct dd],
                 usb_device_index := (usb_device_index l)[idx := i],
                 devicecount := Suc (devicecount l)\<rparr>))"

fun device_list_loop ::
  "host \<Rightarrow> nat list \<Rightarrow> u8 list \<Rightarrow> device_list \<Rightarrow> lib \<Rightarrow> (device_list \<times> lib) option" where
  "device_list_loop H [] buf l s = Some (l, s)"
| "device_list_loop H (i # is) buf l s =
     do { (_, s) \<leftarrow> ub_unless (i < length (usb_devices l)) s;
          (r, s) \<leftarrow> invoke H (Usb_get_device_descriptor (usb_devices l ! i)) s;
          if is_hackrf (desc r)
          then let (idx, l) = list_device (desc r) i l in
               if iSerialNumber (desc r) > 0
               then do { ((ro, h), s) \<leftarrow> libusb_open_handle H (Usb_open (usb_devices l ! i)) (\<lambda>r. rc r = 0) s;
                         if rc ro \<noteq> 0 then device_list_loop H is buf l s
                         else do { ((serial, buf), s) \<leftarrow> list_serial H h (iSerialNumber (desc r)) buf s;
                                   (_, s) \<leftarrow> libusb_close H h s;
                                   device_list_loop H is buf
                                     (l\<lparr>serial_numbers := (serial_numbers l)[idx := serial]\<rparr>) s } }
               else device_list_loop H is buf l s
          else device_list_loop H is buf l s }"

definition hackrf_device_list_free :: "host \<Rightarrow> lib \<Rightarrow> (unit \<times> lib) option" where
  "hackrf_device_list_free H s = do { (_, s) \<leftarrow> invoke H Usb_free_device_list s; Some ((), s) }"

text \<open>
  The four allocations come first; \<open>usb_devices\<close> stays null when libusb reports an error. The
  result is \<open>None\<close> for the null pointer.
\<close>

definition hackrf_device_list :: "host \<Rightarrow> lib \<Rightarrow> (device_list option \<times> lib) option" where
  "hackrf_device_list H s =
     do { (m, s) \<leftarrow> invoke H C_calloc s;
          if \<not> ptr_ok m then Some (None, s)
          else do { (r, s) \<leftarrow> invoke H Usb_get_device_list s;
                    (_, s) \<leftarrow> ub_unless (nat (rc r) \<le> length (devices r)) s;
                    let n = nat (rc r);
                    (m1, s) \<leftarrow> invoke H C_calloc s;
                    (m2, s) \<leftarrow> invoke H C_calloc s;
                    (m3, s) \<leftarrow> invoke H C_calloc s;
                    if \<not> ptr_ok m1 \<or> \<not> ptr_ok m2 \<or> \<not> ptr_ok m3
                    then do { (_, s) \<leftarrow> hackrf_device_list_free H s; Some (None, s) }
                    else do { (l, s) \<leftarrow> device_list_loop H [0..<n] (map (stack H) [0..<64])
                                \<lparr>serial_numbers = replicate n None, usb_board_ids = replicate n 0,
                                 usb_device_index = replicate n 0, devicecount = 0,
                                 usb_devices = take n (devices r), usb_devicecount = rc r\<rparr> s;
                              Some (Some l, s) } } }"

definition hackrf_device_list_open ::
  "host \<Rightarrow> device_list option \<Rightarrow> int \<Rightarrow> ptr option \<Rightarrow> lib \<Rightarrow> ((hackrf_error \<times> ptr option) \<times> lib) option" where
  "hackrf_device_list_open H list idx device s =
     (case (device, list) of
        (Some v, Some l) \<Rightarrow>
          if idx < 0 \<or> idx \<ge> int (devicecount l) then Some ((HACKRF_ERROR_INVALID_PARAM, Some v), s)
          else do { (_, s) \<leftarrow> ub_unless (nat idx < length (usb_device_index l)) s;
                    let i = usb_device_index l ! nat idx;
                    (_, s) \<leftarrow> ub_unless (i < length (usb_devices l)) s;
                    ((r, h), s) \<leftarrow> libusb_open_handle H (Usb_open (usb_devices l ! i)) (\<lambda>r. rc r = 0) s;
                    if rc r \<noteq> 0 then do { (e, s) \<leftarrow> fail_libusb (rc r) s; Some ((e, Some v), s) }
                    else do { ((e, v), s) \<leftarrow> hackrf_open_setup H h v s; Some ((e, Some v), s) } }
      | _ \<Rightarrow> Some ((HACKRF_ERROR_INVALID_PARAM, device), s))"

section \<open>A host with one board\<close>

definition board_host :: host where
  "board_host = (steady_host 0)\<lparr>answer := \<lambda>_ c. case c of
     Usb_get_device_list \<Rightarrow> (steady_reply 1)\<lparr>devices := [77]\<rparr> | _ \<Rightarrow> steady_reply 0\<rparr>"

lemma board_host_simps [simp]:
  "answer board_host tr Usb_get_device_list = (steady_reply 1)\<lparr>devices := [77]\<rparr>"
  "c \<noteq> Usb_get_device_list \<Longrightarrow> answer board_host tr c = steady_reply 0"
  "stack board_host i = 0"
  by (cases c; simp add: board_host_def steady_host_def)+

lemma board_list_run:
  "\<exists>l s'. hackrf_device_list board_host init_lib = Some (Some l, s') \<and> usb_devices l = [77]"
  by (simp add: hackrf_device_list_def list_device_def list_serial_def is_hackrf_def hackrf_usb_vid_def hackrf_one_usb_pid_def
      libusb_open_handle_def libusb_close_def on_handle_def overlay_def USB_MAX_SERIAL_LENGTH_def sample_descriptor_def Let_def)

definition one_board :: device_list where
  "one_board = \<lparr>serial_numbers = [None], usb_board_ids = [0x6089], usb_device_index = [0], devicecount = 1,
     usb_devices = [77], usb_devicecount = 1\<rparr>"

section \<open>What the list holds\<close>

text \<open>libusb documents that a device's descriptor is read once and cached.\<close>

definition cached_descriptors :: "host \<Rightarrow> (ptr \<Rightarrow> device_descriptor) \<Rightarrow> bool" where
  "cached_descriptors H D \<longleftrightarrow> (\<forall>tr d. desc (answer H tr (Usb_get_device_descriptor d)) = D d)"

lemma list_serial_runs:
  assumes "h \<in> handles s" "length buf = 64"
  shows "\<exists>serial buf' s'. list_serial H h i buf s = Some ((serial, buf'), s') \<and> confined s s' \<and> length buf' = 64"
proof -
  have "unat (if of_nat USB_MAX_SERIAL_LENGTH \<le> n then of_nat USB_MAX_SERIAL_LENGTH else n) < 64" for n :: u8
    by (simp add: USB_MAX_SERIAL_LENGTH_def word_le_nat_alt)
  with assms show ?thesis
    by (auto simp: list_serial_def on_handle_def Let_def)
qed

text \<open>The entries of a list that count.\<close>

definition listed :: "device_list \<Rightarrow> (nat \<times> u16) list" where
  "listed l = zip (take (devicecount l) (usb_device_index l)) (take (devicecount l) (usb_board_ids l))"

definition room :: "nat \<Rightarrow> device_list \<Rightarrow> bool" where
  "room k l \<longleftrightarrow> devicecount l + k \<le> length (usb_device_index l) \<and>
     length (usb_board_ids l) = length (usb_device_index l) \<and> devicecount l + k \<le> 256"

lemma list_device_listed:
  assumes "room (Suc k) l" "list_device dd i l = (idx, l')"
  shows "listed l' = listed l @ [(i, idProduct dd)]" "room k l'" "usb_devices l' = usb_devices l"
    "length (serial_numbers l') = length (serial_numbers l)"
  using assms by (auto simp: list_device_def listed_def room_def Let_def take_Suc_conv_app_nth)

lemma listed_serial [simp]:
  "listed (l\<lparr>serial_numbers := x\<rparr>) = listed l" "room k (l\<lparr>serial_numbers := x\<rparr>) = room k l"
  by (simp_all add: listed_def room_def)

definition hackrfs :: "(ptr \<Rightarrow> device_descriptor) \<Rightarrow> ptr list \<Rightarrow> nat list \<Rightarrow> (nat \<times> u16) list" where
  "hackrfs D ds is = map (\<lambda>i. (i, idProduct (D (ds ! i)))) (filter (\<lambda>i. is_hackrf (D (ds ! i))) is)"

lemma hackrfs_simps [simp]:
  "hackrfs D ds [] = []"
  "hackrfs D ds (i # is) =
     (if is_hackrf (D (ds ! i)) then (i, idProduct (D (ds ! i))) # hackrfs D ds is else hackrfs D ds is)"
  by (simp_all add: hackrfs_def)

lemma device_list_loop_outcome:
  assumes D: "cached_descriptors H D"
  shows "lib_ok s \<Longrightarrow> length buf = 64 \<Longrightarrow> room (length is) l \<Longrightarrow> \<forall>i \<in> set is. i < length (usb_devices l) \<Longrightarrow>
    \<exists>l' s'. device_list_loop H is buf l s = Some (l', s') \<and> searched NULL s s' \<and>
      usb_devices l' = usb_devices l \<and> listed l' = listed l @ hackrfs D (usb_devices l) is \<and>
      room 0 l' \<and> length (serial_numbers l') = length (serial_numbers l)"
proof (induction "is" arbitrary: buf l s)
  case Nil
  then show ?case by (simp add: searched_def room_def)
next
  case (Cons i "is")
  let ?dd = "D (usb_devices l ! i)"
  let ?s1 = "s\<lparr>trace := trace s @ [Usb_get_device_descriptor (usb_devices l ! i)]\<rparr>"
  note D = D [unfolded cached_descriptors_def, rule_format]
  have first: "searched NULL s ?s1" by (rule searched_confined [OF Cons.prems(1)]) simp
  note ok1 = searched_ok [OF first]
  show ?case
  proof (cases "is_hackrf ?dd")
    case False
    have "room (length is) l" using Cons.prems(3) by (simp add: room_def)
    with Cons.IH [OF ok1 Cons.prems(2), of l] Cons.prems(4) obtain l' s' where
      "device_list_loop H is buf l ?s1 = Some (l', s')" "searched NULL ?s1 s'" "usb_devices l' = usb_devices l"
      "listed l' = listed l @ hackrfs D (usb_devices l) is" "room 0 l'"
      "length (serial_numbers l') = length (serial_numbers l)" by auto
    with False Cons.prems(4) searched_trans [OF first] show ?thesis by (simp add: D)
  next
    case True
    obtain idx l1 where l1: "list_device ?dd i l = (idx, l1)" by fastforce
    have ls: "listed l1 = listed l @ [(i, idProduct ?dd)]" "room (length is) l1" "usb_devices l1 = usb_devices l"
      "length (serial_numbers l1) = length (serial_numbers l)"
      using list_device_listed [OF _ l1, of "length is"] Cons.prems(3) by simp_all
    have next1: "\<exists>l' s'. device_list_loop H is buf' l2 s2 = Some (l', s') \<and> searched NULL s s' \<and>
        usb_devices l' = usb_devices l \<and> listed l' = listed l @ hackrfs D (usb_devices l) (i # is) \<and>
        room 0 l' \<and> length (serial_numbers l') = length (serial_numbers l)"
      if "searched NULL s s2" "length buf' = 64"
        "l2 = l1 \<or> (\<exists>x. l2 = l1\<lparr>serial_numbers := x\<rparr> \<and> length x = length (serial_numbers l1))" for s2 buf' l2
    proof -
      have l2: "listed l2 = listed l1" "room (length is) l2" "usb_devices l2 = usb_devices l"
        "length (serial_numbers l2) = length (serial_numbers l)"
        using that(3) ls by auto
      from Cons.IH [OF searched_ok [OF that(1)] that(2) l2(2)] Cons.prems(4) l2(1,3,4) ls(1) True
      show ?thesis by (auto dest: searched_trans [OF that(1)])
    qed
    show ?thesis
    proof (cases "iSerialNumber ?dd > 0")
      case False
      with True l1 next1 [OF first Cons.prems(2)] Cons.prems(4) show ?thesis by (simp add: D)
    next
      case serial: True
      obtain ro h s2 where op: "libusb_open_handle H (Usb_open (usb_devices l1 ! i)) (\<lambda>r. rc r = 0) ?s1 = Some ((ro, h), s2)"
        using open_handle_outcome [OF ok1] by blast
      note se = open_handle_searched [OF ok1 op]
      show ?thesis
      proof (cases "rc ro = 0")
        case False
        with se have "searched NULL s s2" using searched_trans [OF first] by simp
        from next1 [OF this Cons.prems(2)] True serial l1 op False Cons.prems(4) show ?thesis by (simp add: D)
      next
        case ok: True
        then have h: "h \<noteq> NULL" "h \<in> handles s2" using se by (auto simp: searched_def)
        obtain sn buf' s3 where s3: "list_serial H h (iSerialNumber ?dd) buf s2 = Some ((sn, buf'), s3)"
          "confined s2 s3" "length buf' = 64"
          using list_serial_runs [OF h(2) Cons.prems(2)] by blast
        have se3: "searched h ?s1 s3" by (rule searched_ready [OF se(1) h(1) s3(2)])
        have "h \<in> handles s3" using h(2) confinedD(3) [OF s3(2)] by simp
        then obtain s4 where s4: "libusb_close H h s3 = Some ((), s4)"
          by (auto simp: libusb_close_def on_handle_def)
        have "searched NULL s s4"
          by (rule searched_trans [OF first searched_close [OF se3 h(1) s4]])
        from next1 [OF this s3(3), of "l1\<lparr>serial_numbers := (serial_numbers l1)[idx := sn]\<rparr>", OF disjI2, OF exI, OF conjI [OF refl length_list_update]] True serial l1 op ok s3(1) s4 Cons.prems(4) show ?thesis by (simp add: D)
      qed
    qed
  qed
qed

lemma no_room [simp]: "room n (\<lparr>serial_numbers = a, usb_board_ids = replicate n 0, usb_device_index = replicate n 0,
    devicecount = 0, usb_devices = ds, usb_devicecount = c\<rparr>) \<longleftrightarrow> n \<le> 256"
  by (simp add: room_def)

text \<open>A list as \<open>hackrf_device_list\<close> builds it: every entry that counts lies inside the arrays.\<close>

definition list_ok :: "device_list \<Rightarrow> bool" where
  "list_ok l \<longleftrightarrow> devicecount l \<le> length (usb_device_index l) \<and> devicecount l \<le> length (serial_numbers l) \<and>
     (\<forall>i < devicecount l. usb_device_index l ! i < length (usb_devices l))"

lemma list_okI:
  assumes "listed l = hackrfs D (usb_devices l) [0..<length (usb_devices l)]" "room 0 l"
    and "length (serial_numbers l) = length (usb_devices l)"
  shows "list_ok l"
proof -
  have n: "length (listed l) = devicecount l" using assms(2) by (simp add: listed_def room_def)
  have fst: "fst (listed l ! i) = usb_device_index l ! i" if "i < devicecount l" for i
    using that assms(2) by (simp add: listed_def room_def)
  have "fst (listed l ! i) < length (usb_devices l)" if "i < devicecount l" for i
    using nth_mem [of i "listed l"] that n unfolding assms(1) hackrfs_def by auto
  moreover have "length (listed l) \<le> length (usb_devices l)"
    unfolding assms(1) hackrfs_def using length_filter_le [of _ "[0..<length (usb_devices l)]"] by simp
  ultimately show ?thesis using assms(2,3) n fst by (simp add: list_ok_def room_def)
qed

lemma device_list_run:
  assumes "lib_ok s" "cached_descriptors H D"
    and "\<And>tr. let r = answer H tr Usb_get_device_list in rc r \<le> 256 \<and> rc r \<le> int (length (devices r))"
  shows "\<exists>l s'. hackrf_device_list H s = Some (l, s') \<and> lib_ok s' \<and> devs s' = devs s \<and> handles s' = handles s \<and>
    open_devices s' = open_devices s \<and> active s' \<subseteq> active s \<and>
    (\<forall>x. l = Some x \<longrightarrow> listed x = hackrfs D (usb_devices x) [0..<length (usb_devices x)] \<and> list_ok x) \<and>
    ((\<forall>tr. ptr_ok (answer H tr C_calloc)) \<longrightarrow> l \<noteq> None)"
proof -
  let ?r = "answer H (trace s @ [C_calloc]) Usb_get_device_list"
  let ?n = "nat (rc ?r)"
  let ?cs = "[C_calloc, Usb_get_device_list, C_calloc, C_calloc, C_calloc]"
  let ?s1 = "s\<lparr>trace := trace s @ ?cs\<rparr>"
  let ?l0 = "\<lparr>serial_numbers = replicate ?n None, usb_board_ids = replicate ?n 0, usb_device_index = replicate ?n 0,
    devicecount = 0, usb_devices = take ?n (devices ?r), usb_devicecount = rc ?r\<rparr>"
  have n: "?n \<le> 256" "?n \<le> length (devices ?r)" using assms(3) [of "trace s @ [C_calloc]"] by (auto simp: Let_def)
  have se: "searched NULL s (s\<lparr>trace := trace s @ cs\<rparr>)" for cs by (rule searched_confined [OF assms(1)]) simp
  obtain l' s' where loop: "device_list_loop H [0..<?n] (map (stack H) [0..<64]) ?l0 ?s1 = Some (l', s')"
    "searched NULL ?s1 s'" "usb_devices l' = take ?n (devices ?r)"
    "listed l' = listed ?l0 @ hackrfs D (take ?n (devices ?r)) [0..<?n]" "room 0 l'" "length (serial_numbers l') = ?n"
    using device_list_loop_outcome [OF assms(2) searched_ok [OF se], of "map (stack H) [0..<64]" "[0..<?n]" ?l0 ?cs] n by auto
  have empty: "listed ?l0 = []" by (simp add: listed_def)
  have same: "lib_ok (s\<lparr>trace := trace s @ cs\<rparr>)" for cs by (rule searched_ok [OF se])
  have fin: "lib_ok s'" "devs s' = devs s" "handles s' = handles s" "open_devices s' = open_devices s" "active s' \<subseteq> active s"
    using searched_trans [OF se loop(2)] by (simp_all add: searched_def)
  show ?thesis
  proof (cases "ptr_ok (answer H (trace s) C_calloc) \<and> ptr_ok (answer H (trace s @ [C_calloc, Usb_get_device_list]) C_calloc) \<and>
      ptr_ok (answer H (trace s @ [C_calloc, Usb_get_device_list, C_calloc]) C_calloc) \<and>
      ptr_ok (answer H (trace s @ [C_calloc, Usb_get_device_list, C_calloc, C_calloc]) C_calloc)")
    case True
    have len: "length (usb_devices l') = ?n" using loop(3) n(2) by simp
    have "list_ok l'" by (rule list_okI [of _ D]) (use loop(3-6) len empty in simp_all)
    moreover have "hackrf_device_list H s = Some (Some l', s')"
      using True loop(1) n(2) by (simp add: hackrf_device_list_def)
    ultimately show ?thesis using fin loop(3,4) empty len by simp
  next
    case False
    then have "\<exists>cs. hackrf_device_list H s = Some (None, s\<lparr>trace := trace s @ cs\<rparr>)"
      using n(2) by (auto simp: hackrf_device_list_def hackrf_device_list_free_def)
    with False same show ?thesis by auto
  qed
qed

text \<open>
  C9. With at most 256 USB devices, \<open>hackrf_device_list\<close> in a well-formed state is defined and
  changes none of the library's devices and handles: each handle that it opens to read a serial
  number is closed again. When it returns a list, the entries that count are exactly the
  HackRFs among the USB devices, in their order, each with its position among them and its
  product id.
\<close>

theorem device_list_is_complete:
  assumes "lib_ok s" "cached_descriptors H D"
    and "\<And>tr. let r = answer H tr Usb_get_device_list in rc r \<le> 256 \<and> rc r \<le> int (length (devices r))"
  shows "\<exists>l s'. hackrf_device_list H s = Some (l, s') \<and> lib_ok s' \<and> devs s' = devs s \<and> handles s' = handles s \<and>
    open_devices s' = open_devices s \<and>
    (\<forall>x. l = Some x \<longrightarrow> listed x = hackrfs D (usb_devices x) [0..<length (usb_devices x)])"
  using device_list_run [OF assms] by blast

theorem device_list_is_complete_witness:
  "\<exists>l s'. hackrf_device_list board_host init_lib = Some (Some l, s') \<and> listed l = [(0, 0x6089)] \<and> handles s' = {}"
proof -
  have "cached_descriptors board_host (\<lambda>_. sample_descriptor)"
    by (simp add: cached_descriptors_def)
  moreover have "let r = answer board_host tr Usb_get_device_list in rc r \<le> 256 \<and> rc r \<le> int (length (devices r))" for tr
    by (simp add: Let_def)
  ultimately obtain l s' where ls: "hackrf_device_list board_host init_lib = Some (l, s')" "handles s' = {}"
    "\<forall>x. l = Some x \<longrightarrow> listed x = hackrfs (\<lambda>_. sample_descriptor) (usb_devices x) [0..<length (usb_devices x)]"
    using device_list_is_complete [OF lib_ok_init, of board_host "\<lambda>_. sample_descriptor"] by auto
  from board_list_run ls(1) obtain x where "l = Some x" "usb_devices x = [77]" by auto
  with ls show ?thesis
    by (intro exI [of _ x] exI [of _ s']) (simp add: is_hackrf_def sample_descriptor_def hackrf_usb_vid_def hackrf_one_usb_pid_def)
qed

section \<open>Opening a listed board\<close>

text \<open>Opening only appends to the trace.\<close>

definition extends :: "lib \<Rightarrow> lib \<Rightarrow> bool" where
  "extends s s' \<longleftrightarrow> (\<exists>cs. trace s' = trace s @ cs)"

lemma extends_refl [simp]: "extends s s"
  by (simp add: extends_def)

lemma extends_trans: "extends s t \<Longrightarrow> extends t u \<Longrightarrow> extends s u"
  by (auto simp: extends_def)

lemma extends_same [simp]: "trace s' = trace s @ cs \<Longrightarrow> extends s s'" "trace s' = trace s \<Longrightarrow> extends s s'"
  by (auto simp: extends_def)

lemma extends_confined: "confined s s' \<Longrightarrow> extends s s'"
  using confined_trace [of s s'] by (simp add: extends_def)

lemma alloc_transfer_extends: "libusb_alloc_transfer H s = Some (t, s') \<Longrightarrow> extends s s'"
  by (auto simp: libusb_alloc_transfer_def Let_def split: if_splits)

lemma mod_extends:
  "mod_dev d f s = Some (u, s') \<Longrightarrow> extends s s'"
  "mod_xfer t g s = Some (u, s') \<Longrightarrow> extends s s'"
  by (auto simp: mod_dev_def mod_xfer_def split: option.splits)

lemma allocate_loop_extends: "allocate_loop H d is s = Some (r, s') \<Longrightarrow> extends s s'"
proof (induction "is" arbitrary: s)
  case Nil
  then show ?case by simp
next
  case (Cons i "is")
  then show ?case
    by (auto simp: bind_pair_Some fail_libusb_def Let_def split: if_splits
      dest!: get_dev_confined alloc_transfer_extends mod_extends intro: extends_trans)
qed

lemma release_and_close_extends:
  "libusb_close H h s = Some (u, s') \<Longrightarrow> extends s s'"
  "release_and_close H h s = Some (u, s') \<Longrightarrow> extends s s'"
  by (auto simp: release_and_close_def libusb_close_def on_handle_def bind_pair_Some split: if_splits)

lemma allocate_transfers_extends: "allocate_transfers H d s = Some (r, s') \<Longrightarrow> extends s s'"
  by (auto simp: allocate_transfers_def bind_pair_Some extends_def split: if_splits
      dest!: get_dev_confined mod_extends allocate_loop_extends)

lemma attach_device_extends: "attach_device H h v s = Some (r, s') \<Longrightarrow> extends s s'"
  by (auto simp: attach_device_def bind_pair_Some Let_def extends_def split: if_splits
      dest!: allocate_transfers_extends release_and_close_extends)

lemma open_setup_extends:
  assumes h: "h \<in> handles s" and run: "hackrf_open_setup H h v s = Some (r, s')"
  shows "extends s s'"
proof -
  obtain e s1 where s1: "set_hackrf_configuration H h USB_CONFIG_STANDARD s = Some (e, s1)" "confined s s1"
    using set_hackrf_configuration_runs [OF h] by blast
  have "extends s1 s'"
    using run s1(1)
    by (auto simp: hackrf_open_setup_def bind_pair_Some on_handle_def fail_libusb_def extends_def split: if_splits
        dest!: attach_device_extends release_and_close_extends)
  then show ?thesis by (rule extends_trans [OF extends_confined [OF s1(2)]])
qed

lemma device_list_open_run:
  assumes "lib_ok s"
    and list: "\<And>i. i < devicecount l \<Longrightarrow> i < length (usb_device_index l) \<and> usb_device_index l ! i < length (usb_devices l)"
  shows "\<exists>e v' s'. hackrf_device_list_open H (Some l) idx (Some v) s = Some ((e, Some v'), s') \<and>
    (if 0 \<le> idx \<and> idx < int (devicecount l)
     then (\<exists>cs. trace s' = trace s @ Usb_open (usb_devices l ! (usb_device_index l ! nat idx)) # cs) \<and> opened e v v' s s'
     else e = HACKRF_ERROR_INVALID_PARAM \<and> v' = v \<and> s' = s)"
proof (cases "0 \<le> idx \<and> idx < int (devicecount l)")
  case False
  with assms(1) show ?thesis by (auto simp: hackrf_device_list_open_def)
next
  case True
  let ?i = "usb_device_index l ! nat idx"
  let ?c = "Usb_open (usb_devices l ! ?i)"
  have i: "nat idx < length (usb_device_index l)" "?i < length (usb_devices l)" using list [of "nat idx"] True by auto
  obtain r h s1 where op: "libusb_open_handle H ?c (\<lambda>r. rc r = 0) s = Some ((r, h), s1)"
    using open_handle_outcome [OF assms(1)] by blast
  note se = open_handle_searched [OF assms(1) op]
  have tr: "trace s1 = trace s @ [?c]" using op by (auto simp: libusb_open_handle_def split: if_splits)
  have run: "hackrf_device_list_open H (Some l) idx (Some v) s =
    (if rc r \<noteq> 0 then Some ((HACKRF_ERROR_LIBUSB, Some v), s1\<lparr>last_libusb_error := rc r\<rparr>)
     else do { ((e, v), s) \<leftarrow> hackrf_open_setup H h v s1; Some ((e, Some v), s) })"
    using True i op by (auto simp: hackrf_device_list_open_def fail_libusb_def)
  show ?thesis
  proof (cases "rc r = 0")
    case False
    with se have "searched NULL s (s1\<lparr>last_libusb_error := rc r\<rparr>)"
      using searched_trans [of s s1 NULL] searched_confined [of s1 "s1\<lparr>last_libusb_error := rc r\<rparr>"] by (auto dest: searched_ok)
    with False True run tr show ?thesis by (auto simp: searched_def opened_def)
  next
    case ok: True
    with se have ready: "handle_ready h s1" "h \<notin> handles s" "handles s1 = insert h (handles s)" "devs s1 = devs s"
      "open_devices s1 = open_devices s" "active s1 \<subseteq> active s" by (auto simp: searched_def)
    obtain e v' s' where set: "hackrf_open_setup H h v s1 = Some ((e, v'), s')"
      using open_setup_outcome [OF ready(1)] by blast
    have "opened e v v' s s'" by (rule opened_setup [OF ready set])
    moreover obtain cs where "trace s' = trace s1 @ cs"
      using open_setup_extends [OF handle_readyD(2) [OF ready(1)] set] by (auto simp: extends_def)
    ultimately show ?thesis using run ok True set tr
      by (auto simp: opened_def split: if_splits)
  qed
qed

text \<open>
  C10. \<open>hackrf_device_list_open\<close> refuses, without effect, a position outside the list. For a
  position in a list of \<open>hackrf_device_list\<close>, its first act is to open the USB device that is
  listed there; then, as for \<open>hackrf_open\<close>, it acquires one new idle device on a new handle or
  nothing.
\<close>

theorem device_list_open_opens_listed:
  assumes "lib_ok s" "devicecount l \<le> length (usb_device_index l)" "\<forall>i \<in> set (usb_device_index l). i < length (usb_devices l)"
  shows "\<exists>e v' s'. hackrf_device_list_open H (Some l) idx (Some v) s = Some ((e, Some v'), s') \<and> lib_ok s' \<and>
    (if 0 \<le> idx \<and> idx < int (devicecount l)
     then (\<exists>cs. trace s' = trace s @ Usb_open (usb_devices l ! (usb_device_index l ! nat idx)) # cs) \<and>
       (if e = HACKRF_SUCCESS
        then \<exists>h dv. devs s v' = None \<and> devs s' = (devs s)(v' \<mapsto> dv) \<and> usb_device dv = h \<and> idle dv \<and>
          h \<notin> handles s \<and> handles s' = insert h (handles s) \<and> open_devices s' = open_devices s + 1
        else v' = v \<and> devs s' = devs s \<and> handles s' = handles s \<and> open_devices s' = open_devices s)
     else e = HACKRF_ERROR_INVALID_PARAM \<and> v' = v \<and> s' = s)"
proof -
  have "usb_device_index l ! i < length (usb_devices l)" if "i < devicecount l" for i
    using assms(2,3) that by (simp add: less_le_trans)
  with device_list_open_run [OF assms(1), of l H idx v] assms(1,2) show ?thesis
    by (fastforce simp: opened_def)
qed

theorem device_list_open_opens_listed_witness:
  "\<exists>e v' s'. hackrf_device_list_open board_host (Some one_board) 0 (Some 0) init_lib = Some ((e, Some v'), s') \<and>
    (\<exists>cs. trace s' = Usb_open 77 # cs)"
  using device_list_open_opens_listed [OF lib_ok_init, of one_board board_host 0 0]
  by (fastforce simp: one_board_def)

section \<open>Error names\<close>

text \<open>
  \<open>hackrf_error_name\<close> has a proper name for every error code of the library, also for a
  libusb error with none recorded, and answers that the code is unknown for every other
  integer (given that libusb itself never describes an error by these words).
\<close>

theorem error_name_unknown_iff:
  assumes "\<And>f e. strerror = Some f \<Longrightarrow> f e \<noteq> ''unknown error code''"
  shows "hackrf_error_name strerror code s = ''unknown error code'' \<longleftrightarrow> code \<notin> range error_code"
proof
  assume unknown: "hackrf_error_name strerror code s = ''unknown error code''"
  show "code \<notin> range error_code"
  proof
    assume "code \<in> range error_code"
    then obtain e where "code = error_code e" by blast
    with unknown assms show False
      by (cases e) (auto simp: hackrf_error_name_def split: option.splits if_splits)
  qed
next
  assume "code \<notin> range error_code"
  then have "code \<noteq> error_code e" for e by blast
  then show "hackrf_error_name strerror code s = ''unknown error code''"
    by (simp add: hackrf_error_name_def del: error_code.simps)
qed

theorem error_name_unknown_iff_witness:
  "hackrf_error_name None 7 init_lib = ''unknown error code'' \<longleftrightarrow> (7 :: int) \<notin> range error_code"
  by (rule error_name_unknown_iff) simp

end
