(* ===== verification/Number_Parsing.thy ===== *)
theory Number_Parsing
  imports Host
begin

text \<open>
  The command-line number parser of hackrf_sweep.c: \<open>parse_u32\<close> and \<open>parse_u32_range\<close>, with
  the part of the C library they use (\<open>strtoul\<close> with a 64-bit \<open>unsigned long\<close>, in the C
  locale). A string is the list of its characters without the terminating null. The results are
  the round trips from the printed numbers.
\<close>

section \<open>The C library\<close>

definition isspace :: "u8 \<Rightarrow> bool" where
  "isspace c \<longleftrightarrow> c = 32 \<or> (9 \<le> c \<and> c \<le> 13)"

text \<open>The value of a digit or letter; 36 or more for anything else.\<close>

definition digit_value :: "u8 \<Rightarrow> nat" where
  "digit_value c =
     (if 48 \<le> c \<and> c \<le> 57 then unat c - 48
      else if 97 \<le> c \<and> c \<le> 122 then unat c - 87
      else if 65 \<le> c \<and> c \<le> 90 then unat c - 55
      else 36)"

fun digits_value :: "nat \<Rightarrow> nat \<Rightarrow> u8 list \<Rightarrow> nat" where
  "digits_value base a [] = a"
| "digits_value base a (c # cs) = digits_value base (a * base + digit_value c) cs"

text \<open>
  \<open>strtoul\<close>: the value and the rest of the string after the number, \<open>None\<close> for the rest when
  nothing was converted. White space, a sign and, in base 16, a prefix may come first; a value
  of more than 64 bits is \<open>ULONG_MAX\<close>, and a minus sign negates modulo \<open>2 ^ 64\<close>.
\<close>

definition strtoul :: "u8 list \<Rightarrow> nat \<Rightarrow> u64 \<times> u8 list option" where
  "strtoul s base =
     (let s1 = dropWhile isspace s;
          negative = (s1 \<noteq> [] \<and> hd s1 = 45);
          s2 = (if s1 \<noteq> [] \<and> (hd s1 = 45 \<or> hd s1 = 43) then tl s1 else s1);
          hex = (base = 16 \<and> length s2 > 2 \<and> s2 ! 0 = 48 \<and> (s2 ! 1 = 120 \<or> s2 ! 1 = 88) \<and> digit_value (s2 ! 2) < 16);
          s3 = (if hex then drop 2 s2 else s2);
          ds = takeWhile (\<lambda>c. digit_value c < base) s3;
          n = digits_value base 0 ds
      in if ds = [] then (0, None)
         else (if n \<ge> 2 ^ 64 then - 1 else if negative then - of_nat n else of_nat n,
               Some (dropWhile (\<lambda>c. digit_value c < base) s3)))"

section \<open>The parser\<close>

text \<open>The base and the string after a base prefix.\<close>

definition number_base :: "u8 list \<Rightarrow> nat \<times> u8 list" where
  "number_base s =
     (if length s > 2 \<and> s ! 0 = 48
      then if s ! 1 = 120 \<or> s ! 1 = 88 then (16, drop 2 s)
           else if s ! 1 = 98 \<or> s ! 1 = 66 then (2, drop 2 s)
           else (10, s)
      else (10, s))"

definition parse_u32 :: "u8 list \<Rightarrow> u32 \<Rightarrow> hackrf_error \<times> u32" where
  "parse_u32 s v =
     (let (base, s) = number_base s;
          (ulong_value, s_end) = strtoul s base
      in if s_end = Some [] then (HACKRF_SUCCESS, ucast ulong_value)
         else (HACKRF_ERROR_INVALID_PARAM, v))"

text \<open>The argument string is cut at its first colon. The result has both variables.\<close>

definition parse_u32_range :: "u8 list \<Rightarrow> u32 \<Rightarrow> u32 \<Rightarrow> hackrf_error \<times> u32 \<times> u32" where
  "parse_u32_range s value_min value_max =
     (if 58 \<notin> set s then (HACKRF_ERROR_INVALID_PARAM, value_min, value_max)
      else let low = takeWhile (\<lambda>c. c \<noteq> 58) s;
               high = tl (dropWhile (\<lambda>c. c \<noteq> 58) s);
               (result, value_min) = parse_u32 low value_min
           in if result \<noteq> HACKRF_SUCCESS then (result, value_min, value_max)
              else let (result, value_max) = parse_u32 high value_max
                   in if result \<noteq> HACKRF_SUCCESS then (result, value_min, value_max)
                      else (HACKRF_SUCCESS, value_min, value_max))"

section \<open>Printed numbers\<close>

definition digit_char :: "nat \<Rightarrow> u8" where
  "digit_char d = of_nat (if d < 10 then 48 + d else 87 + d)"

text \<open>The digits of a number in a base, most significant first, without leading zeros.\<close>

fun print_number :: "nat \<Rightarrow> nat \<Rightarrow> u8 list" where
  "print_number base n =
     (if base < 2 \<or> n < base then [digit_char n] else print_number base (n div base) @ [digit_char (n mod base)])"

declare print_number.simps [simp del]

lemma digit_value_char [simp]: "d < 36 \<Longrightarrow> digit_value (digit_char d) = d"
  by (auto simp: digit_value_def digit_char_def unat_of_nat word_le_nat_alt take_bit_nat_eq_self)

lemma digits_value_append: "digits_value base a (xs @ ys) = digits_value base (digits_value base a xs) ys"
  by (induction xs arbitrary: a) simp_all

lemma last_digit: "2 \<le> base \<Longrightarrow> base \<le> 36 \<Longrightarrow> digit_value (digit_char (n mod base)) = n mod base"
  by (rule digit_value_char) (rule less_le_trans [of _ base], simp_all)

lemma digits_value_print: "2 \<le> base \<Longrightarrow> base \<le> 36 \<Longrightarrow> digits_value base 0 (print_number base n) = n"
proof (induction n rule: less_induct)
  case (less n)
  then show ?case
    by (subst print_number.simps) (simp add: digits_value_append last_digit)
qed

lemma print_number_digits: "2 \<le> base \<Longrightarrow> base \<le> 36 \<Longrightarrow> \<forall>c \<in> set (print_number base n). digit_value c < base"
proof (induction n rule: less_induct)
  case (less n)
  show ?case
  proof (cases "n < base")
    case True
    with less.prems show ?thesis by (subst print_number.simps) simp
  next
    case False
    with less.prems have "n div base < n" by simp
    from less.IH [OF this] less.prems False show ?thesis
      by (subst print_number.simps) (simp add: last_digit)
  qed
qed

lemma print_number_not_Nil [simp]: "print_number base n \<noteq> []"
  by (subst print_number.simps) simp

lemma hd_print_number: "2 \<le> base \<Longrightarrow> base \<le> 36 \<Longrightarrow> digit_value (hd (print_number base n)) < base"
  using print_number_digits [of base n] by (metis list.set_sel(1) print_number_not_Nil)

text \<open>Digits are neither white space nor a sign nor a colon.\<close>

lemma digit_not_special:
  assumes "digit_value c < 36"
  shows "\<not> isspace c" "c \<noteq> 45" "c \<noteq> 43" "c \<noteq> 58"
  using assms
  by (auto simp: digit_value_def isspace_def word_le_nat_alt word_less_nat_alt split: if_splits)

lemma strtoul_digits:
  assumes ds: "ds \<noteq> []" "\<forall>c \<in> set ds. digit_value c < base" and base: "2 \<le> base" "base \<le> 36"
    and no_hex: "base = 16 \<Longrightarrow> length ds > 2 \<Longrightarrow> ds ! 1 \<noteq> 120 \<and> ds ! 1 \<noteq> 88"
    and n: "digits_value base 0 ds < 2 ^ 64"
  shows "strtoul ds base = (of_nat (digits_value base 0 ds), Some [])"
proof -
  have special: "\<not> isspace (hd ds)" "hd ds \<noteq> 45" "hd ds \<noteq> 43"
    using digit_not_special [of "hd ds"] ds base
    by (meson hd_in_set order_less_le_trans)+
  then have "dropWhile isspace ds = ds" using ds(1) by (cases ds) simp_all
  moreover have all: "takeWhile (\<lambda>c. digit_value c < base) ds = ds" "dropWhile (\<lambda>c. digit_value c < base) ds = []"
    using ds(2) by (simp_all add: takeWhile_eq_all_conv)
  ultimately show ?thesis
    using ds special no_hex n by (auto simp: strtoul_def Let_def all)
qed

lemma print_number_nth:
  assumes "2 \<le> base" "base \<le> 36" "i < length (print_number base n)"
  shows "digit_value (print_number base n ! i) < base"
  using nth_mem [OF assms(3)] print_number_digits [OF assms(1,2)] by blast

lemma digit_prefix:
  "digit_value c < 16 \<Longrightarrow> c \<noteq> 120 \<and> c \<noteq> 88" "digit_value c < 10 \<Longrightarrow> c \<noteq> 98 \<and> c \<noteq> 66"
  by (auto simp: digit_value_def word_le_nat_alt split: if_splits)

lemma strtoul_print:
  assumes "base \<in> {2, 10, 16}" "n < 2 ^ 64"
  shows "strtoul (print_number base n) base = (of_nat n, Some [])"
proof -
  have base: "2 \<le> base" "base \<le> 36" using assms(1) by auto
  have "print_number base n ! 1 \<noteq> 120 \<and> print_number base n ! 1 \<noteq> 88" if "length (print_number base n) > 2" "base = 16"
    using digit_prefix(1) print_number_nth [OF base, of 1] that by simp
  with strtoul_digits [OF print_number_not_Nil print_number_digits [OF base] base] show ?thesis
    using assms(2) by (simp add: digits_value_print [OF base])
qed

lemma number_base_decimal: "number_base (print_number 10 n) = (10, print_number 10 n)"
proof (cases "length (print_number 10 n) > 2")
  case True
  then have "digit_value (print_number 10 n ! 1) < 10" by (intro print_number_nth) simp_all
  with digit_prefix [of "print_number 10 n ! 1"] show ?thesis by (simp add: number_base_def)
next
  case False
  then show ?thesis by (simp add: number_base_def)
qed

lemma length_print_pos [simp]: "0 < length (print_number base n)"
  by simp

lemma number_base_prefix:
  "number_base (48 # 120 # print_number 16 n) = (16, print_number 16 n)"
  "number_base (48 # 98 # print_number 2 n) = (2, print_number 2 n)"
  by (simp_all add: number_base_def)

lemma low_half: "n < 2 ^ 32 \<Longrightarrow> ucast (of_nat n :: u64) = (of_nat n :: u32)"
  by (simp add: unsigned_of_nat take_bit_nat_eq_self)

lemma low_half_minus_1: "ucast (- 1 :: u64) = (4294967295 :: u32)"
  by code_simp

lemma parse_decimal: "n < 2 ^ 32 \<Longrightarrow> parse_u32 (print_number 10 n) v = (HACKRF_SUCCESS, of_nat n)"
  by (simp add: parse_u32_def number_base_decimal strtoul_print low_half)

text \<open>
  C37. \<open>parse_u32\<close> reads back every 32-bit number from its decimal digits, from \<open>0x\<close> and its
  hexadecimal digits, and from \<open>0b\<close> and its binary digits.
\<close>

theorem parse_u32_round_trip:
  assumes "n < 2 ^ 32"
  shows "parse_u32 (print_number 10 n) v = (HACKRF_SUCCESS, of_nat n)
    \<and> parse_u32 (48 # 120 # print_number 16 n) v = (HACKRF_SUCCESS, of_nat n)
    \<and> parse_u32 (48 # 98 # print_number 2 n) v = (HACKRF_SUCCESS, of_nat n)"
  using assms parse_decimal [OF assms]
  by (simp add: parse_u32_def number_base_prefix strtoul_print low_half)

theorem parse_u32_round_trip_witness:
  "parse_u32 (print_number 10 2400) 0 = (HACKRF_SUCCESS, 2400)"
  using parse_u32_round_trip [of 2400 0] by simp

lemma takeWhile_colon:
  "58 \<notin> set xs \<Longrightarrow> takeWhile (\<lambda>c. c \<noteq> 58) (xs @ 58 # ys) = xs \<and> dropWhile (\<lambda>c. c \<noteq> 58) (xs @ 58 # ys) = (58 :: u8) # ys"
  by (induction xs) auto

lemma colon_not_printed: "58 \<notin> set (print_number 10 n)"
proof
  assume "58 \<in> set (print_number 10 n)"
  then have "digit_value 58 < 10" using print_number_digits [of 10 n] by fastforce
  then show False by (simp add: digit_value_def)
qed

text \<open>
  \<open>parse_u32_range\<close> reads back the two ends of every range that is printed as two decimal
  numbers with a colon between them.
\<close>

theorem parse_u32_range_round_trip:
  assumes "a < 2 ^ 32" "b < 2 ^ 32"
  shows "parse_u32_range (print_number 10 a @ 58 # print_number 10 b) v w = (HACKRF_SUCCESS, of_nat a, of_nat b)"
  using takeWhile_colon [OF colon_not_printed] parse_decimal [OF assms(1)] parse_decimal [OF assms(2)]
  by (simp add: parse_u32_range_def Let_def)

theorem parse_u32_range_round_trip_witness:
  "parse_u32_range (print_number 10 88 @ 58 # print_number 10 108) 0 0 = (HACKRF_SUCCESS, 88, 108)"
  using parse_u32_range_round_trip [of 88 108 0 0] by simp

text \<open>
  \<open>parse_u32\<close> accepts numbers that do not fit 32 bits and keeps their low half: 4294967296
  is read as 0, and \<open>-1\<close> as 4294967295.
\<close>

theorem parse_u32_truncates:
  "parse_u32 (print_number 10 4294967296) v = (HACKRF_SUCCESS, 0) \<and> parse_u32 [45, 49] v = (HACKRF_SUCCESS, 4294967295)"
proof
  have "parse_u32 (print_number 10 4294967296) v = (HACKRF_SUCCESS, ucast (of_nat 4294967296 :: u64))"
    using strtoul_print [of 10 4294967296] by (simp add: parse_u32_def number_base_decimal)
  then show "parse_u32 (print_number 10 4294967296) v = (HACKRF_SUCCESS, 0)" by simp
  show "parse_u32 [45, 49] v = (HACKRF_SUCCESS, 4294967295)"
    by (simp add: parse_u32_def number_base_def strtoul_def isspace_def digit_value_def low_half_minus_1)
qed

end
