(* ===== verification/Sweep_Plan.thy ===== *)
theory Sweep_Plan
  imports Gated_Requests
begin

text \<open>
  The globals of hackrf_sweep.c and the first half of \<open>hackrf_sweep\<close>: the checks of its
  arguments, the size of the FFT and the plan of the tuning steps.
\<close>

section \<open>State\<close>

definition SAMPLES_PER_BLOCK :: u32 where
  "SAMPLES_PER_BLOCK = 8192"

definition FREQ_MAX_MHZ :: u32 where
  "FREQ_MAX_MHZ = 7250"

definition DEFAULT_SAMPLE_RATE_HZ :: u64 where
  "DEFAULT_SAMPLE_RATE_HZ = 20000000"

definition TUNE_STEP :: u64 where
  "TUNE_STEP = DEFAULT_SAMPLE_RATE_HZ div 1000000"

definition OFFSET :: u32 where
  "OFFSET = 7500000"

text \<open>The arguments of \<open>hackrf_sweep\<close>, most of which it never reads.\<close>

record sweep_args =
  a_ip :: u32
  a_port :: u16
  a_serial_number :: u32
  a_freq_min :: u32
  a_freq_mid :: u32
  a_freq_max :: u32
  a_requested_fft_bin_width :: u32
  a_num_sweeps :: u32
  a_vga_gain :: u32
  a_lna_gain :: u32
  a_band_edge :: u32
  a_record_length :: u32
  a_antenna_enable :: bool
  a_retdata2client_cb :: ptr

text \<open>
  The globals. \<open>fd_open\<close> is \<open>fd != NULL\<close>; the options of the command line that this version
  only ever reads keep their names. Of the arrays of the transforms only their number is kept:
  \<open>fft_blocks\<close> counts the blocks that \<open>fftwf_malloc\<close> has given and nothing has given back,
  \<open>fft_plans\<close> the plans of FFTW.
\<close>

record sweep =
  num_samples :: u32
  num_sweeps :: u32
  num_ranges :: nat
  frequencies :: "u16 list"
  step_count :: int
  sw_exit :: bool
  fd_open :: bool
  byte_count :: u32
  sweep_count :: u64
  time_stamp :: "int \<times> int"
  amp :: bool
  amp_enable :: u32
  antenna :: bool
  antenna_enable :: u32
  binary_output :: bool
  ifft_output :: bool
  one_shot :: bool
  finite_mode :: bool
  sweep_started :: bool
  fftSize :: nat
  fft_blocks :: nat
  fft_plans :: nat
  sw_device :: ptr

definition init_sweep :: sweep where
  "init_sweep = \<lparr>num_samples = SAMPLES_PER_BLOCK, num_sweeps = 0, num_ranges = 0,
     frequencies = replicate (2 * nat MAX_SWEEP_RANGES) 0, step_count = 0, sw_exit = False, fd_open = False,
     byte_count = 0, sweep_count = 0, time_stamp = (0, 0), amp = False, amp_enable = 0, antenna = False,
     antenna_enable = 0, binary_output = False, ifft_output = False, one_shot = False, finite_mode = False,
     sweep_started = False, fftSize = 20, fft_blocks = 0, fft_plans = 0, sw_device = NULL\<rparr>"

section \<open>Checks and plan\<close>

text \<open>
  The checks of \<open>hackrf_sweep\<close>; \<open>False\<close> is \<open>return EXIT_FAILURE\<close>. The new range is entered
  before the checks that follow it. (\<open>num_ranges\<close> is not zero at the test for zero.)
\<close>

definition sweep_check :: "sweep_args \<Rightarrow> sweep \<Rightarrow> bool \<times> sweep" where
  "sweep_check a sw =
     (if MAX_SWEEP_RANGES \<le> int (num_ranges sw) then (False, sw)
      else if a_freq_min a \<ge> a_freq_max a then (False, sw)
      else if FREQ_MAX_MHZ < a_freq_max a then (False, sw)
      else let n = num_ranges sw;
               sw = sw\<lparr>frequencies := (frequencies sw)[2 * n := ucast (a_freq_min a), 2 * n + 1 := ucast (a_freq_max a)],
                       num_ranges := Suc n\<rparr>
      in if num_samples sw mod SAMPLES_PER_BLOCK \<noteq> 0 then (False, sw)
      else if num_samples sw < SAMPLES_PER_BLOCK then (False, sw)
      else if amp sw \<and> amp_enable sw > 1 then (False, sw)
      else if antenna sw \<and> antenna_enable sw > 1 then (False, sw)
      else if binary_output sw \<and> ifft_output sw then (False, sw)
      else if ifft_output sw \<and> 1 < num_ranges sw then (False, sw)
      else if 4 > fftSize sw then (False, sw)
      else if 8184 < fftSize sw then (False, sw)
      else (True, sw))"

lemma less_eight: "r < 8 \<longleftrightarrow> r = 0 \<or> r = 1 \<or> r = 2 \<or> r = 3 \<or> r = 4 \<or> r = 5 \<or> r = 6 \<or> r = (7 :: nat)"
  by linarith

lemma mod_eight_cases:
  "n mod 8 = 0 \<or> n mod 8 = 1 \<or> n mod 8 = 2 \<or> n mod 8 = 3 \<or> n mod 8 = 4 \<or> n mod 8 = 5 \<or> n mod 8 = 6 \<or> n mod 8 = (7 :: nat)"
  using mod_less_divisor [of 8 n] unfolding less_eight by simp

lemma mod_eight_add: "(n + k) mod 8 = (n mod 8 + k) mod (8 :: nat)"
  by (rule mod_add_left_eq [symmetric])

lemma four_mod_eight: "(n + 4) mod 8 = 0 \<longleftrightarrow> n mod 8 = (4 :: nat)"
  using mod_eight_cases [of n] by (subst mod_eight_add) (elim disjE, simp_all)

lemma fft_measure: "(n + 4) mod 8 \<noteq> 0 \<Longrightarrow> 7 - (Suc n + 3) mod 8 < 7 - (n + 3) mod (8 :: nat)"
proof -
  have 1: "(Suc n + 3) mod 8 = (n mod 8 + 4) mod 8" "(n + 3) mod 8 = (n mod 8 + 3) mod 8"
    using mod_eight_add [of n 4] mod_eight_add [of n 3] by (simp_all add: add.commute)
  assume "(n + 4) mod 8 \<noteq> 0"
  then have "n mod 8 \<noteq> 4" unfolding four_mod_eight .
  with mod_eight_cases [of n] show ?thesis unfolding 1 by (elim disjE) simp_all
qed

text \<open>\<open>while((fftSize + 4) % 8) fftSize++;\<close>\<close>

function fft_round :: "nat \<Rightarrow> nat" where
  "fft_round n = (if (n + 4) mod 8 \<noteq> 0 then fft_round (Suc n) else n)"
  by pat_completeness auto
termination
  by (relation "measure (\<lambda>n. 7 - (n + 3) mod 8)") (simp, simp only: in_measure, rule fft_measure)

declare fft_round.simps [simp del]

text \<open>
  The plan of range \<open>i\<close>. The quotient is computed in 64 bits because \<open>TUNE_STEP\<close> is an
  \<open>unsigned long long\<close>, and then kept in the \<open>int\<close> \<open>step_count\<close>.
\<close>

definition plan_range :: "nat \<Rightarrow> u16 list \<times> int \<Rightarrow> u16 list \<times> int" where
  "plan_range i p =
     (let fs = fst p;
          steps = sint (ucast (1 + (of_int (uint (fs ! (2 * i + 1)) - uint (fs ! (2 * i)) - 1) :: u64) div TUNE_STEP) :: u32);
          high = (of_int (uint (fs ! (2 * i))) + of_int steps * TUNE_STEP :: u64)
      in (fs[2 * i + 1 := ucast high], steps))"

definition plan_ranges :: "sweep \<Rightarrow> sweep" where
  "plan_ranges sw =
     (let (fs, steps) = fold plan_range [0..<num_ranges sw] (frequencies sw, step_count sw)
      in sw\<lparr>frequencies := fs, step_count := steps\<rparr>)"

text \<open>
  The arrays of the transform and its plan, those of the inverse transform, and what the end of a
  sweep gives back: all blocks of this sweep (\<open>fftwf_free\<close> of a null pointer does nothing), no plan.
  The allocations are taken to succeed; the code does not check them.
\<close>

definition allocate_transform :: "sweep \<Rightarrow> sweep" where
  "allocate_transform sw = sw\<lparr>fft_blocks := fft_blocks sw + 4, fft_plans := fft_plans sw + 1\<rparr>"

definition allocate_inverse :: "sweep \<Rightarrow> sweep" where
  "allocate_inverse sw =
     (if ifft_output sw then sw\<lparr>fft_blocks := fft_blocks sw + 2, fft_plans := fft_plans sw + 1\<rparr> else sw)"

definition free_arrays :: "sweep \<Rightarrow> sweep" where
  "free_arrays sw = sw\<lparr>fft_blocks := fft_blocks sw - 4 - (if ifft_output sw then 2 else 0)\<rparr>"

section \<open>The size of the FFT\<close>

lemma fft_round_spec: "n \<le> fft_round n \<and> fft_round n < n + 8 \<and> fft_round n mod 8 = 4"
proof (induction n rule: fft_round.induct)
  case (1 n)
  show ?case
  proof (cases "(n + 4) mod 8 = 0")
    case True
    then have "n mod 8 = 4" by (simp only: four_mod_eight)
    with True show ?thesis by (simp add: fft_round.simps [of n])
  next
    case False
    with 1 have IH: "Suc n \<le> fft_round (Suc n)" "fft_round (Suc n) < n + 9" "fft_round (Suc n) mod 8 = 4"
      by simp_all
    have "fft_round (Suc n) \<noteq> n + 8" using mod_add_self2 [of n 8] False IH(3) unfolding four_mod_eight by metis
    with IH False show ?thesis by (simp add: fft_round.simps [of n])
  qed
qed

section \<open>The tuning steps\<close>

text \<open>The number of steps of 20 MHz from \<open>a\<close> that reach \<open>b\<close>.\<close>

definition steps_between :: "nat \<Rightarrow> nat \<Rightarrow> nat" where
  "steps_between a b = Suc ((b - a - 1) div 20)"

lemma steps_between_spec:
  assumes "a < b"
  shows "b \<le> a + 20 * steps_between a b" "a + 20 * steps_between a b < b + 20"
proof -
  define q where "q = (b - a - 1) div 20"
  have "20 * q \<le> b - a - 1" "b - a - 1 < 20 * q + 20"
    unfolding q_def by (simp_all add: mult.commute [of 20] div_times_less_eq_dividend dividend_less_div_times)
  with assms show "b \<le> a + 20 * steps_between a b" "a + 20 * steps_between a b < b + 20"
    unfolding steps_between_def q_def [symmetric] by simp_all
qed

lemma TUNE_STEP_20: "TUNE_STEP = 20"
  by (simp add: TUNE_STEP_def DEFAULT_SAMPLE_RATE_HZ_def)

lemma u16_bound: "unat (x :: u16) < 65536"
  using unsigned_less [of x] by simp

lemma sint_small: "n < 2 ^ 31 \<Longrightarrow> sint (ucast (of_nat n :: u64) :: u32) = int n"
  by (simp add: unsigned_of_nat take_bit_nat_eq_self signed_of_nat signed_take_bit_int_eq_self)

lemma div_20:
  "m < 2 ^ 64 \<Longrightarrow> (of_nat m :: u64) div 20 = of_nat (m div 20)"
proof -
  assume m: "m < 2 ^ 64"
  then have "m div 20 < 2 ^ 64" by (rule le_less_trans [OF div_le_dividend])
  with m show ?thesis
    by (simp only: word_unat_eq_iff unat_div_distrib unat_of_nat) (simp add: take_bit_nat_eq_self)
qed

lemma plan_range_valid:
  assumes i: "2 * i + 1 < length fs" and ab: "unat (fs ! (2 * i)) = a" "unat (fs ! (2 * i + 1)) = b"
    and le: "a < b" "b + 20 \<le> 65536"
  shows "plan_range i (fs, sc) = (fs[2 * i + 1 := of_nat (a + 20 * steps_between a b)], int (steps_between a b))"
proof -
  define m where "m = b - a - 1"
  have m: "m < 65536" "int b - int a - 1 = int m" using le by (simp_all add: m_def of_nat_diff)
  have q: "m div 20 < 2 ^ 31 - 1" using m by simp
  have uint: "uint (fs ! (2 * i)) = int a" "uint (fs ! (2 * i + 1)) = int b"
    using ab by (simp_all add: uint_nat)
  have sb: "steps_between a b = Suc (m div 20)" by (simp add: steps_between_def m_def)
  have "(of_int (int b - int a - 1) :: u64) div TUNE_STEP = of_nat (m div 20)"
    unfolding m(2) of_int_of_nat_eq TUNE_STEP_20 by (rule div_20) (use m in simp)
  then have steps: "sint (ucast (1 + (of_int (int b - int a - 1) :: u64) div TUNE_STEP) :: u32) = int (steps_between a b)"
    using sint_small [of "Suc (m div 20)"] q by (simp only: sb) simp
  have high: "ucast (of_int (int a) + of_int (int (steps_between a b)) * TUNE_STEP :: u64)
      = (of_nat (a + 20 * steps_between a b) :: u16)"
  proof -
    have "(of_int (int a) + of_int (int (steps_between a b)) * TUNE_STEP :: u64) = of_nat (a + 20 * steps_between a b)"
      by (simp add: TUNE_STEP_20)
    moreover have "a + 20 * steps_between a b < 65536"
      using steps_between_spec(2) [OF le(1)] le(2) by linarith
    ultimately show ?thesis by (simp only: unsigned_of_nat) (simp add: take_bit_nat_eq_self)
  qed
  show ?thesis
    unfolding plan_range_def Let_def fst_conv uint steps high ..
qed

text \<open>Range \<open>i\<close> of a table, and the tables in which the first \<open>n\<close> ranges make sense.\<close>

definition range_of :: "u16 list \<Rightarrow> nat \<Rightarrow> nat \<times> nat" where
  "range_of fs i = (unat (fs ! (2 * i)), unat (fs ! (2 * i + 1)))"

definition valid_ranges :: "nat \<Rightarrow> u16 list \<Rightarrow> bool" where
  "valid_ranges n fs \<longleftrightarrow> 2 * n \<le> length fs \<and>
     (\<forall>i < n. case range_of fs i of (a, b) \<Rightarrow> a < b \<and> b + 20 \<le> 65536)"

lemma valid_rangesD:
  assumes "valid_ranges n fs" "i < n" "range_of fs i = (a, b)"
  shows "a < b" "b + 20 \<le> 65536"
proof -
  have "case range_of fs i of (a, b) \<Rightarrow> a < b \<and> b + 20 \<le> 65536" using assms(1,2) by (simp add: valid_ranges_def)
  with assms(3) show "a < b" "b + 20 \<le> 65536" by simp_all
qed

definition planned :: "nat \<times> nat \<Rightarrow> nat \<times> nat" where
  "planned r = (case r of (a, b) \<Rightarrow> (a, a + 20 * steps_between a b))"

lemma fold_plan_range:
  "k \<le> n \<Longrightarrow> valid_ranges n fs \<Longrightarrow>
    (case fold plan_range [0..<k] (fs, sc) of (fs', sc') \<Rightarrow>
      length fs' = length fs \<and> (\<forall>j \<ge> 2 * k. fs' ! j = fs ! j) \<and> (\<forall>i < k. range_of fs' i = planned (range_of fs i)) \<and>
      (0 < k \<longrightarrow> sc' = (case range_of fs (k - 1) of (a, b) \<Rightarrow> int (steps_between a b))))"
proof (induction k)
  case 0
  then show ?case by simp
next
  case (Suc k)
  obtain fs' sc' where rec: "fold plan_range [0..<k] (fs, sc) = (fs', sc')" by fastforce
  with Suc have IH: "length fs' = length fs" "\<forall>j \<ge> 2 * k. fs' ! j = fs ! j" "\<forall>i < k. range_of fs' i = planned (range_of fs i)"
    by simp_all
  obtain a b where ab: "range_of fs k = (a, b)" by fastforce
  have le: "a < b" "b + 20 \<le> 65536"
    using valid_rangesD [OF Suc.prems(2) _ ab] Suc.prems(1) by simp_all
  have len: "2 * k + 1 < length fs'"
    using Suc.prems IH(1) by (simp add: valid_ranges_def)
  have cur: "unat (fs' ! (2 * k)) = a" "unat (fs' ! (2 * k + 1)) = b"
    using ab IH(2) by (simp_all add: range_of_def)
  define high where "high = a + 20 * steps_between a b"
  have "plan_range k (fs', sc') = (fs'[2 * k + 1 := of_nat high], int (steps_between a b))"
    unfolding high_def by (rule plan_range_valid [OF len cur le])
  then have step: "fold plan_range [0..<Suc k] (fs, sc) = (fs'[2 * k + 1 := of_nat high], int (steps_between a b))"
    by (simp add: rec)
  have "high < 65536" using steps_between_spec(2) [OF le(1)] le(2) by (simp add: high_def)
  then have new: "range_of (fs'[2 * k + 1 := of_nat high]) k = (a, high)"
    using len cur by (simp add: range_of_def unat_of_nat take_bit_nat_eq_self)
  have old: "range_of (fs'[2 * k + 1 := of_nat high]) i = range_of fs' i" if "i < k" for i
  proof -
    have "2 * i \<noteq> 2 * k + 1" "2 * i + 1 \<noteq> 2 * k + 1" using that by presburger+
    then show ?thesis by (simp add: range_of_def)
  qed
  show ?case
    unfolding step using IH new old ab
    by (auto simp: less_Suc_eq planned_def high_def nth_list_update)
qed

lemma plan_ranges_fields [simp]:
  "num_ranges (plan_ranges sw) = num_ranges sw" "num_samples (plan_ranges sw) = num_samples sw"
  "fftSize (plan_ranges sw) = fftSize sw" "sw_device (plan_ranges sw) = sw_device sw"
  "ifft_output (plan_ranges sw) = ifft_output sw" "fft_blocks (plan_ranges sw) = fft_blocks sw"
  "fft_plans (plan_ranges sw) = fft_plans sw"
  by (simp_all add: plan_ranges_def split_beta)

lemma allocation_fields [simp]:
  "sw_device (allocate_transform sw) = sw_device sw" "sw_device (allocate_inverse sw) = sw_device sw"
  "frequencies (allocate_transform sw) = frequencies sw" "frequencies (allocate_inverse sw) = frequencies sw"
  "num_ranges (allocate_transform sw) = num_ranges sw" "num_ranges (allocate_inverse sw) = num_ranges sw"
  "ifft_output (allocate_transform sw) = ifft_output sw" "ifft_output (allocate_inverse sw) = ifft_output sw"
  "fft_blocks (allocate_transform sw) = fft_blocks sw + 4"
  "fft_blocks (allocate_inverse sw) = fft_blocks sw + (if ifft_output sw then 2 else 0)"
  by (simp_all add: allocate_transform_def allocate_inverse_def)

definition one_range :: sweep where
  "one_range = init_sweep\<lparr>frequencies := (frequencies init_sweep)[0 := 2400, 1 := 2490], num_ranges := 1\<rparr>"

lemma one_range_simps [simp]:
  "num_ranges one_range = 1" "range_of (frequencies one_range) 0 = (2400, 2490)" "valid_ranges 1 (frequencies one_range)"
  by (simp_all add: one_range_def init_sweep_def range_of_def valid_ranges_def MAX_SWEEP_RANGES_def)

text \<open>
  The plan of \<open>hackrf_sweep\<close> keeps the low end of every range and replaces the high end by
  the first frequency that is a whole number, at least one, of 20 MHz steps above the low end
  and not below the requested high end; no 16-bit frequency wraps around, and \<open>step_count\<close> is
  the number of steps of the last range.
\<close>

theorem plan_covers_the_ranges:
  assumes "valid_ranges (num_ranges sw) (frequencies sw)"
  shows "(\<forall>i < num_ranges sw. case range_of (frequencies sw) i of (a, b) \<Rightarrow>
      case range_of (frequencies (plan_ranges sw)) i of (a', b') \<Rightarrow>
        a' = a \<and> b \<le> b' \<and> b' < b + 20 \<and> (\<exists>k. 1 \<le> k \<and> b' = a + 20 * k \<and> (i = num_ranges sw - 1 \<longrightarrow> step_count (plan_ranges sw) = int k)))"
proof (intro allI impI)
  fix i assume i: "i < num_ranges sw"
  obtain fs' sc' where fold: "fold plan_range [0..<num_ranges sw] (frequencies sw, step_count sw) = (fs', sc')" by fastforce
  then have plan: "frequencies (plan_ranges sw) = fs'" "step_count (plan_ranges sw) = sc'"
    by (simp_all add: plan_ranges_def)
  obtain a b where ab: "range_of (frequencies sw) i = (a, b)" by fastforce
  note le = valid_rangesD(1) [OF assms i ab]
  from fold_plan_range [OF le_refl assms, of "step_count sw"] fold i ab
  have "range_of fs' i = (a, a + 20 * steps_between a b)" "i = num_ranges sw - 1 \<longrightarrow> sc' = int (steps_between a b)"
    by (auto simp: planned_def)
  with steps_between_spec [OF le] ab plan show "case range_of (frequencies sw) i of (a, b) \<Rightarrow>
      case range_of (frequencies (plan_ranges sw)) i of (a', b') \<Rightarrow>
        a' = a \<and> b \<le> b' \<and> b' < b + 20 \<and> (\<exists>k. 1 \<le> k \<and> b' = a + 20 * k \<and> (i = num_ranges sw - 1 \<longrightarrow> step_count (plan_ranges sw) = int k))"
    by (auto intro!: exI [of _ "steps_between a b"] simp: steps_between_def)
qed

section \<open>The table of ranges\<close>

text \<open>
  What holds of the table at all times: a range is either as it was entered, or already planned
  by an earlier call, in which case planning it again changes nothing.
\<close>

definition range_ok :: "nat \<times> nat \<Rightarrow> bool" where
  "range_ok r = (case r of (a, b) \<Rightarrow> a < b \<and> (b \<le> 7250 \<or> b < 7270 \<and> 20 dvd (b - a)))"

definition table_ok :: "sweep \<Rightarrow> bool" where
  "table_ok sw \<longleftrightarrow> length (frequencies sw) = 20 \<and> num_ranges sw \<le> 10 \<and>
     (\<forall>i < num_ranges sw. range_ok (range_of (frequencies sw) i))"

lemma table_ok_init: "table_ok init_sweep"
  by (simp add: table_ok_def init_sweep_def MAX_SWEEP_RANGES_def)

lemma range_ok_valid: "range_ok (a, b) \<Longrightarrow> a < b \<and> b + 20 \<le> 65536"
  by (auto simp: range_ok_def)

lemma table_ok_valid: "table_ok sw \<Longrightarrow> valid_ranges (num_ranges sw) (frequencies sw)"
  unfolding table_ok_def valid_ranges_def using range_ok_valid by fastforce

lemma range_ok_planned:
  assumes "range_ok (a, b)"
  shows "range_ok (planned (a, b))"
proof -
  have le: "a < b" using assms by (simp add: range_ok_def)
  note sp = steps_between_spec [OF le]
  have "a + 20 * steps_between a b < 7270"
  proof (cases "b \<le> 7250")
    case True
    with sp show ?thesis by linarith
  next
    case False
    with assms have "20 dvd (b - a)" "b < 7270" by (simp_all add: range_ok_def)
    then obtain k where k: "b - a = 20 * k" by (elim dvdE)
    with sp le have "20 * steps_between a b < 20 * k + 20" by linarith
    then have "steps_between a b \<le> k" by linarith
    with k le \<open>b < 7270\<close> show ?thesis by linarith
  qed
  with sp le show ?thesis by (simp add: range_ok_def planned_def steps_between_def)
qed

lemma table_ok_plan: "table_ok sw \<Longrightarrow> table_ok (plan_ranges sw)"
proof -
  assume ok: "table_ok sw"
  obtain fs' sc' where fold: "fold plan_range [0..<num_ranges sw] (frequencies sw, step_count sw) = (fs', sc')" by fastforce
  then have plan: "frequencies (plan_ranges sw) = fs'" by (simp add: plan_ranges_def)
  from fold_plan_range [OF le_refl table_ok_valid [OF ok], of "step_count sw"] fold
  have fs': "length fs' = length (frequencies sw)"
    "\<And>i. i < num_ranges sw \<Longrightarrow> range_of fs' i = planned (range_of (frequencies sw) i)" by simp_all
  have "range_ok (range_of fs' i)" if "i < num_ranges sw" for i
    using fs'(2) [OF that] ok that range_ok_planned by (cases "range_of (frequencies sw) i") (fastforce simp: table_ok_def)
  with ok fs'(1) show "table_ok (plan_ranges sw)" by (simp add: table_ok_def plan)
qed

text \<open>What the arguments and the options have to satisfy.\<close>

definition sweep_acceptable :: "sweep_args \<Rightarrow> sweep \<Rightarrow> bool" where
  "sweep_acceptable a sw \<longleftrightarrow>
     num_ranges sw < 10 \<and> a_freq_min a < a_freq_max a \<and> unat (a_freq_max a) \<le> 7250 \<and>
     8192 dvd unat (num_samples sw) \<and> num_samples sw \<noteq> 0 \<and>
     (amp sw \<longrightarrow> amp_enable sw \<le> 1) \<and> (antenna sw \<longrightarrow> antenna_enable sw \<le> 1) \<and>
     (ifft_output sw \<longrightarrow> \<not> binary_output sw \<and> num_ranges sw = 0) \<and> 4 \<le> fftSize sw \<and> fftSize sw \<le> 8184"

lemma mod_8192: "(x :: u32) mod 8192 = 0 \<longleftrightarrow> 8192 dvd unat x"
  by (simp add: word_unat_eq_iff unat_mod_distrib mod_eq_0_iff_dvd)

lemma below_8192: "8192 dvd unat (x :: u32) \<Longrightarrow> x < 8192 \<longleftrightarrow> x = 0"
  by (auto simp: word_less_nat_alt word_unat_eq_iff dest: dvd_imp_le)

lemma fst_refuse: "fst (if P then (False, x) else y) \<longleftrightarrow> \<not> P \<and> fst y"
  by simp

lemma freq_max: "\<not> FREQ_MAX_MHZ < x \<longleftrightarrow> unat x \<le> 7250"
  by (simp add: FREQ_MAX_MHZ_def not_less word_le_nat_alt)

lemma samples_ok: "\<not> x mod 8192 \<noteq> 0 \<and> \<not> x < (8192 :: u32) \<longleftrightarrow> 8192 dvd unat x \<and> x \<noteq> 0"
  using mod_8192 [of x] below_8192 [of x] by auto

lemma sweep_check_ok_iff: "fst (sweep_check a sw) \<longleftrightarrow> sweep_acceptable a sw"
proof -
  have "fst (sweep_check a sw) \<longleftrightarrow>
    num_ranges sw < 10 \<and> a_freq_min a < a_freq_max a \<and> \<not> FREQ_MAX_MHZ < a_freq_max a \<and>
    (\<not> num_samples sw mod 8192 \<noteq> 0 \<and> \<not> num_samples sw < 8192) \<and>
    \<not> (amp sw \<and> amp_enable sw > 1) \<and> \<not> (antenna sw \<and> antenna_enable sw > 1) \<and>
    \<not> (binary_output sw \<and> ifft_output sw) \<and> \<not> (ifft_output sw \<and> 1 < Suc (num_ranges sw)) \<and>
    \<not> 4 > fftSize sw \<and> \<not> 8184 < fftSize sw"
    unfolding sweep_check_def Let_def fst_refuse SAMPLES_PER_BLOCK_def MAX_SWEEP_RANGES_def
    by (simp add: not_le)
  then show ?thesis
    unfolding samples_ok freq_max sweep_acceptable_def by (auto simp: not_less)
qed

lemma range_of_upd:
  assumes "2 * n + 1 < length fs"
  shows "range_of (fs[2 * n := x, 2 * n + 1 := y]) n = (unat x, unat y)"
    and "i < n \<Longrightarrow> range_of (fs[2 * n := x, 2 * n + 1 := y]) i = range_of fs i"
proof -
  show "range_of (fs[2 * n := x, 2 * n + 1 := y]) n = (unat x, unat y)" using assms by (simp add: range_of_def)
  assume "i < n"
  then have "2 * i \<noteq> 2 * n" "2 * i + 1 \<noteq> 2 * n" "2 * i \<noteq> 2 * n + 1" "2 * i + 1 \<noteq> 2 * n + 1" by presburger+
  then show "range_of (fs[2 * n := x, 2 * n + 1 := y]) i = range_of fs i" by (simp add: range_of_def)
qed

lemma snd_refuse: "snd (if P then (False, x) else y) = (if P then x else snd y)"
  by simp

lemma snd_sweep_check:
  "snd (sweep_check a sw) =
     (if num_ranges sw < 10 \<and> a_freq_min a < a_freq_max a \<and> unat (a_freq_max a) \<le> 7250
      then sw\<lparr>frequencies := (frequencies sw)[2 * num_ranges sw := ucast (a_freq_min a),
                 2 * num_ranges sw + 1 := ucast (a_freq_max a)], num_ranges := Suc (num_ranges sw)\<rparr>
      else sw)"
  unfolding sweep_check_def Let_def snd_refuse if_cancel snd_conv MAX_SWEEP_RANGES_def
  using freq_max [of "a_freq_max a"] by (cases "FREQ_MAX_MHZ < a_freq_max a") (simp_all add: not_le)

lemma small_ucast: "unat (x :: u32) \<le> 7250 \<Longrightarrow> unat (ucast x :: u16) = unat x"
  by (simp add: unsigned_ucast_eq take_bit_nat_eq_self)

lemma table_ok_check:
  assumes "table_ok sw"
  shows "table_ok (snd (sweep_check a sw))"
proof (cases "num_ranges sw < 10 \<and> a_freq_min a < a_freq_max a \<and> unat (a_freq_max a) \<le> 7250")
  case True
  let ?fs = "(frequencies sw)[2 * num_ranges sw := ucast (a_freq_min a), 2 * num_ranges sw + 1 := ucast (a_freq_max a)]"
  have len: "2 * num_ranges sw + 1 < length (frequencies sw)" using True assms by (simp add: table_ok_def)
  have le: "unat (a_freq_min a) < unat (a_freq_max a)" using True by (simp add: word_less_nat_alt)
  have "range_of ?fs (num_ranges sw) = (unat (a_freq_min a), unat (a_freq_max a))"
    using range_of_upd(1) [OF len] True le by (simp add: small_ucast)
  then have "range_ok (range_of ?fs (num_ranges sw))" using True le by (simp add: range_ok_def)
  moreover have "range_ok (range_of ?fs i)" if "i < num_ranges sw" for i
    using range_of_upd(2) [OF len that] assms that by (simp add: table_ok_def)
  ultimately show ?thesis
    using True assms by (auto simp: snd_sweep_check table_ok_def less_Suc_eq)
next
  case False
  with assms show ?thesis unfolding snd_sweep_check if_not_P [OF False] by simp
qed


definition wifi_band :: sweep_args where
  "wifi_band = \<lparr>a_ip = 0, a_port = 0, a_serial_number = 0, a_freq_min = 2400, a_freq_mid = 2445, a_freq_max = 2490,
     a_requested_fft_bin_width = 1000000, a_num_sweeps = 1, a_vga_gain = 20, a_lna_gain = 16, a_band_edge = 0,
     a_record_length = 0, a_antenna_enable = False, a_retdata2client_cb = NULL\<rparr>"


theorem plan_covers_the_ranges_witness:
  "case range_of (frequencies (plan_ranges one_range)) 0 of (a, b) \<Rightarrow> a = 2400 \<and> 2490 \<le> b"
  using plan_covers_the_ranges [of one_range] one_range_simps by (auto split: prod.splits)

end
