(* ===== verification/Sweep_Callback.thy ===== *)
theory Sweep_Callback
  imports Sweep_Plan
begin

text \<open>
  The sample callback of hackrf_sweep.c. Its floating-point work is a parameter: the spectrum of
  a window of samples (the window function and FFTW), the power of a bin (\<open>logPower\<close>) and the
  scaled inverse transform. What is modelled is everything around it: which blocks of a transfer
  are used, the sweep counter and the time stamp, which samples enter the spectrum, and which of
  its bins are written with which frequencies. A line of text output is a record of what it
  prints.
\<close>

section \<open>State and output\<close>

definition BLOCKS_PER_TRANSFER :: nat where
  "BLOCKS_PER_TRANSFER = 16"

definition THROWAWAY_BLOCKS :: u32 where
  "THROWAWAY_BLOCKS = 2"

record ('c, 'p) dsp =
  spectrum :: "(int \<times> int) list \<Rightarrow> 'c list"
  logPower :: "'c \<Rightarrow> 'p"
  inverse_spectrum :: "'c list \<Rightarrow> 'c list"

text \<open>The globals of the callback: those of the sweep and the input of the inverse transform.\<close>

record 'c receiver = sweep +
  ifftwIn :: "'c list"

record 'p row =
  r_time :: "int \<times> int"
  r_low :: u64
  r_high :: u64
  r_fftSize :: nat
  r_power :: "'p list"

datatype ('c, 'p) sweep_output = Line "'p row" | Samples "'c list"

section \<open>A block\<close>

text \<open>The frequency in the header of a block; \<open>None\<close> when there is no header.\<close>

definition header_frequency :: "u8 list \<Rightarrow> u64 option" where
  "header_frequency ubuf =
     (if ubuf ! 0 = 0x7F \<and> ubuf ! 1 = 0x7F
      then Some (push_bit 56 (ucast (ubuf ! 9)) OR push_bit 48 (ucast (ubuf ! 8)) OR push_bit 40 (ucast (ubuf ! 7))
             OR push_bit 32 (ucast (ubuf ! 6)) OR push_bit 24 (ucast (ubuf ! 5)) OR push_bit 16 (ucast (ubuf ! 4))
             OR push_bit 8 (ucast (ubuf ! 3)) OR ucast (ubuf ! 2))
      else None)"

definition first_frequency :: "'a sweep_scheme \<Rightarrow> u64" where
  "first_frequency sw = 1000000 * ucast (frequencies sw ! 0)"

text \<open>The time of block \<open>j\<close> of a transfer that arrived at \<open>now\<close>.\<close>

definition block_time :: "int \<times> int \<Rightarrow> u32 \<Rightarrow> nat \<Rightarrow> int \<times> int" where
  "block_time now samples j =
     (let usec = sint (of_int (snd now) + ucast (samples + THROWAWAY_BLOCKS * SAMPLES_PER_BLOCK) * of_nat j * 1000000
                       div DEFAULT_SAMPLE_RATE_HZ :: u64)
      in if 999999 < usec then (fst now + usec div 1000000, usec mod 1000000) else (fst now, usec))"

definition ifft_bins :: "'a sweep_scheme \<Rightarrow> int" where
  "ifft_bins sw = int (fftSize sw) * step_count sw"

text \<open>The block that starts a sweep: the end of the previous one, if any, and the new time.\<close>

definition start_of_sweep ::
  "('c, 'p) dsp \<Rightarrow> int \<times> int \<Rightarrow> nat \<Rightarrow> 'c receiver \<Rightarrow> ('c, 'p) sweep_output list \<times> 'c receiver" where
  "start_of_sweep D now j sw =
     (let (out, sw) =
            (if sweep_started sw
             then let out = (if ifft_output sw then [Samples (inverse_spectrum D (ifftwIn sw))] else []);
                      sw = sw\<lparr>sweep_count := sweep_count sw + 1\<rparr>
                  in (out, if one_shot sw then sw\<lparr>sw_exit := True\<rparr>
                           else if finite_mode sw \<and> sweep_count sw = ucast (num_sweeps sw)
                           then sw\<lparr>sw_exit := True\<rparr> else sw)
             else ([], sw))
      in (out, sw\<lparr>sweep_started := True, time_stamp := block_time now (num_samples sw) j\<rparr>))"

text \<open>The samples at the end of a block that enter the spectrum, as signed bytes.\<close>

definition window_samples :: "nat \<Rightarrow> u8 list \<Rightarrow> (int \<times> int) list option" where
  "window_samples n block =
     (if 2 * n \<le> length block
      then Some (map (\<lambda>i. (sint (block ! (length block - 2 * n + i * 2)), sint (block ! (length block - 2 * n + i * 2 + 1)))) [0..<n])
      else None)"

text \<open>\<open>n / 4\<close> entries of an array from position \<open>1 + k\<close> on.\<close>

definition quarter :: "nat \<Rightarrow> nat \<Rightarrow> 'x list \<Rightarrow> 'x list option" where
  "quarter n k xs =
     (if n div 4 + 1 + k \<le> length xs then Some (map (\<lambda>i. xs ! (i + 1 + k)) [0..<n div 4]) else None)"

text \<open>Overwriting an array from a position on.\<close>

definition store_at :: "nat \<Rightarrow> 'x list \<Rightarrow> 'x list \<Rightarrow> 'x list option" where
  "store_at k ys xs =
     (if k + length ys \<le> length xs then Some (take k xs @ ys @ drop (k + length ys) xs) else None)"

text \<open>
  The first position of the inverse transform's input. The quotient is rounded to the nearest
  integer, exactly, where the code rounds a double; converting one of \<open>2 ^ 32\<close> or more is
  undefined.
\<close>

definition ifft_index :: "u64 \<Rightarrow> 'a sweep_scheme \<Rightarrow> u32 option" where
  "ifft_index frequency sw =
     (let idx = (2 * unat (frequency - first_frequency sw) * fftSize sw + unat DEFAULT_SAMPLE_RATE_HZ)
                 div (2 * unat DEFAULT_SAMPLE_RATE_HZ)
      in if idx < 2 ^ 32 \<and> (of_int (ifft_bins sw) :: u32) \<noteq> 0
         then Some ((of_nat idx + of_int (ifft_bins sw div 2)) mod of_int (ifft_bins sw)) else None)"

definition ifft_block :: "u64 \<Rightarrow> 'c list \<Rightarrow> 'c receiver \<Rightarrow> 'c receiver option" where
  "ifft_block frequency fftwOut sw =
     do { ifft_idx \<leftarrow> ifft_index frequency sw;
          high \<leftarrow> quarter (fftSize sw) (fftSize sw * 5 div 8) fftwOut;
          xs \<leftarrow> store_at (unat ifft_idx) high (ifftwIn sw);
          let ifft_idx = (ifft_idx + of_nat (fftSize sw div 2)) mod of_int (ifft_bins sw);
          low \<leftarrow> quarter (fftSize sw) (fftSize sw div 8) fftwOut;
          xs \<leftarrow> store_at (unat ifft_idx) low xs;
          Some (sw\<lparr>ifftwIn := xs\<rparr>) }"

text \<open>The two lines of text output of a block.\<close>

definition text_block :: "u64 \<Rightarrow> 'p list \<Rightarrow> 'a sweep_scheme \<Rightarrow> ('c, 'p) sweep_output list option" where
  "text_block frequency powers sw =
     do { high \<leftarrow> quarter (fftSize sw) (fftSize sw * 5 div 8) powers;
          low \<leftarrow> quarter (fftSize sw) (fftSize sw div 8) powers;
          Some [Line \<lparr>r_time = time_stamp sw, r_low = frequency,
                      r_high = frequency + DEFAULT_SAMPLE_RATE_HZ div 4, r_fftSize = fftSize sw, r_power = high\<rparr>,
                Line \<lparr>r_time = time_stamp sw, r_low = frequency + DEFAULT_SAMPLE_RATE_HZ div 2,
                      r_high = frequency + DEFAULT_SAMPLE_RATE_HZ * 3 div 4, r_fftSize = fftSize sw, r_power = low\<rparr>] }"

text \<open>
  The spectrum of a block and its output. Binary output writes the fields of a structure into
  an allocation of the size of a pointer, which is undefined.
\<close>

definition spectrum_block ::
  "('c, 'p) dsp \<Rightarrow> u8 list \<Rightarrow> u64 \<Rightarrow> 'c receiver \<Rightarrow> (('c, 'p) sweep_output list \<times> 'c receiver) option" where
  "spectrum_block D block frequency sw =
     do { samples \<leftarrow> window_samples (fftSize sw) block;
          let fftwOut = spectrum D samples;
          if binary_output sw then None
          else if ifft_output sw
          then do { sw \<leftarrow> ifft_block frequency fftwOut sw; Some ([], sw) }
          else do { out \<leftarrow> text_block frequency (map (logPower D) fftwOut) sw; Some (out, sw) } }"

section \<open>The callback\<close>

text \<open>Block \<open>j\<close>; the flag is \<open>True\<close> when the callback returns before the next block.\<close>

definition rx_block ::
  "('c, 'p) dsp \<Rightarrow> int \<times> int \<Rightarrow> nat \<Rightarrow> u8 list \<Rightarrow> 'c receiver \<Rightarrow> ((bool \<times> ('c, 'p) sweep_output list) \<times> 'c receiver) option" where
  "rx_block D now j block sw =
     (case header_frequency block of
        None \<Rightarrow> Some ((False, []), sw)
      | Some frequency \<Rightarrow>
          let (out, sw) = (if frequency = first_frequency sw then start_of_sweep D now j sw else ([], sw))
          in if sw_exit sw then Some ((True, out), sw)
             else if \<not> sweep_started sw then Some ((False, out), sw)
             else if ucast FREQ_MAX_MHZ * 1000000 < frequency then Some ((False, out), sw)
             else do { (out', sw) \<leftarrow> spectrum_block D block frequency sw; Some ((False, out @ out'), sw) })"

fun rx_blocks ::
  "('c, 'p) dsp \<Rightarrow> int \<times> int \<Rightarrow> nat \<Rightarrow> u8 list list \<Rightarrow> 'c receiver \<Rightarrow> (('c, 'p) sweep_output list \<times> 'c receiver) option" where
  "rx_blocks D now j [] sw = Some ([], sw)"
| "rx_blocks D now j (block # blocks) sw =
     do { ((stop, out), sw) \<leftarrow> rx_block D now j block sw;
          if stop then Some (out, sw)
          else do { (out', sw) \<leftarrow> rx_blocks D now (Suc j) blocks sw; Some (out @ out', sw) } }"

text \<open>
  The callback on a sample buffer. It reads all 16 blocks, whatever the valid length is.
\<close>

definition blocks_of :: "u8 list \<Rightarrow> u8 list list" where
  "blocks_of buffer = map (\<lambda>j. take 16384 (drop (j * 16384) buffer)) [0..<BLOCKS_PER_TRANSFER]"

definition rx_callback ::
  "('c, 'p) dsp \<Rightarrow> int \<times> int \<Rightarrow> u8 list \<Rightarrow> int \<Rightarrow> 'c receiver \<Rightarrow> ((int \<times> ('c, 'p) sweep_output list) \<times> 'c receiver) option" where
  "rx_callback D now buffer valid_length sw =
     (if \<not> fd_open sw then Some ((-1, []), sw)
      else if length buffer < BLOCKS_PER_TRANSFER * 16384 then None
      else let sw = sw\<lparr>byte_count := byte_count sw + of_int valid_length\<rparr>
           in do { (out, sw) \<leftarrow> rx_blocks D now 0 (blocks_of buffer) sw; Some ((0, out), sw) })"


section \<open>Text output\<close>

text \<open>The receivers that write text, and a spectrum that has one entry for every sample.\<close>

definition text_mode :: "'c receiver \<Rightarrow> bool" where
  "text_mode sw \<longleftrightarrow> \<not> binary_output sw \<and> \<not> ifft_output sw \<and> 4 \<le> fftSize sw \<and> fftSize sw \<le> 8192"

definition pointwise :: "('c, 'p) dsp \<Rightarrow> bool" where
  "pointwise D \<longleftrightarrow> (\<forall>xs. length (spectrum D xs) = length xs)"

definition lines_of :: "('c, 'p) dsp \<Rightarrow> u8 list \<Rightarrow> u64 \<Rightarrow> 'c receiver \<Rightarrow> ('c, 'p) sweep_output list" where
  "lines_of D block frequency sw =
     (let n = fftSize sw; k = length block - 2 * n;
          ps = map (logPower D) (spectrum D (map (\<lambda>i. (sint (block ! (k + i * 2)), sint (block ! (k + i * 2 + 1)))) [0..<n]))
      in [Line \<lparr>r_time = time_stamp sw, r_low = frequency, r_high = frequency + 5000000, r_fftSize = n,
                r_power = map (\<lambda>i. ps ! (i + 1 + n * 5 div 8)) [0..<n div 4]\<rparr>,
          Line \<lparr>r_time = time_stamp sw, r_low = frequency + 10000000, r_high = frequency + 15000000, r_fftSize = n,
                r_power = map (\<lambda>i. ps ! (i + 1 + n div 8)) [0..<n div 4]\<rparr>])"

lemma quarter_bounds:
  assumes "4 \<le> (n :: nat)"
  shows "n div 4 + 1 + n * 5 div 8 \<le> n" "n div 4 + 1 + n div 8 \<le> n"
proof -
  define q r where "q = n div 8" and "r = n mod 8"
  have n: "n = 8 * q + r" "r < 8" by (simp_all add: q_def r_def)
  have div: "n div 4 = 2 * q + r div 4" "n * 5 div 8 = 5 * q + r * 5 div 8" "n div 8 = q"
    using n(2) by (simp_all add: n(1) div_add1_eq [of "8 * q" r 4] div_add1_eq [of "40 * q" "r * 5" 8] add_mult_distrib mult.commute)
  have "r div 4 + 1 + r * 5 div 8 \<le> r + 3 * 1" using n(2) unfolding less_eight by (elim disjE) simp_all
  moreover have "r div 4 + 1 + r * 5 div 8 \<le> r \<or> r < 4" using n(2) unfolding less_eight by (elim disjE) simp_all
  moreover have "r div 4 \<le> 1" using n(2) by simp
  ultimately show "n div 4 + 1 + n * 5 div 8 \<le> n" "n div 4 + 1 + n div 8 \<le> n"
    using assms unfolding div n(1) by auto
qed

lemma spectrum_block_text:
  assumes "text_mode sw" "pointwise D" "length block = 16384"
  shows "spectrum_block D block f sw = Some (lines_of D block f sw, sw)"
proof -
  have n: "4 \<le> fftSize sw" "2 * fftSize sw \<le> 16384" using assms(1) by (simp_all add: text_mode_def)
  have len: "length (spectrum D xs) = length xs" for xs using assms(2) by (simp add: pointwise_def)
  note bounds = quarter_bounds [OF n(1)]
  show ?thesis
    using assms(1,3) n(2) bounds
    by (simp add: spectrum_block_def window_samples_def text_block_def quarter_def lines_of_def text_mode_def len Let_def
        DEFAULT_SAMPLE_RATE_HZ_def)
qed

section \<open>The blocks that are used\<close>

text \<open>
  What a transfer should do, on the headers alone: the blocks before the \<open>m\<close>-th start of a
  sweep are used (\<open>None\<close>: all), and the frequencies up to 7250 MHz of those from the first
  start on are shown.
\<close>

fun used :: "u64 \<Rightarrow> nat option \<Rightarrow> u64 option list \<Rightarrow> u64 option list" where
  "used f m [] = []"
| "used f m (h # hs) =
     (if h = Some f
      then case m of None \<Rightarrow> h # used f None hs
        | Some m \<Rightarrow> if m \<le> 1 then [] else h # used f (Some (m - 1)) hs
      else h # used f m hs)"

fun shown :: "u64 \<Rightarrow> bool \<Rightarrow> u64 option list \<Rightarrow> u64 list" where
  "shown f on [] = []"
| "shown f on (h # hs) =
     (let on' = (on \<or> h = Some f)
      in (case h of None \<Rightarrow> [] | Some x \<Rightarrow> if on' \<and> x \<le> 7250000000 then [x] else []) @ shown f on' hs)"

text \<open>How many starts of a sweep the receiver still takes before it stops the stream.\<close>

definition starts_left :: "'c receiver \<Rightarrow> nat option" where
  "starts_left sw =
     (let k = (if sweep_started sw then 0 else 1)
      in if one_shot sw then Some (1 + k)
         else if finite_mode sw then Some (unat (num_sweeps sw) - unat (sweep_count sw) + k) else None)"

definition bands :: "u64 \<Rightarrow> (u64 \<times> u64) list" where
  "bands f = [(f, f + 5000000), (f + 10000000, f + 15000000)]"

definition band_of :: "('c, 'p) sweep_output \<Rightarrow> u64 \<times> u64" where
  "band_of x = (case x of Line r \<Rightarrow> (r_low r, r_high r) | Samples _ \<Rightarrow> (0, 0))"

lemma band_of_lines: "map band_of (lines_of D block f sw) = bands f"
  by (simp add: lines_of_def bands_def band_of_def Let_def)

text \<open>Receivers that may still run: with a finite number of sweeps, some are left.\<close>

definition running :: "'c receiver \<Rightarrow> bool" where
  "running sw \<longleftrightarrow> text_mode sw \<and> \<not> sw_exit sw \<and>
     (\<not> one_shot sw \<and> finite_mode sw \<longrightarrow> unat (sweep_count sw) < unat (num_sweeps sw))"

text \<open>The start of a sweep, as an update of the receiver.\<close>

definition at_start :: "int \<times> int \<Rightarrow> nat \<Rightarrow> 'c receiver \<Rightarrow> 'c receiver" where
  "at_start now j sw = sw\<lparr>
     sw_exit := starts_left sw = Some 1,
     sweep_count := sweep_count sw + of_bool (sweep_started sw),
     time_stamp := block_time now (num_samples sw) j,
     sweep_started := True\<rparr>"

lemma count_hits:
  assumes "unat (c :: u64) < unat (n :: u32)"
  shows "c + 1 = ucast n \<longleftrightarrow> unat n - unat c = 1" "unat (c + 1) = Suc (unat c)"
proof -
  have n: "unat n < 4294967296" using unsigned_less [of n] by simp
  then show c: "unat (c + 1) = Suc (unat c)" using assms by (simp add: unat_word_ariths)
  have "unat (ucast n :: u64) = unat n" using n by (simp add: unsigned_ucast_eq take_bit_nat_eq_self)
  with c assms show "c + 1 = ucast n \<longleftrightarrow> unat n - unat c = 1" by (auto simp: word_unat_eq_iff)
qed

lemma start_of_sweep_text:
  assumes "running sw"
  shows "start_of_sweep D now j sw = ([], at_start now j sw)"
  using assms count_hits(1) [of "sweep_count sw" "num_sweeps sw"]
  by (cases sw) (auto simp: start_of_sweep_def at_start_def running_def text_mode_def starts_left_def Let_def)

lemma rx_block_text:
  assumes "running sw" "pointwise D" "length block = 16384"
  shows "rx_block D now j block sw =
     (case header_frequency block of None \<Rightarrow> Some ((False, []), sw)
      | Some f \<Rightarrow> let sw' = (if f = first_frequency sw then at_start now j sw else sw)
                  in if sw_exit sw' then Some ((True, []), sw')
                     else Some ((False, if sweep_started sw' \<and> f \<le> 7250000000 then lines_of D block f sw' else []), sw'))"
proof -
  have mode: "text_mode sw" "text_mode (at_start now j sw)" "\<not> sw_exit sw"
    using assms(1) by (simp_all add: running_def at_start_def text_mode_def)
  have max: "ucast FREQ_MAX_MHZ * 1000000 = (7250000000 :: u64)" by (simp add: FREQ_MAX_MHZ_def)
  show ?thesis
    unfolding rx_block_def start_of_sweep_text [OF assms(1)] max
    using spectrum_block_text [OF mode(1) assms(2,3)] spectrum_block_text [OF mode(2) assms(2,3)] mode(3)
    by (auto simp: Let_def not_less split: option.split)
qed

lemma starts_left_pos: "running sw \<Longrightarrow> starts_left sw \<noteq> Some 0"
  by (auto simp: running_def starts_left_def Let_def)

lemma starts_left_one_started: "running sw \<Longrightarrow> starts_left sw = Some 1 \<Longrightarrow> sweep_started sw"
  by (auto simp: running_def starts_left_def Let_def split: if_splits)

lemma at_start_simps [simp]:
  "sweep_started (at_start now j sw)" "sw_exit (at_start now j sw) \<longleftrightarrow> starts_left sw = Some 1"
  "sweep_count (at_start now j sw) = sweep_count sw + of_bool (sweep_started sw)"
  "first_frequency (at_start now j sw) = first_frequency sw"
  by (simp_all add: at_start_def first_frequency_def)

lemma at_start_running:
  assumes "running sw" "starts_left sw \<noteq> Some 1"
  shows "running (at_start now j sw)" "starts_left (at_start now j sw) = map_option (\<lambda>m. m - 1) (starts_left sw)"
proof -
  consider "one_shot sw" | "\<not> one_shot sw" "\<not> finite_mode sw"
    | (fin) "\<not> one_shot sw" "finite_mode sw" "unat (sweep_count sw) < unat (num_sweeps sw)"
    using assms(1) by (auto simp: running_def)
  then have "running (at_start now j sw) \<and> starts_left (at_start now j sw) = map_option (\<lambda>m. m - 1) (starts_left sw)"
  proof cases
    case fin
    with assms count_hits(2) [OF fin(3)] show ?thesis
      by (auto simp: running_def starts_left_def at_start_def text_mode_def Let_def)
  qed (use assms in \<open>auto simp: running_def starts_left_def at_start_def text_mode_def Let_def\<close>)
  then show "running (at_start now j sw)" "starts_left (at_start now j sw) = map_option (\<lambda>m. m - 1) (starts_left sw)"
    by simp_all
qed

text \<open>The number of starts of a sweep in a transfer, and of those that are counted.\<close>

definition starts :: "u64 \<Rightarrow> u64 option list \<Rightarrow> nat" where
  "starts f hs = length (filter (\<lambda>h. h = Some f) hs)"

definition taken :: "nat option \<Rightarrow> nat \<Rightarrow> nat" where
  "taken m k = (case m of None \<Rightarrow> k | Some m \<Rightarrow> min m k)"

definition done_sweeps :: "'c receiver \<Rightarrow> nat \<Rightarrow> nat" where
  "done_sweeps sw k = taken (starts_left sw) k - (if sweep_started sw then 0 else 1)"

lemma starts_simps [simp]: "starts f [] = 0" "starts f (h # hs) = (if h = Some f then Suc (starts f hs) else starts f hs)"
  by (simp_all add: starts_def)

lemma done_sweeps_step:
  assumes "running sw" "starts_left sw \<noteq> Some 1"
  shows "of_bool (sweep_started sw) + of_nat (done_sweeps (at_start now j sw) k) = (of_nat (done_sweeps sw (Suc k)) :: u64)"
  using assms starts_left_pos [OF assms(1)] unfolding done_sweeps_def at_start_running(2) [OF assms]
  by (cases "starts_left sw") (auto simp: taken_def gr0_conv_Suc min_diff)

lemma rx_blocks_text:
  assumes "running sw" "pointwise D" "\<forall>b \<in> set bs. length b = 16384"
  shows "\<exists>out sw'. rx_blocks D now j bs sw = Some (out, sw') \<and>
    map band_of out = concat (map bands (shown (first_frequency sw) (sweep_started sw)
      (used (first_frequency sw) (starts_left sw) (map header_frequency bs)))) \<and>
    (sw_exit sw' \<longleftrightarrow> (\<exists>m. starts_left sw = Some m \<and> m \<le> starts (first_frequency sw) (map header_frequency bs))) \<and>
    sweep_count sw' = sweep_count sw + of_nat (done_sweeps sw (starts (first_frequency sw) (map header_frequency bs)))"
  using assms
proof (induction bs arbitrary: j sw)
  case Nil
  then show ?case
    using starts_left_pos [OF Nil(1)] by (auto simp: running_def done_sweeps_def taken_def split: option.splits)
next
  case (Cons b bs)
  note block = rx_block_text [OF Cons.prems(1,2), of b now j]
  have len: "length b = 16384" using Cons.prems(3) by simp
  have tail: "\<forall>b \<in> set bs. length b = 16384" using Cons.prems(3) by simp
  consider (none) "header_frequency b = None" | (other) x where "header_frequency b = Some x" "x \<noteq> first_frequency sw"
    | (stop) "header_frequency b = Some (first_frequency sw)" "starts_left sw = Some 1"
    | (start) "header_frequency b = Some (first_frequency sw)" "starts_left sw \<noteq> Some 1"
    by (cases "header_frequency b") auto
  then show ?case
  proof cases
    case none
    with Cons.IH [OF Cons.prems(1,2) tail, of "Suc j"] block len show ?thesis by auto
  next
    case other
    with Cons.IH [OF Cons.prems(1,2) tail, of "Suc j"] block len Cons.prems(1) show ?thesis
      by (auto simp: running_def band_of_lines)
  next
    case stop
    with block len starts_left_one_started [OF Cons.prems(1)] show ?thesis
      by (simp add: done_sweeps_def taken_def)
  next
    case start
    let ?sw = "at_start now j sw"
    note run = at_start_running [OF Cons.prems(1) start(2), of now j]
    note steps = done_sweeps_step [OF Cons.prems(1) start(2), of now j, symmetric]
    have blk: "rx_block D now j b sw = Some ((False, if first_frequency sw \<le> 7250000000
        then lines_of D b (first_frequency sw) ?sw else []), ?sw)"
      using block [OF len] start by (simp add: Let_def)
    from Cons.IH [OF run(1) Cons.prems(2) tail, of "Suc j"]
    show ?thesis
      using blk start starts_left_pos [OF Cons.prems(1)]
      by (cases "starts_left sw") (auto simp: run(2) steps band_of_lines algebra_simps)
  qed
qed

section \<open>A transfer\<close>

lemma length_blocks_of: "length buffer = 262144 \<Longrightarrow> \<forall>b \<in> set (blocks_of buffer). length b = 16384"
  by (auto simp: blocks_of_def BLOCKS_PER_TRANSFER_def)

definition headers :: "u8 list \<Rightarrow> u64 option list" where
  "headers buffer = map header_frequency (blocks_of buffer)"

lemma count_bytes_simps [simp]:
  "running (sw\<lparr>byte_count := n\<rparr>) = running sw" "starts_left (sw\<lparr>byte_count := n\<rparr>) = starts_left sw"
  "first_frequency (sw\<lparr>byte_count := n\<rparr>) = first_frequency sw" "done_sweeps (sw\<lparr>byte_count := n\<rparr>) k = done_sweeps sw k"
  by (simp_all add: running_def text_mode_def starts_left_def first_frequency_def done_sweeps_def)


text \<open>The header that the firmware writes.\<close>

definition block_header :: "u64 \<Rightarrow> u8 list" where
  "block_header f = 0x7F # 0x7F # le64 f"

lemma of_le_8:
  "of_le [a, b, c, d, e, f, g, h] =
    (push_bit 56 (ucast h) OR push_bit 48 (ucast g) OR push_bit 40 (ucast f) OR push_bit 32 (ucast e)
      OR push_bit 24 (ucast d) OR push_bit 16 (ucast c) OR push_bit 8 (ucast b) OR ucast a :: u64)"
  by (rule bit_word_eqI) (auto simp: bit_simps)

lemma list_of_8: "length xs = 8 \<Longrightarrow> \<exists>a b c d e f g h. xs = [a, b, c, d, e, f, g, h]"
  by (auto simp: length_Suc_conv numeral_eq_Suc)

lemma header_frequency_bytes:
  assumes "length xs = 8"
  shows "header_frequency (0x7F # 0x7F # xs @ rest) = Some (of_le xs)"
proof -
  obtain a b c d e f g h where "xs = [a, b, c, d, e, f, g, h]" using list_of_8 [OF assms] by blast
  then show ?thesis unfolding header_frequency_def using of_le_8 [of a b c d e f g h] by simp
qed

lemma header_frequency_block: "header_frequency (block_header f @ rest) = Some f"
  unfolding block_header_def append_Cons using header_frequency_bytes [of "le64 f" rest] by simp

text \<open>
  Without an output file, which no part of the program ever opens, \<open>rx_callback\<close> refuses
  every transfer: it has no effect and its answer ends the stream.
\<close>

theorem rx_callback_without_file:
  assumes "\<not> fd_open sw"
  shows "rx_callback D now buffer valid_length sw = Some ((-1, []), sw)"
  using assms by (simp add: rx_callback_def)

section \<open>Time stamps\<close>

lemma block_time_sum:
  assumes now: "0 \<le> snd now" "snd now < 1000000" and j: "j < 16" and samples: "unat samples \<le> 2 ^ 31"
  shows "sint (of_int (snd now) + ucast (samples + THROWAWAY_BLOCKS * SAMPLES_PER_BLOCK) * of_nat j * 1000000
      div DEFAULT_SAMPLE_RATE_HZ :: u64) = snd now + int ((unat samples + 16384) * j div 20)"
proof -
  define m where "m = unat samples + 16384"
  have m: "unat (samples + THROWAWAY_BLOCKS * SAMPLES_PER_BLOCK) = m" "m < 2 ^ 32"
    using samples by (simp_all add: m_def THROWAWAY_BLOCKS_def SAMPLES_PER_BLOCK_def unat_word_ariths)
  then have u: "(ucast (samples + THROWAWAY_BLOCKS * SAMPLES_PER_BLOCK) :: u64) = of_nat m"
    by (metis of_nat_unat)
  have mj: "m * j \<le> 2 ^ 32 * 16" using m(2) j by (intro mult_le_mono) simp_all
  have "(of_nat m * of_nat j * 1000000 :: u64) div DEFAULT_SAMPLE_RATE_HZ = of_nat (m * j * 1000000) div of_nat 20000000"
    by (simp add: DEFAULT_SAMPLE_RATE_HZ_def)
  also have "\<dots> = of_nat (m * j * 1000000 div 20000000)"
  proof -
    have "p * 1000000 < 2 ^ 64" if "p \<le> 2 ^ 32 * 16" for p :: nat using that by simp
    from this [OF mj] have "m * j * 1000000 < 2 ^ 64" .
    moreover from this have "m * j * 1000000 div 20000000 < 2 ^ 64" by (rule le_less_trans [OF div_le_dividend])
    ultimately show ?thesis
      by (simp only: word_unat_eq_iff unat_div_distrib unat_of_nat) (simp add: take_bit_nat_eq_self)
  qed
  also have "m * j * 1000000 div 20000000 = m * j div 20"
    using div_mult_mult2 [of 1000000 "m * j" 20] by simp
  finally have q: "(of_nat m * of_nat j * 1000000 :: u64) div DEFAULT_SAMPLE_RATE_HZ = of_nat (m * j div 20)" .
  have "m * j div 20 \<le> m * j" by (rule div_le_dividend)
  then have "m * j div 20 \<le> 2 ^ 32 * 16" using mj by (rule le_trans)
  then have "int (m * j div 20) \<le> 68719476736" by simp
  then have small: "snd now + int (m * j div 20) < 2 ^ 63" using now(2) by simp
  have "sint (of_int (snd now) + of_nat (m * j div 20) :: u64) = sint (of_int (snd now + int (m * j div 20)) :: u64)" by simp
  also have "\<dots> = snd now + int (m * j div 20)"
    unfolding sint_sbintrunc' using now(1) small by (intro signed_take_bit_int_eq_self) simp_all
  finally show ?thesis unfolding u q m_def [symmetric] .
qed

text \<open>
  The time stamp of a sweep is the arrival time of its transfer plus the duration of the
  blocks before its first one, at \<open>num_samples\<close> and two discarded blocks each and 20 samples
  per microsecond, with its microseconds normalised below a million; nothing overflows for up
  to \<open>2 ^ 31\<close> samples.
\<close>

theorem time_stamp_normalised:
  assumes "0 \<le> snd now" "snd now < 1000000" "j < 16" "unat samples \<le> 2 ^ 31"
  shows "case block_time now samples j of (sec, usec) \<Rightarrow> 0 \<le> usec \<and> usec < 1000000 \<and>
    sec * 1000000 + usec = fst now * 1000000 + snd now + int ((unat samples + 16384) * j div 20)"
  unfolding block_time_def block_time_sum [OF assms] Let_def
  using assms(1) by (auto simp: algebra_simps)

section \<open>The bins of a line\<close>

text \<open>
  The tuner is \<open>OFFSET\<close> above the block's frequency, and bin \<open>b\<close> of an \<open>n\<close>-point transform is
  \<open>signed_bin n b\<close> bins of \<open>20 MHz / n\<close> away from it. \<open>bin_edge\<close> is \<open>n\<close> times the distance in
  Hz from the block's frequency to the lower edge of the bin.
\<close>

definition signed_bin :: "nat \<Rightarrow> nat \<Rightarrow> int" where
  "signed_bin n b = (if 2 * b < n then int b else int b - int n)"

definition bin_edge :: "nat \<Rightarrow> nat \<Rightarrow> int" where
  "bin_edge n b = int n * uint OFFSET + (2 * signed_bin n b - 1) * 10000000"

lemma odd_quarters:
  assumes "n mod 8 = (4 :: nat)"
  obtains k where "n = 8 * k + 4" "n div 4 = 2 * k + 1" "n * 5 div 8 = 5 * k + 2" "n div 8 = k"
proof -
  have "n = 8 * (n div 8) + 4" using mult_div_mod_eq [of 8 n] assms by simp
  then obtain k where n: "n = 8 * k + 4" by blast
  have "n div 4 = 2 * k + 1" "n * 5 div 8 = 5 * k + 2" "n div 8 = k" unfolding n by simp_all
  with n show thesis by (rule that)
qed

text \<open>
  C16. With an odd multiple of four bins, which the rounding of \<open>hackrf_sweep\<close> provides, the two
  lines of a block hold \<open>n / 4\<close> bins each that tile exactly the bands they announce: bin \<open>i\<close> of
  the first line begins \<open>i\<close> bin widths above the block's frequency, bin \<open>i\<close> of the second one
  10 MHz higher, and \<open>n / 4\<close> bin widths are 5 MHz. No bin is read outside the spectrum.
\<close>

theorem lines_tile_their_bands:
  assumes "fftSize sw mod 8 = 4" "length powers = fftSize sw"
  shows "\<exists>a b. text_block f powers sw = Some [Line a, Line b] \<and>
    r_low a = f \<and> r_high a = f + 5000000 \<and> r_low b = f + 10000000 \<and> r_high b = f + 15000000 \<and>
    length (r_power a) = fftSize sw div 4 \<and> length (r_power b) = fftSize sw div 4 \<and>
    int (fftSize sw div 4) * 20000000 = int (fftSize sw) * 5000000 \<and>
    (\<forall>i < fftSize sw div 4. \<exists>c < fftSize sw. \<exists>d < fftSize sw.
       r_power a ! i = powers ! c \<and> bin_edge (fftSize sw) c = int i * 20000000 \<and>
       r_power b ! i = powers ! d \<and> bin_edge (fftSize sw) d = int (fftSize sw) * 10000000 + int i * 20000000)"
proof -
  obtain k where n: "fftSize sw = 8 * k + 4" and div: "fftSize sw div 4 = 2 * k + 1" "fftSize sw * 5 div 8 = 5 * k + 2"
      "fftSize sw div 8 = k"
    using odd_quarters [OF assms(1)] .
  have edges: "bin_edge (fftSize sw) (i + 1 + (5 * k + 2)) = int i * 20000000"
    "bin_edge (fftSize sw) (i + 1 + k) = int (fftSize sw) * 10000000 + int i * 20000000" if "i < 2 * k + 1" for i
    using that by (simp_all add: bin_edge_def signed_bin_def n OFFSET_def)
  have "\<exists>c < fftSize sw. \<exists>d < fftSize sw.
      map (\<lambda>i. powers ! (i + 1 + (5 * k + 2))) [0..<2 * k + 1] ! i = powers ! c \<and> bin_edge (fftSize sw) c = int i * 20000000 \<and>
      map (\<lambda>i. powers ! (i + 1 + k)) [0..<2 * k + 1] ! i = powers ! d \<and>
      bin_edge (fftSize sw) d = int (fftSize sw) * 10000000 + int i * 20000000" if i: "i < 2 * k + 1" for i
    using i edges [OF i]
    by (intro exI [of _ "i + 1 + (5 * k + 2)"] exI [of _ "i + 1 + k"] conjI) (simp_all add: n del: upt_Suc)
  then show ?thesis
    unfolding text_block_def quarter_def div assms(2)
    by (simp add: n DEFAULT_SAMPLE_RATE_HZ_def del: upt_Suc)
qed

section \<open>The input of the inverse transform\<close>

lemma store_at_fits: "k + length ys \<le> length xs \<Longrightarrow> \<exists>zs. store_at k ys xs = Some zs \<and> length zs = length xs"
  by (simp add: store_at_def)

lemma multiple_fits:
  assumes "q dvd a" "a < q * c"
  shows "a + q \<le> q * (c :: nat)"
proof -
  obtain b where a: "a = q * b" using assms(1) by (elim dvdE)
  with assms(2) have "q * Suc b \<le> q * c" by (intro mult_le_mono2) simp
  with a show ?thesis by simp
qed

lemma unat_of_nat_u64: "n < 2 ^ 64 \<Longrightarrow> unat (of_nat n :: u64) = n"
  by (simp add: unat_of_nat take_bit_nat_eq_self)

lemma u32_mod_add:
  assumes "a + b < 2 ^ 32" "c < 2 ^ 32"
  shows "unat ((of_nat a + of_nat b :: u32) mod of_nat c) = (a + b) mod c"
  using assms unat_of_nat_u32 [of "a + b"] unat_of_nat_u32 [of c] by (simp add: unat_mod_distrib)

text \<open>
  The index of a block, and that of its second half: multiples of the quarter \<open>q\<close> of a transform
  below the length \<open>4 q s\<close> of the input.
\<close>

lemma ifft_index_value:
  assumes "fftSize sw = 4 * q" "step_count sw = int s" "0 < q" "0 < s" "q * (4 * s) < 2 ^ 30"
    and f: "f = first_frequency sw + of_nat (5000000 * m)" "5000000 * m < 2 ^ 64" "q * m < 2 ^ 29"
  shows "\<exists>w. ifft_index f sw = Some w \<and> unat w = q * (m + 2 * s) mod (q * (4 * s))"
proof -
  define l where "l = q * (4 * s)"
  have l: "0 < l" "l < 2 ^ 30" "l div 2 = 2 * q * s" using assms(3-5) by (simp_all add: l_def)
  have bins: "ifft_bins sw = int l" "ifft_bins sw div 2 = int (2 * q * s)"
    using assms(1,2) l(3) by (simp_all add: ifft_bins_def l_def flip: of_nat_mult of_nat_div)
  have "unat (of_nat l :: u32) = l" using l(2) by (intro unat_of_nat_u32) simp
  then have nonzero: "(of_int (ifft_bins sw) :: u32) \<noteq> 0" using l(1) unfolding bins of_int_of_nat_eq by auto
  have "unat (f - first_frequency sw) = 5000000 * m"
    using f(1,2) unat_of_nat_u64 [of "5000000 * m"] by simp
  then have "(2 * unat (f - first_frequency sw) * fftSize sw + unat DEFAULT_SAMPLE_RATE_HZ) div (2 * unat DEFAULT_SAMPLE_RATE_HZ) = q * m"
    by (simp add: assms(1) DEFAULT_SAMPLE_RATE_HZ_def)
  then have idx: "ifft_index f sw = Some ((of_nat (q * m) + of_nat (2 * q * s)) mod of_nat l)"
    using nonzero f(3) unfolding ifft_index_def Let_def bins(2) unfolding bins(1) of_int_of_nat_eq by simp
  have "2 * q * s \<le> l" using div_le_dividend [of l 2] unfolding l(3) .
  then have "q * m + 2 * q * s < 2 ^ 32" "l < 2 ^ 32" using f(3) l(2) by simp_all
  then have "unat ((of_nat (q * m) + of_nat (2 * q * s) :: u32) mod of_nat l) = (q * m + 2 * q * s) mod l"
    by (rule u32_mod_add)
  with idx show ?thesis by (simp add: l_def algebra_simps)
qed

lemma second_half:
  assumes "q * (4 * s) < 2 ^ 30" "0 < q" "0 < s" "q dvd unat w" "unat w < q * (4 * s)"
  shows "unat ((w + of_nat (2 * q) :: u32) mod of_nat (q * (4 * s))) + q \<le> q * (4 * s)"
proof -
  define l where "l = q * (4 * s)"
  have l: "l < 2 ^ 30" "unat w < l" using assms(1,5) by (simp_all only: l_def)
  have "q * 2 \<le> l" unfolding l_def by (rule mult_le_mono2) (use assms(3) in simp)
  with l have "unat w + 2 * q < 2 ^ 32" "l < 2 ^ 32" by simp_all
  then have w': "unat ((w + of_nat (2 * q)) mod of_nat l) = (unat w + 2 * q) mod l"
    using u32_mod_add [of "unat w" "2 * q" l] by simp
  have "q dvd (unat w + 2 * q) mod l" using assms(4) by (simp add: dvd_mod l_def)
  moreover have "(unat w + 2 * q) mod l < l" using assms(2,3) by (simp add: l_def)
  ultimately show ?thesis unfolding w' [unfolded l_def] using multiple_fits [of q _ "4 * s"] by (simp add: l_def)
qed

text \<open>
  C23. In inverse-transform mode, for a block whose frequency is a multiple of 5 MHz above the
  first one, both quarters land inside the input of the inverse transform: the index is a
  multiple of their length, so that a quarter never crosses the end.
\<close>

theorem ifft_block_in_bounds:
  assumes n: "fftSize sw mod 8 = 4" and out: "length fftwOut = fftSize sw"
    and ifft: "step_count sw = int s" "0 < s" "length (ifftwIn sw) = fftSize sw * s" "fftSize sw * s < 2 ^ 30"
    and f: "f = first_frequency sw + of_nat (5000000 * m)" "5000000 * m < 2 ^ 64" "fftSize sw * m < 2 ^ 31"
  shows "\<exists>xs. ifft_block f fftwOut sw = Some (sw\<lparr>ifftwIn := xs\<rparr>) \<and> length xs = length (ifftwIn sw) \<and>
    ifft_index f sw = Some (of_nat ((fftSize sw div 4 * (m + 2 * s)) mod (fftSize sw * s)))"
proof -
  define q where "q = fftSize sw div 4"
  obtain k where k: "fftSize sw = 8 * k + 4" "q = 2 * k + 1" using odd_quarters [OF n] unfolding q_def by metis
  then have size: "fftSize sw = 4 * q" "fftSize sw div 2 = 2 * q" "0 < q" and four: "4 \<le> fftSize sw" by simp_all
  define l where "l = q * (4 * s)"
  have l: "l < 2 ^ 30" "length (ifftwIn sw) = l" "fftSize sw * s = l" "0 < l" using ifft size by (simp_all add: l_def)
  have bins: "ifft_bins sw = int l" using ifft(1) size(1) by (simp add: ifft_bins_def l_def)
  have "q * m < 2 ^ 29" using f(3) size(1) by (simp add: mult.commute)
  then obtain w where w: "ifft_index f sw = Some w" "unat w = q * (m + 2 * s) mod l"
    using ifft_index_value [OF size(1) ifft(1) size(3) ifft(2) _ f(1,2)] l(1) by (auto simp: l_def)
  have low: "unat w < l" "q dvd unat w" using l(4) unfolding w(2) by (simp_all add: dvd_mod l_def)
  have first: "unat w + q \<le> l" using multiple_fits [of q "unat w" "4 * s"] low by (simp add: l_def)
  define w2 where "w2 = unat ((w + of_nat (2 * q)) mod of_nat l)"
  have second: "w2 + q \<le> l"
    using second_half [of q s w] l(1) size(3) ifft(2) low by (simp add: w2_def l_def)
  obtain high low where quarters: "quarter (fftSize sw) (fftSize sw * 5 div 8) fftwOut = Some high"
      "quarter (fftSize sw) (fftSize sw div 8) fftwOut = Some low" "length high = q" "length low = q"
    using quarter_bounds [of "fftSize sw"] four out by (simp add: quarter_def q_def)
  obtain xs where xs: "store_at (unat w) high (ifftwIn sw) = Some xs" "length xs = l"
    using store_at_fits [of "unat w" high "ifftwIn sw"] first quarters(3) l(2) by auto
  obtain ys where ys: "store_at w2 low xs = Some ys" "length ys = l"
    using store_at_fits [of w2 low xs] second quarters(4) xs(2) by auto
  have block: "ifft_block f fftwOut sw = Some (sw\<lparr>ifftwIn := ys\<rparr>)"
    unfolding ifft_block_def bins of_int_of_nat_eq size(2)
    by (simp only: quarters xs ys w(1) Option.bind.bind_lunit Let_def flip: w2_def)
  have "ifft_index f sw = Some (of_nat (unat w))" unfolding of_nat_unat ucast_id by (rule w(1))
  then show ?thesis
    using block ys(2) l(2,3) unfolding w(2) by (auto simp: q_def)
qed

section \<open>Examples\<close>

definition example_receiver :: "bool \<Rightarrow> nat \<Rightarrow> int list \<Rightarrow> int receiver" where
  "example_receiver ifft steps xs = \<lparr>num_samples = 8192, num_sweeps = 0, num_ranges = 1,
     frequencies = 2400 # 2500 # replicate 18 0, step_count = int steps, sw_exit = False, fd_open = True, byte_count = 0,
     sweep_count = 0, time_stamp = (0, 0), amp = False, amp_enable = 0, antenna = False, antenna_enable = 0,
     binary_output = False, ifft_output = ifft, one_shot = True, finite_mode = False, sweep_started = False,
     fftSize = 20, fft_blocks = 4, fft_plans = 1, sw_device = NULL, ifftwIn = xs\<rparr>"

definition example_dsp :: "(int, int) dsp" where
  "example_dsp = \<lparr>spectrum = map fst, logPower = (\<lambda>x. x), inverse_spectrum = (\<lambda>xs. xs)\<rparr>"

definition example_block :: "u64 \<Rightarrow> u8 list" where
  "example_block f = block_header f @ replicate 16374 0"

definition example_blocks :: "u8 list list" where
  "example_blocks = [example_block 2405000000, example_block 2400000000, example_block 2420000000,
     example_block 2400000000] @ replicate 12 (example_block 2405000000)"

lemma nth_concat_blocks:
  "\<forall>b \<in> set bs. length b = n \<Longrightarrow> j < length bs \<Longrightarrow> take n (drop (j * n) (concat bs)) = bs ! j"
  by (induction bs arbitrary: j) (auto simp: less_Suc_eq_0_disj)

lemma length_example_block [simp]: "length (example_block f) = 16384"
  by (simp add: example_block_def block_header_def)

lemma blocks_of_concat:
  assumes "length bs = 16" "\<forall>b \<in> set bs. length b = 16384"
  shows "blocks_of (concat bs) = bs"
  using nth_concat_blocks [OF assms(2)] assms(1)
  by (intro nth_equalityI) (simp_all add: blocks_of_def BLOCKS_PER_TRANSFER_def)

lemma example_buffer:
  "length (concat example_blocks) = 262144"
  "headers (concat example_blocks) =
    [Some 2405000000, Some 2400000000, Some 2420000000, Some 2400000000] @ replicate 12 (Some 2405000000)"
proof -
  show "length (concat example_blocks) = 262144"
    by (simp add: example_blocks_def length_concat sum_list_replicate)
  have "blocks_of (concat example_blocks) = example_blocks"
    by (rule blocks_of_concat) (auto simp: example_blocks_def)
  then show "headers (concat example_blocks) =
      [Some 2405000000, Some 2400000000, Some 2420000000, Some 2400000000] @ replicate 12 (Some 2405000000)"
    by (simp add: headers_def example_blocks_def example_block_def header_frequency_block)
qed

lemma example_used:
  "used 2400000000 (Some 2) ([Some 2405000000, Some 2400000000, Some 2420000000, Some 2400000000] @ hs) =
    [Some 2405000000, Some 2400000000, Some 2420000000]"
  "shown 2400000000 False [Some 2405000000, Some 2400000000, Some 2420000000] = [2400000000, 2420000000]"
  by simp_all

lemma example_starts:
  "starts 2400000000 ([Some 2405000000, Some 2400000000, Some 2420000000, Some 2400000000] @ replicate 12 (Some 2405000000)) = 2"
  by (simp add: starts_def)


theorem rx_callback_without_file_witness:
  "rx_callback example_dsp (5, 0) [] 262144 ((example_receiver False 5 [])\<lparr>fd_open := False\<rparr>) =
    Some ((-1, []), (example_receiver False 5 [])\<lparr>fd_open := False\<rparr>)"
  by (rule rx_callback_without_file) simp

theorem time_stamp_normalised_witness:
  "case block_time (5, 999999) 8192 3 of (sec, usec) \<Rightarrow> usec < 1000000 \<and> sec * 1000000 + usec = 6003685"
  using time_stamp_normalised [of "(5, 999999)" 3 8192] by (auto split: prod.splits)

theorem lines_tile_their_bands_witness:
  "\<exists>a b. text_block 2400000000 (replicate 20 (7 :: int)) (example_receiver False 5 []) = Some [Line a, Line b] \<and>
    r_low b = 2410000000 \<and> length (r_power b) = 5"
  using lines_tile_their_bands [of "example_receiver False 5 []" "replicate 20 7" 2400000000]
  by (auto simp: example_receiver_def)

theorem ifft_block_in_bounds_witness:
  "\<exists>xs. ifft_block 2415000000 (replicate 20 7) (example_receiver True 5 (replicate 100 0)) =
      Some ((example_receiver True 5 (replicate 100 0))\<lparr>ifftwIn := xs\<rparr>) \<and> length xs = 100"
  using ifft_block_in_bounds [of "example_receiver True 5 (replicate 100 0)" "replicate 20 7" 5 2415000000 3]
  by (auto simp: example_receiver_def first_frequency_def)

end
