(* ===== verification/Receiver_Shape.thy ===== *)
theory Receiver_Shape
  imports Sweep_Callback
begin

text \<open>
  What the sample callback keeps of the receiver, whatever its floating-point part computes: the
  configuration of the sweep, the sizes of its arrays, and the form of the output.
\<close>

section \<open>Shape\<close>

text \<open>Everything but the counters, the time stamp and the contents of the transform's input.\<close>

definition configuration :: "'c receiver \<Rightarrow> 'c receiver" where
  "configuration sw =
     sw\<lparr>byte_count := 0, sweep_count := 0, time_stamp := (0, 0), sweep_started := False, sw_exit := False, ifftwIn := []\<rparr>"

definition same_shape :: "'c receiver \<Rightarrow> 'c receiver \<Rightarrow> bool" where
  "same_shape sw sw' \<longleftrightarrow> configuration sw' = configuration sw \<and> length (ifftwIn sw') = length (ifftwIn sw) \<and>
     (sweep_started sw \<longrightarrow> sweep_started sw') \<and> (sw_exit sw \<longrightarrow> sw_exit sw')"

text \<open>Lines carry a quarter of the bins of the transform each; samples come only in inverse mode.\<close>

definition well_formed :: "'c receiver \<Rightarrow> ('c, 'p) sweep_output \<Rightarrow> bool" where
  "well_formed sw out =
     (case out of
        Line w \<Rightarrow> \<not> ifft_output sw \<and> \<not> binary_output sw \<and> r_fftSize w = fftSize sw \<and> length (r_power w) = fftSize sw div 4
      | Samples xs \<Rightarrow> ifft_output sw)"

lemma same_shape_refl [simp]: "same_shape sw sw"
  by (simp add: same_shape_def)

lemma same_shape_trans [trans]: "same_shape a b \<Longrightarrow> same_shape b c \<Longrightarrow> same_shape a c"
  by (simp add: same_shape_def)

lemma configuration_fields:
  assumes "configuration sw' = configuration sw"
  shows "ifft_output sw' = ifft_output sw" "binary_output sw' = binary_output sw" "fftSize sw' = fftSize sw"
    "frequencies sw' = frequencies sw" "step_count sw' = step_count sw" "fd_open sw' = fd_open sw"
  using arg_cong [OF assms, of ifft_output] arg_cong [OF assms, of binary_output] arg_cong [OF assms, of fftSize]
    arg_cong [OF assms, of frequencies] arg_cong [OF assms, of step_count] arg_cong [OF assms, of fd_open]
  by (simp_all add: configuration_def)

lemma well_formed_shape:
  assumes "same_shape sw sw'"
  shows "well_formed sw' out = well_formed sw out"
proof -
  from assms have c: "configuration sw' = configuration sw" by (simp add: same_shape_def)
  show ?thesis unfolding well_formed_def configuration_fields [OF c] by (rule refl)
qed

section \<open>The steps of the callback\<close>

lemma start_of_sweep_shape:
  assumes "start_of_sweep D now j sw = (out, sw')"
  shows "same_shape sw sw' \<and> (\<forall>x \<in> set out. well_formed sw x)"
  using assms
  by (auto simp: start_of_sweep_def same_shape_def configuration_def well_formed_def Let_def split: if_splits)

lemma quarter_length: "quarter n k xs = Some ys \<Longrightarrow> length ys = n div 4"
  by (auto simp: quarter_def split: if_splits)

lemma store_at_length: "store_at k ys xs = Some zs \<Longrightarrow> length zs = length xs"
  by (auto simp: store_at_def split: if_splits)

lemma ifft_block_shape: "ifft_block f xs sw = Some sw' \<Longrightarrow> same_shape sw sw'"
  by (auto simp: ifft_block_def bind_eq_Some_conv Let_def same_shape_def configuration_def dest!: store_at_length)

lemma spectrum_block_shape:
  assumes "spectrum_block D block f sw = Some (out, sw')"
  shows "same_shape sw sw' \<and> (\<forall>x \<in> set out. well_formed sw x)"
  using assms
  by (auto simp: spectrum_block_def bind_eq_Some_conv Let_def text_block_def well_formed_def
      split: if_splits dest!: quarter_length ifft_block_shape)

lemma rx_block_shape:
  assumes "rx_block D now j block sw = Some ((stop, out), sw')"
  shows "same_shape sw sw' \<and> (\<forall>x \<in> set out. well_formed sw x)"
proof (cases "header_frequency block")
  case None
  with assms show ?thesis by (simp add: rx_block_def)
next
  case (Some f)
  obtain out1 sw1 where start: "(if f = first_frequency sw then start_of_sweep D now j sw else ([], sw)) = (out1, sw1)"
    by fastforce
  then have one: "same_shape sw sw1 \<and> (\<forall>x \<in> set out1. well_formed sw x)"
    by (auto split: if_splits dest!: start_of_sweep_shape)
  from assms Some start
  have "(\<exists>out2. spectrum_block D block f sw1 = Some (out2, sw') \<and> out = out1 @ out2) \<or> sw' = sw1 \<and> out = out1"
    by (auto simp: rx_block_def bind_eq_Some_conv split: if_splits)
  then show ?thesis
    using one spectrum_block_shape [of D block f sw1] by (auto dest: same_shape_trans simp: well_formed_shape)
qed

lemma rx_blocks_shape:
  "rx_blocks D now j blocks sw = Some (out, sw') \<Longrightarrow> same_shape sw sw' \<and> (\<forall>x \<in> set out. well_formed sw x)"
proof (induction blocks arbitrary: j sw out)
  case Nil
  then show ?case by simp
next
  case (Cons block blocks)
  from Cons.prems obtain stop out1 sw1 where one: "rx_block D now j block sw = Some ((stop, out1), sw1)"
    and rest: "stop \<and> out = out1 \<and> sw' = sw1 \<or>
      (\<exists>out2. rx_blocks D now (Suc j) blocks sw1 = Some (out2, sw') \<and> out = out1 @ out2)"
    by (auto simp: bind_eq_Some_conv split: if_splits)
  from rest rx_block_shape [OF one] Cons.IH show ?case
    by (fastforce dest: same_shape_trans simp: well_formed_shape)
qed



end
