(* ===== verification/Sweep_Coverage.thy ===== *)
theory Sweep_Coverage
  imports Receiver_Shape
begin

text \<open>
  The plan of a sweep, the hops of the device and the sample callback put together: what the
  callback has written after all the transfers of a stream, and that it is the spectrum of the
  requested ranges, with nothing missing and nothing twice.
\<close>

section \<open>The transfers of a stream\<close>

text \<open>The callback on one transfer after the other, until its answer ends the stream.\<close>

fun rx_stream ::
  "('c, 'p) dsp \<Rightarrow> ((int \<times> int) \<times> u8 list \<times> int) list \<Rightarrow> 'c receiver \<Rightarrow> (('c, 'p) sweep_output list \<times> 'c receiver) option" where
  "rx_stream D [] sw = Some ([], sw)"
| "rx_stream D ((now, buffer, valid_length) # ts) sw =
     do { ((result, out), sw) \<leftarrow> rx_callback D now buffer valid_length sw;
          if result \<noteq> 0 then Some (out, sw)
          else do { (out', sw) \<leftarrow> rx_stream D ts sw; Some (out @ out', sw) } }"

lemma used_None: "used f None hs = hs"
  by (induction hs) auto

lemma used_append:
  "0 < m \<Longrightarrow> used f (Some m) (hs @ hs') =
     (if m \<le> starts f hs then used f (Some m) hs else hs @ used f (Some (m - starts f hs)) hs')"
  by (induction hs arbitrary: m) auto

lemma used_all: "starts f hs < m \<Longrightarrow> used f (Some m) hs = hs"
  by (induction hs arbitrary: m) auto

lemma shown_append:
  "shown f on (hs @ hs') = shown f on hs @ shown f (on \<or> 0 < starts f hs) hs'"
  by (induction hs arbitrary: on) (auto simp: Let_def)

lemma starts_append [simp]: "starts f (hs @ hs') = starts f hs + starts f hs'"
  by (induction hs) auto

text \<open>The receiver after a transfer that does not complete the last sweep.\<close>

lemma rx_blocks_running:
  assumes "running sw" "pointwise D" "\<forall>b \<in> set bs. length b = 16384"
    and "rx_blocks D now j bs sw = Some (out, sw')" "\<not> sw_exit sw'"
  shows "running sw' \<and> first_frequency sw' = first_frequency sw \<and>
    sweep_started sw' = (sweep_started sw \<or> 0 < starts (first_frequency sw) (map header_frequency bs)) \<and>
    starts_left sw' = map_option (\<lambda>m. m - starts (first_frequency sw) (map header_frequency bs)) (starts_left sw)"
  using assms
proof (induction bs arbitrary: j sw out)
  case Nil
  then show ?case by (cases "starts_left sw") auto
next
  case (Cons b bs)
  note block = rx_block_text [OF Cons.prems(1,2), of b now j]
  have len: "length b = 16384" "\<forall>b \<in> set bs. length b = 16384" using Cons.prems(3) by simp_all
  consider (other) "header_frequency b \<noteq> Some (first_frequency sw)"
    | (stop) "header_frequency b = Some (first_frequency sw)" "starts_left sw = Some 1"
    | (start) "header_frequency b = Some (first_frequency sw)" "starts_left sw \<noteq> Some 1" by auto
  then show ?case
  proof cases
    case other
    with block [OF len(1)] Cons.prems(1,4) obtain out2 where "rx_blocks D now (Suc j) bs sw = Some (out2, sw')"
      by (auto simp: running_def bind_eq_Some_conv Let_def split: option.splits if_splits)
    from Cons.IH [OF Cons.prems(1,2) len(2) this Cons.prems(5)] other show ?thesis by simp
  next
    case stop
    with block [OF len(1)] Cons.prems(4,5) show ?thesis by (auto simp: Let_def)
  next
    case start
    note run = at_start_running [OF Cons.prems(1) start(2), of now j]
    from start block [OF len(1)] Cons.prems(4) obtain out2 where
        "rx_blocks D now (Suc j) bs (at_start now j sw) = Some (out2, sw')"
      by (auto simp: bind_eq_Some_conv Let_def split: if_splits)
    from Cons.IH [OF run(1) Cons.prems(2) len(2) this Cons.prems(5)] start show ?thesis
      unfolding run(2) at_start_simps by (cases "starts_left sw") auto
  qed
qed

text \<open>Once the receiver wants to stop, the blocks that still arrive write nothing.\<close>

lemma start_of_sweep_no_text:
  "text_mode sw \<Longrightarrow> \<exists>sw'. start_of_sweep D now j sw = ([], sw')"
  by (auto simp: start_of_sweep_def text_mode_def Let_def)

lemma rx_block_exiting:
  assumes "text_mode sw" "sw_exit sw"
  shows "\<exists>stop sw'. rx_block D now j block sw = Some ((stop, []), sw')"
proof -
  obtain sw' where "start_of_sweep D now j sw = ([], sw')" using start_of_sweep_no_text [OF assms(1)] by blast
  moreover have "sw_exit sw'" using start_of_sweep_shape [OF calculation] assms(2) by (simp add: same_shape_def)
  ultimately show ?thesis using assms(2) by (auto simp: rx_block_def split: option.split)
qed

lemma text_mode_shape: "same_shape sw sw' \<Longrightarrow> text_mode sw' = text_mode sw"
  using configuration_fields [of sw' sw] by (simp add: same_shape_def text_mode_def)

lemma rx_blocks_exiting:
  "text_mode sw \<Longrightarrow> sw_exit sw \<Longrightarrow> \<exists>sw'. rx_blocks D now j bs sw = Some ([], sw')"
proof (induction bs arbitrary: j sw)
  case (Cons b bs)
  obtain stop sw1 where one: "rx_block D now j b sw = Some ((stop, []), sw1)"
    using rx_block_exiting [OF Cons.prems] by blast
  from rx_block_shape [OF one] have "text_mode sw1" "sw_exit sw1"
    using Cons.prems text_mode_shape [of sw sw1] by (auto simp: same_shape_def)
  with Cons.IH [of sw1 "Suc j"] one show ?case by auto
qed simp

text \<open>One transfer in text mode.\<close>

lemma rx_callback_blocks:
  assumes "fd_open sw" "length buffer = 262144"
  shows "rx_callback D now buffer n sw =
    map_option (\<lambda>(out, sw'). ((0, out), sw')) (rx_blocks D now 0 (blocks_of buffer) (sw\<lparr>byte_count := byte_count sw + of_int n\<rparr>))"
  using assms by (simp add: rx_callback_def BLOCKS_PER_TRANSFER_def Let_def map_option_case split: option.split)

lemma rx_callback_open:
  assumes "rx_callback D now buffer n sw = Some ((r, out), sw')" "fd_open sw" "length buffer = 262144"
  shows "fd_open sw' \<and> text_mode sw' = text_mode sw \<and> (sw_exit sw \<longrightarrow> sw_exit sw')"
proof -
  let ?sw = "sw\<lparr>byte_count := byte_count sw + of_int n\<rparr>"
  from assms have "rx_blocks D now 0 (blocks_of buffer) ?sw = Some (out, sw')"
    by (auto simp: rx_callback_blocks)
  then have "same_shape ?sw sw'" using rx_blocks_shape by blast
  with assms(2) show ?thesis
    using configuration_fields(6) [of sw' ?sw] text_mode_shape [of ?sw sw'] by (auto simp: same_shape_def text_mode_def)
qed

lemma rx_callback_exiting:
  assumes "text_mode sw" "sw_exit sw" "fd_open sw" "length buffer = 262144"
  shows "\<exists>sw'. rx_callback D now buffer n sw = Some ((0, []), sw')"
  using rx_blocks_exiting [of "sw\<lparr>byte_count := byte_count sw + of_int n\<rparr>" D now 0 "blocks_of buffer"] assms
  by (auto simp: rx_callback_blocks text_mode_def)

lemma rx_stream_exiting:
  "text_mode sw \<Longrightarrow> sw_exit sw \<Longrightarrow> fd_open sw \<Longrightarrow> \<forall>(now, buffer, n) \<in> set ts. length buffer = 262144 \<Longrightarrow>
    \<exists>sw'. rx_stream D ts sw = Some ([], sw') \<and> sw_exit sw'"
proof (induction ts arbitrary: sw)
  case (Cons t ts)
  obtain now buffer n where t: "t = (now, buffer, n)" by (rule prod_cases3)
  with Cons.prems(4) have len: "length buffer = 262144" "\<forall>(now, buffer, n) \<in> set ts. length buffer = 262144" by simp_all
  obtain sw1 where one: "rx_callback D now buffer n sw = Some ((0, []), sw1)"
    using rx_callback_exiting [OF Cons.prems(1-3) len(1)] by blast
  from rx_callback_open [OF one Cons.prems(3) len(1)] Cons.IH [of sw1] Cons.prems(1,2) len(2) one show ?case
    by (auto simp: t)
qed simp

definition stream_headers :: "((int \<times> int) \<times> u8 list \<times> int) list \<Rightarrow> u64 option list" where
  "stream_headers ts = concat (map (\<lambda>(now, buffer, n). headers buffer) ts)"

lemma stream_headers_simps [simp]:
  "stream_headers [] = []" "stream_headers ((now, buffer, n) # ts) = headers buffer @ stream_headers ts"
  by (simp_all add: stream_headers_def)

lemma rx_stream_text:
  "running sw \<Longrightarrow> fd_open sw \<Longrightarrow> pointwise D \<Longrightarrow> \<forall>(now, buffer, n) \<in> set ts. length buffer = 262144 \<Longrightarrow>
   \<exists>out sw'. rx_stream D ts sw = Some (out, sw') \<and>
     map band_of out = concat (map bands (shown (first_frequency sw) (sweep_started sw)
       (used (first_frequency sw) (starts_left sw) (stream_headers ts)))) \<and>
     (sw_exit sw' \<longleftrightarrow> (\<exists>m. starts_left sw = Some m \<and> m \<le> starts (first_frequency sw) (stream_headers ts)))"
proof (induction ts arbitrary: sw)
  case Nil
  then show ?case using starts_left_pos [OF Nil(1)] by (auto simp: running_def)
next
  case (Cons t ts)
  obtain now buffer n where t: "t = (now, buffer, n)" by (rule prod_cases3)
  let ?sw = "sw\<lparr>byte_count := byte_count sw + of_int n\<rparr>" and ?f = "first_frequency sw"
  from t Cons.prems(4) have len: "length buffer = 262144" "\<forall>(now, buffer, n) \<in> set ts. length buffer = 262144" by simp_all
  have run: "running ?sw" using Cons.prems(1) by simp
  obtain out1 sw1 where one: "rx_blocks D now 0 (blocks_of buffer) ?sw = Some (out1, sw1)"
    and out1: "map band_of out1 = concat (map bands (shown ?f (sweep_started sw) (used ?f (starts_left sw) (headers buffer))))"
    and exit1: "sw_exit sw1 \<longleftrightarrow> (\<exists>m. starts_left sw = Some m \<and> m \<le> starts ?f (headers buffer))"
    using rx_blocks_text [OF run Cons.prems(3) length_blocks_of [OF len(1)], of now 0] by (auto simp: headers_def)
  have cb: "rx_callback D now buffer n sw = Some ((0, out1), sw1)"
    using one by (simp add: rx_callback_blocks [OF Cons.prems(2) len(1)])
  note open1 = rx_callback_open [OF cb Cons.prems(2) len(1)]
  show ?case
  proof (cases "sw_exit sw1")
    case True
    with exit1 obtain m where m: "starts_left sw = Some m" "m \<le> starts ?f (headers buffer)" by blast
    have "0 < m" using starts_left_pos [OF Cons.prems(1)] m(1) by (cases m) auto
    moreover obtain sw2 where "rx_stream D ts sw1 = Some ([], sw2)" "sw_exit sw2"
      using rx_stream_exiting [OF _ True, of ts D] open1 len(2) Cons.prems(1) by (auto simp: running_def)
    ultimately show ?thesis
      using m cb out1 by (simp add: t used_append)
  next
    case False
    from rx_blocks_running [OF run Cons.prems(3) length_blocks_of [OF len(1)] one False]
    have st: "running sw1" "first_frequency sw1 = ?f" "sweep_started sw1 = (sweep_started sw \<or> 0 < starts ?f (headers buffer))"
      "starts_left sw1 = map_option (\<lambda>m. m - starts ?f (headers buffer)) (starts_left sw)"
      by (simp_all add: headers_def)
    have before: "used ?f (starts_left sw) (headers buffer @ stream_headers ts) =
        headers buffer @ used ?f (starts_left sw1) (stream_headers ts) \<and>
        used ?f (starts_left sw) (headers buffer) = headers buffer"
      using exit1 False starts_left_pos [OF Cons.prems(1)]
      by (cases "starts_left sw") (auto simp: used_None used_append used_all st(4))
    from Cons.IH [OF st(1) _ Cons.prems(3) len(2)] open1 obtain out2 sw2 where two: "rx_stream D ts sw1 = Some (out2, sw2)"
      and out2: "map band_of out2 = concat (map bands (shown ?f (sweep_started sw1) (used ?f (starts_left sw1) (stream_headers ts))))"
      and exit2: "sw_exit sw2 \<longleftrightarrow> (\<exists>m. starts_left sw1 = Some m \<and> m \<le> starts ?f (stream_headers ts))"
      unfolding st(2) by blast
    have "sw_exit sw2 \<longleftrightarrow> (\<exists>m. starts_left sw = Some m \<and> m \<le> starts ?f (headers buffer) + starts ?f (stream_headers ts))"
      unfolding exit2 st(4) by auto
    with two cb out1 out2 before show ?thesis
      by (simp add: t shown_append st(3))
  qed
qed

section \<open>The hops of the device\<close>

text \<open>
  In interleaved mode the firmware visits every step of 20 MHz of every range twice, the second
  time 5 MHz higher, and puts the frequency in the header of each block of samples. The
  frequencies of one sweep over the table:
\<close>

definition mhz :: "nat \<Rightarrow> u64" where
  "mhz m = of_nat (1000000 * m)"

definition range_hops :: "nat \<times> nat \<Rightarrow> u64 list" where
  "range_hops r = (case r of (a, b) \<Rightarrow> concat (map (\<lambda>k. [mhz (a + 20 * k), mhz (a + 20 * k + 5)]) [0..<(b - a) div 20]))"

definition sweep_hops :: "'a sweep_scheme \<Rightarrow> u64 list" where
  "sweep_hops sw = concat (map (\<lambda>i. range_hops (range_of (frequencies sw) i)) [0..<num_ranges sw])"

text \<open>How many of a list of lines show the frequency \<open>x\<close>, and whether a range contains it.\<close>

definition hits :: "nat \<Rightarrow> (u64 \<times> u64) list \<Rightarrow> nat" where
  "hits x bs = length (filter (\<lambda>b. unat (fst b) \<le> x \<and> x < unat (snd b)) bs)"

definition covers :: "nat \<times> nat \<Rightarrow> nat \<Rightarrow> bool" where
  "covers r x = (case r of (a, b) \<Rightarrow> 1000000 * a \<le> x \<and> x < 1000000 * b)"

lemma hits_append [simp]: "hits x [] = 0" "hits x (bs @ bs') = hits x bs + hits x bs'"
  by (simp_all add: hits_def)

lemma unat_mhz: "m < 100000 \<Longrightarrow> k < 100000000 \<Longrightarrow> unat (mhz m + of_nat k) = 1000000 * m + k"
proof -
  assume le: "m < 100000" "k < 100000000"
  have "unat (of_nat (1000000 * m + k) :: u64) = 1000000 * m + k"
    using le by (intro unat_of_nat_u64) simp
  then show ?thesis by (simp add: mhz_def)
qed

lemma hits_bands:
  assumes "m < 100000"
  shows "hits x (bands (mhz m)) =
    of_bool (1000000 * m \<le> x \<and> x < 1000000 * m + 5000000) + of_bool (1000000 * m + 10000000 \<le> x \<and> x < 1000000 * m + 15000000)"
  using unat_mhz [OF assms, of 0] unat_mhz [OF assms, of 5000000] unat_mhz [OF assms, of 10000000] unat_mhz [OF assms, of 15000000]
  by (simp add: hits_def bands_def)

text \<open>The lines of the frequencies that are shown: those up to 7250 MHz.\<close>

abbreviation visible :: "u64 list \<Rightarrow> u64 list" where
  "visible fs \<equiv> filter (\<lambda>f. f \<le> 7250000000) fs"

lemma visible_mhz: "m < 100000 \<Longrightarrow> mhz m \<le> 7250000000 \<longleftrightarrow> m \<le> 7250"
  using unat_mhz [of m 0] by (simp add: word_le_nat_alt)

text \<open>Two hops cover a step: below 7250 MHz every frequency of the step is in exactly one line.\<close>

lemma hits_step:
  assumes "m < 7250" "x < 7250000000"
  shows "hits x (concat (map bands (visible [mhz m, mhz (m + 5)]))) = of_bool (covers (m, m + 20) x)"
  using assms visible_mhz [of m] visible_mhz [of "m + 5"] hits_bands [of m x] hits_bands [of "m + 5" x]
  by (auto simp: covers_def)

lemma hits_steps:
  assumes "a + 20 * n < 7270" "x < 7250000000"
  shows "hits x (concat (map bands (visible (concat (map (\<lambda>k. [mhz (a + 20 * k), mhz (a + 20 * k + 5)]) [0..<n]))))) =
    of_bool (covers (a, a + 20 * n) x)"
  using assms(1)
proof (induction n)
  case 0
  then show ?case by (simp add: covers_def)
next
  case (Suc n)
  then have "a + 20 * n < 7250" by simp
  from hits_step [OF this assms(2)] Suc show ?case
    by (auto simp: covers_def)
qed

lemma hits_range:
  assumes "range_ok r" "r = planned r'" "x < 7250000000"
  shows "hits x (concat (map bands (visible (range_hops r)))) = of_bool (covers r x)"
proof -
  obtain a b where r': "r' = (a, b)" by fastforce
  define n where "n = steps_between a b"
  have r: "r = (a, a + 20 * n)" using assms(2) by (simp add: r' planned_def n_def)
  then have "a + 20 * n < 7270" using assms(1) by (auto simp: range_ok_def)
  from hits_steps [OF this assms(3)] show ?thesis by (simp add: r range_hops_def)
qed

lemma hits_ranges:
  assumes "\<forall>i < n. range_ok (rs i) \<and> (\<exists>r'. rs i = planned r')" "x < 7250000000"
  shows "hits x (concat (map bands (visible (concat (map (\<lambda>i. range_hops (rs i)) [0..<n]))))) =
    length (filter (\<lambda>i. covers (rs i) x) [0..<n])"
  using assms(1)
proof (induction n)
  case (Suc n)
  from Suc.prems obtain r' where "range_ok (rs n)" "rs n = planned r'" by blast
  from hits_range [OF this assms(2)] Suc show ?case by simp
qed simp

section \<open>A sweep from the plan to the lines\<close>

text \<open>The frequencies of the headers; blocks without a header play no part.\<close>

definition seen :: "u64 option list \<Rightarrow> u64 list" where
  "seen hs = concat (map (\<lambda>h. case h of None \<Rightarrow> [] | Some x \<Rightarrow> [x]) hs)"

lemma seen_simps [simp]: "seen [] = []" "seen (None # hs) = seen hs" "seen (Some x # hs) = x # seen hs"
  by (simp_all add: seen_def)

lemma starts_seen: "starts f hs = count_list (seen hs) f"
proof (induction hs)
  case (Cons h hs)
  then show ?case by (cases h) auto
qed simp

lemma shown_used_seen:
  "m \<noteq> Some 0 \<Longrightarrow> shown f on (used f m hs) = shown f on (used f m (map Some (seen hs)))"
proof (induction hs arbitrary: on m)
  case (Cons h hs)
  then show ?case by (cases h) (auto simp: Let_def split: option.split)
qed simp

lemma shown_before: "f \<notin> set xs \<Longrightarrow> shown f False (map Some xs) = []"
  by (induction xs) auto

lemma shown_after: "shown f True (map Some xs) = visible xs"
  by (induction xs) auto

lemma starts_map_Some [simp]: "starts f (map Some xs) = count_list xs f"
  by (induction xs) auto

text \<open>A one-shot sweep takes what lies between the first start and the second.\<close>

lemma one_shot_used:
  assumes "f \<notin> set pre" "count_list (f # hops) f = 1"
  shows "shown f False (used f (Some 2) (map Some (pre @ (f # hops) @ f # post))) = visible (f # hops)"
proof -
  have none: "count_list pre f = 0" using assms(1) by (simp add: count_list_0_iff)
  have "used f (Some 2) (map Some (pre @ (f # hops) @ f # post)) = map Some (pre @ f # hops)"
    using assms(2) none used_append [of 2 f "map Some pre"] used_append [of 1 f "map Some hops"] by simp
  then show ?thesis
    using none assms(1) shown_before [OF assms(1)] by (simp add: shown_append shown_after)
qed

lemma table_ok_planned:
  assumes "table_ok sw" "i < num_ranges sw"
  shows "range_of (frequencies (plan_ranges sw)) i = planned (range_of (frequencies sw) i)"
proof -
  obtain fs' sc' where fold: "fold plan_range [0..<num_ranges sw] (frequencies sw, step_count sw) = (fs', sc')" by fastforce
  with fold_plan_range [OF le_refl table_ok_valid [OF assms(1)], of "step_count sw"] assms(2)
  show ?thesis by (simp add: plan_ranges_def)
qed

lemma first_hop:
  assumes "0 < num_ranges sw" "range_of (frequencies sw) 0 = planned (a, b)"
  shows "\<exists>hops. sweep_hops sw = first_frequency sw # hops"
proof -
  from assms(2) have a: "unat (frequencies sw ! 0) = a" and r: "range_of (frequencies sw) 0 = (a, a + 20 * steps_between a b)"
    by (simp_all add: range_of_def planned_def)
  have "first_frequency sw = mhz a"
    unfolding first_frequency_def mhz_def using a by (metis of_nat_mult of_nat_numeral of_nat_unat)
  moreover have "\<exists>hops. range_hops (a, a + 20 * steps_between a b) = mhz a # hops"
    by (simp add: range_hops_def steps_between_def upt_conv_Cons del: upt_Suc)
  ultimately show ?thesis
    using assms(1) r by (auto simp: sweep_hops_def upt_conv_Cons)
qed


section \<open>An example\<close>

text \<open>Channels of 2.4 GHz: one transfer brings a hop of an earlier sweep, ten hops, and the next start.\<close>

definition wifi_hops :: "u64 list" where
  "wifi_hops = [2400000000, 2405000000, 2420000000, 2425000000, 2440000000, 2445000000, 2460000000, 2465000000,
     2480000000, 2485000000]"

definition wifi_blocks :: "u8 list list" where
  "wifi_blocks = map example_block ([2405000000] @ wifi_hops @ 2400000000 # [2405000000, 2420000000, 2425000000, 2440000000])"

lemma wifi_plan: "frequencies (plan_ranges one_range) = 2400 # 2500 # replicate 18 0"
proof -
  have fs: "frequencies one_range = 2400 # 2490 # replicate 18 0"
    using replicate_add [of 2 18 "0 :: u16"]
    by (simp add: one_range_def init_sweep_def MAX_SWEEP_RANGES_def numeral_2_eq_2)
  have "plan_range 0 (frequencies one_range, step_count one_range) = (2400 # 2500 # replicate 18 0, 5)"
    using plan_range_valid [of 0 "frequencies one_range" 2400 2490 "step_count one_range"]
    by (simp add: fs steps_between_def)
  then show ?thesis by (simp add: plan_ranges_def)
qed

lemma wifi_transfer:
  "length (concat wifi_blocks) = 262144"
  "headers (concat wifi_blocks) = map Some ([2405000000] @ wifi_hops @ 2400000000 # [2405000000, 2420000000, 2425000000, 2440000000])"
proof -
  have blocks: "length wifi_blocks = 16" "\<forall>b \<in> set wifi_blocks. length b = 16384"
    by (simp_all add: wifi_blocks_def wifi_hops_def)
  then show "length (concat wifi_blocks) = 262144"
    by (simp add: wifi_blocks_def wifi_hops_def)
  show "headers (concat wifi_blocks) = map Some ([2405000000] @ wifi_hops @ 2400000000 # [2405000000, 2420000000, 2425000000, 2440000000])"
    unfolding headers_def blocks_of_concat [OF blocks]
    by (simp add: wifi_blocks_def example_block_def header_frequency_block comp_def del: append.simps)
qed


end
