(* ===== verification/Sweep_Driver.thy ===== *)
theory Sweep_Driver
  imports Sweep_Callback System
begin

text \<open>
  The sweep itself: \<open>hackrf_sweep\<close> of hackrf_sweep.c from its checks to its end, with the set-up
  of the device in \<open>hackRFSweepThread\<close> and \<open>InitHackRFDevice\<close>. It drives the library through its
  interface. While it sleeps in its monitor loop the event thread, the sample callback and the
  signal handler change the library and the globals; they are a parameter of the loop.
\<close>

section \<open>Setting up the device\<close>

definition DEFAULT_BASEBAND_FILTER_BANDWIDTH :: u32 where
  "DEFAULT_BASEBAND_FILTER_BANDWIDTH = 15000000"

text \<open>\<open>True\<close> is the answer 0. The routine uses the global device, not its argument.\<close>

definition InitHackRFDevice :: "host \<Rightarrow> ptr \<Rightarrow> sweep \<Rightarrow> lib \<Rightarrow> (bool \<times> lib) option" where
  "InitHackRFDevice H hackrf_dev sw s =
     do { (result, s) \<leftarrow> hackrf_set_sample_rate_manual H (sw_device sw) (ucast DEFAULT_SAMPLE_RATE_HZ) 1 s;
          if result \<noteq> HACKRF_SUCCESS then Some (False, s)
          else do { (result, s) \<leftarrow> hackrf_set_baseband_filter_bandwidth H (sw_device sw) DEFAULT_BASEBAND_FILTER_BANDWIDTH s;
                    Some (result = HACKRF_SUCCESS, s) } }"

text \<open>
  \<open>hackRFSweepThread\<close> passes its integer \<open>serial_number\<close> where a string is expected: 0 is the
  null pointer, and any other number is not the address of a string.
\<close>

definition hackRFSweepThread :: "host \<Rightarrow> sweep_args \<Rightarrow> sweep \<Rightarrow> lib \<Rightarrow> ((bool \<times> sweep) \<times> lib) option" where
  "hackRFSweepThread H a sw s =
     do { (result, s) \<leftarrow> hackrf_init H s;
          if result \<noteq> HACKRF_SUCCESS then Some ((False, sw), s)
          else do { (_, s) \<leftarrow> ub_unless (a_serial_number a = 0) s;
                    ((result, device), s) \<leftarrow> hackrf_open_by_serial H None (Some (sw_device sw)) s;
                    let sw = (case device of None \<Rightarrow> sw | Some d \<Rightarrow> sw\<lparr>sw_device := d\<rparr>);
                    if result \<noteq> HACKRF_SUCCESS then Some ((False, sw), s)
                    else do { (result, s) \<leftarrow> hackrf_set_sample_rate_manual H (sw_device sw) (ucast DEFAULT_SAMPLE_RATE_HZ) 1 s;
                              if result \<noteq> HACKRF_SUCCESS then Some ((False, sw), s)
                              else do { (result, s) \<leftarrow> hackrf_set_baseband_filter_bandwidth H (sw_device sw)
                                           DEFAULT_BASEBAND_FILTER_BANDWIDTH s;
                                        Some ((result = HACKRF_SUCCESS, sw), s) } } } }"

section \<open>Starting a sweep\<close>

text \<open>The codes of the two gain requests, combined bit by bit.\<close>

definition set_gains :: "host \<Rightarrow> sweep_args \<Rightarrow> ptr \<Rightarrow> lib \<Rightarrow> (int \<times> lib) option" where
  "set_gains H a device s =
     do { (result1, s) \<leftarrow> hackrf_set_vga_gain H device (a_vga_gain a) s;
          (result2, s) \<leftarrow> hackrf_set_lna_gain H device (a_lna_gain a) s;
          Some (error_code result1 OR error_code result2, s) }"

definition request_sweep :: "host \<Rightarrow> sweep \<Rightarrow> lib \<Rightarrow> (hackrf_error \<times> lib) option" where
  "request_sweep H sw s =
     hackrf_init_sweep H (sw_device sw) (frequencies sw) (int (num_ranges sw)) (num_samples sw * 2)
       (ucast (TUNE_STEP * 1000000)) OFFSET INTERLEAVED s"

text \<open>
  From the gains to the antenna; \<open>False\<close> is \<open>return EXIT_FAILURE\<close>. \<open>cb\<close> is the address of
  \<open>rx_callback\<close>.
\<close>

definition sweep_start :: "host \<Rightarrow> ptr \<Rightarrow> sweep_args \<Rightarrow> sweep \<Rightarrow> lib \<Rightarrow> ((bool \<times> sweep) \<times> lib) option" where
  "sweep_start H cb a sw s =
     do { (gains, s) \<leftarrow> set_gains H a (sw_device sw) s;
          let sw = allocate_inverse (plan_ranges sw);
          (result, s) \<leftarrow> hackrf_start_rx H (sw_device sw) cb NULL s;
          if gains OR error_code result \<noteq> error_code HACKRF_SUCCESS then Some ((False, sw), s)
          else do { (result, s) \<leftarrow> request_sweep H sw s;
          if result \<noteq> HACKRF_SUCCESS then Some ((False, sw), s)
          else do { (result, s) \<leftarrow> (if amp sw then hackrf_set_amp_enable H (sw_device sw) (ucast (amp_enable sw)) s
                                    else Some (HACKRF_SUCCESS, s));
          if result \<noteq> HACKRF_SUCCESS then Some ((False, sw), s)
          else do { (result, s) \<leftarrow> (if antenna sw then hackrf_set_antenna_enable H (sw_device sw) (ucast (antenna_enable sw)) s
                                    else Some (HACKRF_SUCCESS, s));
          Some ((result = HACKRF_SUCCESS, sw), s) } } } }"

section \<open>Monitoring and ending it\<close>

text \<open>What happens during the \<open>i\<close>-th sleep of the loop.\<close>

type_synonym background = "nat \<Rightarrow> sweep \<times> lib \<Rightarrow> sweep \<times> lib"

text \<open>The loop; the flag is \<open>exit_code = EXIT_SUCCESS\<close>.\<close>

partial_function (option) monitor :: "background \<Rightarrow> nat \<Rightarrow> sweep \<Rightarrow> lib \<Rightarrow> ((bool \<times> sweep) \<times> lib) option" where
  "monitor env i sw s =
     do { (result, s) \<leftarrow> hackrf_is_streaming (sw_device sw) s;
          if result = HACKRF_TRUE \<and> sw_exit sw = False
          then let (sw, s) = env i (sw, s)
               in if byte_count sw = 0 then Some ((False, sw), s)
                  else monitor env (Suc i) (sw\<lparr>byte_count := 0\<rparr>) s
          else Some ((True, sw), s) }"

text \<open>The handler of the signals, and a background in which one arrives during the \<open>k\<close>-th sleep.\<close>

definition sigint_callback_handler :: "int \<Rightarrow> sweep \<Rightarrow> sweep" where
  "sigint_callback_handler signum sw = sw\<lparr>sw_exit := True\<rparr>"

definition interrupted :: "nat \<Rightarrow> int \<Rightarrow> background \<Rightarrow> background" where
  "interrupted k signum env i p =
     (case env i p of (sw, s) \<Rightarrow> if i = k then (sigint_callback_handler signum sw, s) else (sw, s))"

text \<open>The end; the variable \<open>device\<close> keeps its value, and so do the pointers to the arrays.\<close>

definition sweep_finish :: "host \<Rightarrow> sweep \<Rightarrow> lib \<Rightarrow> (sweep \<times> lib) option" where
  "sweep_finish H sw s =
     do { (_, s) \<leftarrow> hackrf_is_streaming (sw_device sw) s;
          s \<leftarrow> (if sw_device sw \<noteq> NULL
                then do { (_, s) \<leftarrow> hackrf_stop_rx H (sw_device sw) s;
                          (_, s) \<leftarrow> hackrf_close H (sw_device sw) s;
                          (_, s) \<leftarrow> hackrf_exit H s;
                          Some s }
                else Some s);
          Some (free_arrays (sw\<lparr>fd_open := False\<rparr>), s) }"

definition hackrf_sweep ::
  "host \<Rightarrow> ptr \<Rightarrow> background \<Rightarrow> sweep_args \<Rightarrow> sweep \<Rightarrow> lib \<Rightarrow> ((bool \<times> sweep) \<times> lib) option" where
  "hackrf_sweep H cb env a sw s =
     (let (ok, sw) = sweep_check a sw
      in if \<not> ok then Some ((False, sw), s)
         else do { ((ok, sw), s) \<leftarrow> sweep_start H cb a (allocate_transform (sw\<lparr>fftSize := fft_round (fftSize sw)\<rparr>)) s;
                   if \<not> ok then Some ((False, sw), s)
                   else do { ((ok, sw), s) \<leftarrow> monitor env 0 sw s;
                             (sw, s) \<leftarrow> sweep_finish H sw s;
                             Some ((ok, sw), s) } })"

section \<open>Calls on an open device\<close>

definition live :: "host \<Rightarrow> ptr \<Rightarrow> lib \<Rightarrow> bool" where
  "live H d s \<longleftrightarrow> proper H s \<and> d \<in> dom (devs s)"

lemma evolves_dom: "evolves s s' \<Longrightarrow> dom (devs s') = dom (devs s)"
  by (rule rel_option_dom) (rule evolvesD(1))

lemma legal_call:
  assumes "accepting H" "live H d s" "legal H s c"
  shows "\<exists>s'. perform H c s = Some s' \<and> proper H s'"
  using legal_call_runs [OF _ _ assms(1,3)] proper_ok [OF assms(1)] proper.call [OF _ assms(3)] assms(2) unfolding live_def by blast

lemma after_Some: "after m = Some s' \<Longrightarrow> \<exists>r. m = Some (r, s')"
  by auto

lemma request_live:
  assumes "accepting H" "live H d s" "buffers_fit H r" "run_request H d r s = after m"
  shows "\<exists>x s'. m = Some (x, s') \<and> live H d s' \<and> dom (devs s') = dom (devs s)"
proof -
  have "legal H s (Request d r)" using assms(2,3) by (simp add: legal_def live_def)
  from legal_call [OF assms(1,2) this] obtain s' where s': "run_request H d r s = Some s'" "proper H s'" by auto
  then obtain x where x: "m = Some (x, s')" using after_Some assms(4) by metis
  have "dom (devs s') = dom (devs s)" using run_request_confined [OF s'(1)] confinedD(1) by metis
  with x s'(2) assms(2) show ?thesis by (simp add: live_def)
qed

lemma requests_live:
  assumes "accepting H" "live H d s"
  shows "\<exists>r s'. hackrf_set_vga_gain H d v s = Some (r, s') \<and> live H d s' \<and> dom (devs s') = dom (devs s)"
    and "\<exists>r s'. hackrf_set_lna_gain H d v s = Some (r, s') \<and> live H d s' \<and> dom (devs s') = dom (devs s)"
    and "\<exists>r s'. hackrf_set_amp_enable H d b s = Some (r, s') \<and> live H d s' \<and> dom (devs s') = dom (devs s)"
    and "\<exists>r s'. hackrf_set_antenna_enable H d b s = Some (r, s') \<and> live H d s' \<and> dom (devs s') = dom (devs s)"
    and "2 * nat n \<le> length fs \<Longrightarrow> \<exists>r s'. hackrf_init_sweep H d fs n nb w off st s = Some (r, s') \<and> live H d s' \<and> dom (devs s') = dom (devs s)"
    and "dv \<noteq> 0 \<Longrightarrow> \<exists>r s'. hackrf_set_sample_rate_manual H d v dv s = Some (r, s') \<and> live H d s' \<and> dom (devs s') = dom (devs s)"
    and "\<exists>r s'. hackrf_set_baseband_filter_bandwidth H d v s = Some (r, s') \<and> live H d s' \<and> dom (devs s') = dom (devs s)"
  by (rule request_live [OF assms, of "Set_vga_gain v"], simp_all add: buffers_fit_def,
      rule request_live [OF assms, of "Set_lna_gain v"], simp_all add: buffers_fit_def,
      rule request_live [OF assms, of "Set_amp_enable b"], simp_all add: buffers_fit_def,
      rule request_live [OF assms, of "Set_antenna_enable b"], simp_all add: buffers_fit_def,
      rule request_live [OF assms, of "Init_sweep fs n nb w off st"], simp_all add: buffers_fit_def,
      rule request_live [OF assms, of "Set_sample_rate_manual v dv"], simp_all add: buffers_fit_def,
      rule request_live [OF assms, of "Set_baseband_filter_bandwidth v"], simp_all add: buffers_fit_def)

lemma start_rx_live:
  assumes "accepting H" "live H d s" "cb \<noteq> NULL"
  shows "\<exists>r s'. hackrf_start_rx H d cb ctx s = Some (r, s') \<and> live H d s' \<and> dom (devs s') = dom (devs s)"
proof -
  have "legal H s (Start_rx d cb ctx)" using assms(2,3) by (auto simp: legal_def live_def)
  from legal_call [OF assms(1,2) this] obtain s' where "perform H (Start_rx d cb ctx) s = Some s'" "proper H s'" by auto
  then show ?thesis
    using evolves_dom [OF start_evolves(1)] assms(2) by (fastforce simp: live_def)
qed

lemma stop_rx_live:
  assumes "accepting H" "live H d s"
  shows "\<exists>r s'. hackrf_stop_rx H d s = Some (r, s') \<and> live H d s'"
proof -
  have "legal H s (Stop_rx d)" using assms(2) by (auto simp: legal_def live_def)
  from legal_call [OF assms(1,2) this] obtain s' where s': "perform H (Stop_rx d) s = Some s'" "proper H s'" by auto
  have "active s \<subseteq> owned s" using proper_ok [OF assms(1)] assms(2) lib_okD(5) by (auto simp: live_def)
  with s' show ?thesis
    using evolves_dom [OF stop_evolves(1)] assms(2) by (fastforce simp: live_def)
qed

lemma close_live_device:
  assumes "accepting H" "live H d s"
  shows "\<exists>r s'. hackrf_close H d s = Some (r, s') \<and> proper H s' \<and> dom (devs s') = dom (devs s) - {d}"
proof -
  have ok: "lib_ok s" using proper_ok [OF assms(1)] assms(2) by (simp add: live_def)
  have "legal H s (Close d)" using assms(2) by (auto simp: legal_def live_def)
  from legal_call [OF assms this] obtain s1 where s: "perform H (Close d) s = Some s1" "proper H s1" by blast
  then show ?thesis using close_outcome [OF ok] assms(2) by (fastforce simp: live_def)
qed

lemma exit_proper:
  assumes "accepting H" "proper H s"
  shows "\<exists>r s'. hackrf_exit H s = Some (r, s') \<and> proper H s' \<and> devs s' = devs s"
proof -
  have ok: "lib_ok s" "callbacks_ok s" using proper_ok [OF assms] by simp_all
  have c: "legal H s Exit" by (simp add: legal_def)
  obtain s2 where s2: "perform H Exit s = Some s2" using legal_call_runs [OF ok assms(1) c] by blast
  from proper.call [OF assms(2) c s2] s2 init_exit_ok(2) [OF ok(1)] show ?thesis by fastforce
qed

lemma is_streaming_live: "live H d s \<Longrightarrow> \<exists>r. hackrf_is_streaming d s = Some (r, s)"
  by (auto simp: live_def hackrf_is_streaming_def)

section \<open>The parts of a sweep on an open device\<close>

lemma set_gains_live:
  assumes "accepting H" "live H d s"
  shows "\<exists>g s'. set_gains H a d s = Some (g, s') \<and> live H d s' \<and> dom (devs s') = dom (devs s)"
proof -
  obtain r1 s1 where r1: "hackrf_set_vga_gain H d (a_vga_gain a) s = Some (r1, s1)" "live H d s1" "dom (devs s1) = dom (devs s)"
    using requests_live(1) [OF assms] by blast
  obtain r2 s2 where "hackrf_set_lna_gain H d (a_lna_gain a) s1 = Some (r2, s2)" "live H d s2" "dom (devs s2) = dom (devs s1)"
    using requests_live(2) [OF assms(1) r1(2)] by blast
  with r1 show ?thesis by (simp add: set_gains_def)
qed

lemma request_sweep_live:
  assumes "accepting H" "live H (sw_device sw) s" "table_ok sw"
  shows "\<exists>r s'. request_sweep H sw s = Some (r, s') \<and> live H (sw_device sw) s' \<and> dom (devs s') = dom (devs s)"
  unfolding request_sweep_def
  by (rule requests_live(5) [OF assms(1,2)]) (use assms(3) in \<open>simp add: table_ok_def\<close>)

lemma optional_live:
  assumes "live H d s" "\<exists>r s'. m = Some (r, s') \<and> live H d s' \<and> dom (devs s') = dom (devs s)"
  shows "\<exists>r s'. (if b then m else Some (HACKRF_SUCCESS, s)) = Some (r, s') \<and> live H d s' \<and> dom (devs s') = dom (devs s)"
  using assms by simp

lemma sweep_start_live:
  assumes "accepting H" "live H (sw_device sw) s" "table_ok sw" "cb \<noteq> NULL"
  shows "\<exists>ok s'. sweep_start H cb a sw s = Some ((ok, allocate_inverse (plan_ranges sw)), s') \<and> live H (sw_device sw) s' \<and> dom (devs s') = dom (devs s)"
proof -
  let ?sw = "allocate_inverse (plan_ranges sw)" and ?d = "sw_device sw"
  have table: "table_ok ?sw" using table_ok_plan [OF assms(3)] by (simp add: table_ok_def)
  obtain g s1 where s1: "set_gains H a ?d s = Some (g, s1)" "live H ?d s1" "dom (devs s1) = dom (devs s)"
    using set_gains_live [OF assms(1,2)] by blast
  obtain r2 s2 where s2: "hackrf_start_rx H ?d cb NULL s1 = Some (r2, s2)" "live H ?d s2" "dom (devs s2) = dom (devs s)"
    using start_rx_live [OF assms(1) s1(2) assms(4)] s1(3) by metis
  obtain r3 s3 where s3: "request_sweep H ?sw s2 = Some (r3, s3)" "live H ?d s3" "dom (devs s3) = dom (devs s)"
    using request_sweep_live [OF assms(1) _ table, of s2] s2(2,3) by fastforce
  obtain r4 s4 where s4: "(if amp ?sw then hackrf_set_amp_enable H ?d (ucast (amp_enable ?sw)) s3 else Some (HACKRF_SUCCESS, s3)) = Some (r4, s4)"
      "live H ?d s4" "dom (devs s4) = dom (devs s)"
    using optional_live [OF s3(2) requests_live(3) [OF assms(1) s3(2)]] s3(3) by metis
  obtain r5 s5 where s5: "(if antenna ?sw then hackrf_set_antenna_enable H ?d (ucast (antenna_enable ?sw)) s4 else Some (HACKRF_SUCCESS, s4)) = Some (r5, s5)"
      "live H ?d s5" "dom (devs s5) = dom (devs s)"
    using optional_live [OF s4(2) requests_live(4) [OF assms(1) s4(2)]] s4(3) by metis
  have "sweep_start H cb a sw s =
    (if g OR error_code r2 \<noteq> 0 then Some ((False, ?sw), s2)
     else if r3 \<noteq> HACKRF_SUCCESS then Some ((False, ?sw), s3)
     else if r4 \<noteq> HACKRF_SUCCESS then Some ((False, ?sw), s4)
     else Some ((r5 = HACKRF_SUCCESS, ?sw), s5))"
    using s4(1) s5(1) unfolding sweep_start_def Let_def s1(1) bind.bind_lunit prod.case allocation_fields(2) plan_ranges_fields(4) s2(1) s3(1)
    by simp
  with s2(2,3) s3(2,3) s4(2,3) s5(2,3) show ?thesis by auto
qed

lemma sweep_finish_live:
  assumes "accepting H" "live H (sw_device sw) s"
  shows "\<exists>s'. sweep_finish H sw s = Some (free_arrays (sw\<lparr>fd_open := False\<rparr>), s') \<and> proper H s' \<and>
    dom (devs s') = dom (devs s) - {sw_device sw}"
proof -
  let ?d = "sw_device sw"
  have "lib_ok s" using proper_ok [OF assms(1)] assms(2) by (simp add: live_def)
  then have "?d \<noteq> NULL" using names_okD(1) [OF lib_okD(6), of s ?d] assms(2) by (auto simp: live_def)
  moreover obtain r1 where "hackrf_is_streaming ?d s = Some (r1, s)" using is_streaming_live [OF assms(2)] by blast
  moreover have "active s \<subseteq> owned s" using \<open>lib_ok s\<close> by (rule lib_okD(5))
  moreover obtain r2 s2 where s2: "hackrf_stop_rx H ?d s = Some (r2, s2)" "live H ?d s2"
    using stop_rx_live [OF assms] by blast
  moreover have dom2: "dom (devs s2) = dom (devs s)"
    by (rule evolves_dom [OF stop_evolves(1) [OF \<open>active s \<subseteq> owned s\<close> s2(1)]])
  moreover obtain r3 s3 where s3: "hackrf_close H ?d s2 = Some (r3, s3)" "proper H s3" "dom (devs s3) = dom (devs s2) - {?d}"
    using close_live_device [OF assms(1) s2(2)] by blast
  moreover obtain r4 s4 where "hackrf_exit H s3 = Some (r4, s4)" "proper H s4" "devs s4 = devs s3"
    using exit_proper [OF assms(1) s3(2)] by blast
  ultimately show ?thesis by (simp add: sweep_finish_def)
qed

section \<open>The monitor loop\<close>

text \<open>
  A background that behaves: it only does what event threads, callbacks and signal handlers do,
  so it leaves the device open and does not replace the globals that the loop depends on.
\<close>

definition background_ok :: "host \<Rightarrow> ptr \<Rightarrow> background \<Rightarrow> bool" where
  "background_ok H d env \<longleftrightarrow>
     (\<forall>i sw s sw' s'. sw_device sw = d \<longrightarrow> live H d s \<longrightarrow> env i (sw, s) = (sw', s') \<longrightarrow>
        sw_device sw' = d \<and> live H d s' \<and> dom (devs s') = dom (devs s) \<and>
        frequencies sw' = frequencies sw \<and> num_ranges sw' = num_ranges sw \<and>
        ifft_output sw' = ifft_output sw \<and> fft_blocks sw' = fft_blocks sw)"

lemma background_okD:
  assumes "background_ok H d env" "sw_device sw = d" "live H d s" "env i (sw, s) = (sw', s')"
  shows "sw_device sw' = d" "live H d s'" "dom (devs s') = dom (devs s)"
    "frequencies sw' = frequencies sw" "num_ranges sw' = num_ranges sw"
    "ifft_output sw' = ifft_output sw" "fft_blocks sw' = fft_blocks sw"
  using assms unfolding background_ok_def by blast+

definition kept :: "host \<Rightarrow> sweep \<Rightarrow> lib \<Rightarrow> (bool \<times> sweep) \<times> lib \<Rightarrow> bool" where
  "kept H sw s r = (case r of ((ok, sw'), s') \<Rightarrow>
     sw_device sw' = sw_device sw \<and> live H (sw_device sw) s' \<and> dom (devs s') = dom (devs s) \<and>
     frequencies sw' = frequencies sw \<and> num_ranges sw' = num_ranges sw \<and>
     ifft_output sw' = ifft_output sw \<and> fft_blocks sw' = fft_blocks sw \<and>
     (if ok then hackrf_is_streaming (sw_device sw) s' \<noteq> Some (HACKRF_TRUE, s') \<or> sw_exit sw' else byte_count sw' = 0))"

text \<open>A turn of the loop that goes on.\<close>

definition turn :: "background \<Rightarrow> nat \<Rightarrow> sweep \<times> lib \<Rightarrow> sweep \<times> lib" where
  "turn env i p = (case env i p of (sw, s) \<Rightarrow> (sw\<lparr>byte_count := 0\<rparr>, s))"

text \<open>The loop stops in turn \<open>i\<close>: at its condition, or because no data has arrived.\<close>

definition stops :: "background \<Rightarrow> nat \<Rightarrow> sweep \<times> lib \<Rightarrow> bool" where
  "stops env i p = (case p of (sw, s) \<Rightarrow>
     hackrf_is_streaming (sw_device sw) s \<noteq> Some (HACKRF_TRUE, s) \<or> sw_exit sw \<or> byte_count (fst (env i p)) = 0)"

primrec watch :: "background \<Rightarrow> nat \<Rightarrow> nat \<Rightarrow> sweep \<times> lib \<Rightarrow> sweep \<times> lib" where
  "watch env i 0 p = p"
| "watch env i (Suc n) p = watch env (Suc i) n (turn env i p)"

lemma turn_kept:
  assumes "background_ok H (sw_device sw) env" "live H (sw_device sw) s" "turn env i (sw, s) = (sw1, s1)"
  shows "sw_device sw1 = sw_device sw" "live H (sw_device sw) s1" "kept H sw1 s1 r \<Longrightarrow> kept H sw s r"
proof -
  obtain sw2 s2 where env: "env i (sw, s) = (sw2, s2)" by fastforce
  with assms(3) have sw1: "sw1 = sw2\<lparr>byte_count := 0\<rparr>" "s1 = s2" by (simp_all add: turn_def)
  note keep = background_okD [OF assms(1) refl assms(2) env]
  show "sw_device sw1 = sw_device sw" "live H (sw_device sw) s1" using keep by (simp_all add: sw1)
  show "kept H sw s r" if "kept H sw1 s1 r"
    using that keep by (cases r) (auto simp: kept_def sw1)
qed

lemma monitor_step:
  assumes "live H (sw_device sw) s"
  shows "monitor env i sw s =
    (if hackrf_is_streaming (sw_device sw) s \<noteq> Some (HACKRF_TRUE, s) \<or> sw_exit sw then Some ((True, sw), s)
     else if byte_count (fst (env i (sw, s))) = 0 then Some ((False, fst (env i (sw, s))), snd (env i (sw, s)))
     else monitor env (Suc i) (fst (turn env i (sw, s))) (snd (turn env i (sw, s))))"
  using is_streaming_live [OF assms]
  by (subst monitor.simps) (auto simp: turn_def split: prod.split)

lemma monitor_stops:
  assumes "background_ok H (sw_device sw) env" "live H (sw_device sw) s" "stops env i (sw, s)"
  shows "\<exists>r. monitor env i sw s = Some r \<and> kept H sw s r"
proof -
  obtain sw2 s2 where env: "env i (sw, s) = (sw2, s2)" by fastforce
  from background_okD [OF assms(1) refl assms(2) env] assms(2,3) env show ?thesis
    unfolding monitor_step [OF assms(2)] by (auto simp: stops_def kept_def)
qed

lemma monitor_ends:
  assumes "background_ok H (sw_device sw) env" "live H (sw_device sw) s" "stops env (i + n) (watch env i n (sw, s))"
  shows "\<exists>r. monitor env i sw s = Some r \<and> kept H sw s r"
  using assms
proof (induction n arbitrary: i sw s)
  case 0
  then show ?case using monitor_stops by simp
next
  case (Suc n)
  show ?case
  proof (cases "stops env i (sw, s)")
    case True
    with monitor_stops [OF Suc.prems(1,2)] show ?thesis by simp
  next
    case False
    obtain sw1 s1 where t: "turn env i (sw, s) = (sw1, s1)" by fastforce
    note keep = turn_kept [OF Suc.prems(1,2) t]
    from Suc.IH [of sw1 s1 "Suc i"] Suc.prems(1,3) keep(1,2) t
    obtain r where "monitor env (Suc i) sw1 s1 = Some r" "kept H sw1 s1 r" by auto
    with keep(3) False t show ?thesis
      unfolding monitor_step [OF Suc.prems(2)] by (auto simp: stops_def)
  qed
qed

lemma monitor_returned:
  assumes "monitor env i sw s = Some r"
  shows "\<exists>n. stops env (i + n) (watch env i n (sw, s))"
proof (rule monitor.raw_induct [where P = "\<lambda>env i sw s r. \<exists>n. stops env (i + n) (watch env i n (sw, s))", OF _ assms])
  fix rec env i sw s r
  assume IH: "\<And>env i sw s r. rec env i sw s = Some r \<Longrightarrow> \<exists>n. stops env (i + n) (watch env i n (sw, s))"
    and run: "do { (result, s) \<leftarrow> hackrf_is_streaming (sw_device sw) s;
          if result = HACKRF_TRUE \<and> sw_exit sw = False
          then let (sw, s) = env i (sw, s)
               in if byte_count sw = 0 then Some ((False, sw), s)
                  else rec env (Suc i) (sw\<lparr>byte_count := 0\<rparr>) s
          else Some ((True, sw), s) } = Some r"
  show "\<exists>n. stops env (i + n) (watch env i n (sw, s))"
  proof (cases "stops env i (sw, s)")
    case True
    then show ?thesis by (intro exI [of _ 0]) simp
  next
    case False
    obtain sw1 s1 where t: "turn env i (sw, s) = (sw1, s1)" by fastforce
    with False run have "rec env (Suc i) sw1 s1 = Some r"
      by (auto simp: stops_def turn_def split: prod.splits)
    from IH [OF this] obtain n where "stops env (Suc i + n) (watch env (Suc i) n (sw1, s1))" by blast
    with t show ?thesis by (intro exI [of _ "Suc n"]) simp
  qed
qed

text \<open>
  C17. On an open device, with a background that behaves, the monitor loop of \<open>hackrf_sweep\<close>
  returns exactly if some turn finds the stream stopped, the exit flag set, or no data since
  the turn before; otherwise it runs forever. When it returns success, the stream has stopped
  or the exit flag is set; when it returns failure, no data had arrived.
\<close>

theorem monitor_returns_iff:
  assumes "background_ok H (sw_device sw) env" "live H (sw_device sw) s"
  shows "((\<exists>r. monitor env i sw s = Some r) \<longleftrightarrow> (\<exists>n. stops env (i + n) (watch env i n (sw, s)))) \<and>
    (\<forall>ok sw' s'. monitor env i sw s = Some ((ok, sw'), s') \<longrightarrow>
      (if ok then hackrf_is_streaming (sw_device sw) s' \<noteq> Some (HACKRF_TRUE, s') \<or> sw_exit sw' else byte_count sw' = 0))"
  using monitor_returned [of env i sw s] monitor_ends [OF assms, of i] by (fastforce simp: kept_def)

section \<open>A whole sweep\<close>

lemma table_ok_cong: "frequencies sw' = frequencies sw \<Longrightarrow> num_ranges sw' = num_ranges sw \<Longrightarrow> table_ok sw' = table_ok sw"
  by (simp add: table_ok_def)

lemma sweep_check_device: "sw_device (snd (sweep_check a sw)) = sw_device sw"
  by (simp add: snd_sweep_check)

lemma sweep_check_arrays:
  "ifft_output (snd (sweep_check a sw)) = ifft_output sw" "fft_blocks (snd (sweep_check a sw)) = fft_blocks sw"
  by (simp_all add: snd_sweep_check)

lemma sweep_runs:
  assumes "accepting H" "live H (sw_device sw) s" "table_ok sw" "cb \<noteq> NULL" "background_ok H (sw_device sw) env"
    and "\<And>sw' s'. sw_device sw' = sw_device sw \<Longrightarrow> live H (sw_device sw) s' \<Longrightarrow> monitor env 0 sw' s' \<noteq> None"
  shows "\<exists>ok sw' s'. hackrf_sweep H cb env a sw s = Some ((ok, sw'), s') \<and> proper H s' \<and> table_ok sw' \<and>
    sw_device sw' = sw_device sw \<and>
    (\<not> ok \<and> dom (devs s') = dom (devs s) \<and>
         fft_blocks sw' = fft_blocks sw + (if sweep_acceptable a sw then if ifft_output sw then 6 else 4 else 0) \<or>
     dom (devs s') = dom (devs s) - {sw_device sw} \<and> fft_blocks sw' = fft_blocks sw)"
proof -
  let ?d = "sw_device sw"
  obtain ok sw1 where check: "sweep_check a sw = (ok, sw1)" by fastforce
  have sw1: "sw_device sw1 = ?d" "table_ok sw1" "ifft_output sw1 = ifft_output sw" "fft_blocks sw1 = fft_blocks sw"
    using sweep_check_device [of a sw] sweep_check_arrays [of a sw] table_ok_check [OF assms(3), of a] by (simp_all add: check)
  have ok: "ok = sweep_acceptable a sw" using sweep_check_ok_iff [of a sw] by (simp add: check)
  let ?sw = "allocate_transform (sw1\<lparr>fftSize := fft_round (fftSize sw1)\<rparr>)"
  let ?go = "allocate_inverse (plan_ranges ?sw)"
  have sw: "sw_device ?sw = ?d" "table_ok ?sw" "table_ok ?go"
    using sw1 table_ok_cong [of ?sw sw1] table_ok_plan [of ?sw] table_ok_cong [of ?go "plan_ranges ?sw"] by simp_all
  have blocks: "ifft_output ?go = ifft_output sw" "fft_blocks ?go = fft_blocks sw + (if ifft_output sw then 6 else 4)"
    using sw1(3,4) by simp_all
  obtain ok2 s2 where start: "sweep_start H cb a ?sw s = Some ((ok2, ?go), s2)" "live H ?d s2"
      and dom2: "dom (devs s2) = dom (devs s)"
    using sweep_start_live [OF assms(1) _ sw(2) assms(4), of s a] assms(2) sw(1) by auto
  have dev: "sw_device ?go = ?d" using sw(1) by simp
  obtain r where r: "monitor env 0 ?go s2 = Some r" using assms(6) [OF dev start(2)] by blast
  obtain ok3 sw3 s3 where r3: "r = ((ok3, sw3), s3)" by (metis prod.collapse)
  have "kept H ?go s2 r"
    using monitor_returned [OF r] monitor_ends [of H ?go env s2 0] assms(5) start(2) r unfolding dev by fastforce
  then have k: "sw_device sw3 = ?d" "live H ?d s3" "dom (devs s3) = dom (devs s)" "table_ok sw3"
      "ifft_output sw3 = ifft_output sw" "fft_blocks sw3 = fft_blocks sw + (if ifft_output sw then 6 else 4)"
    using dev dom2 sw(3) blocks table_ok_cong [of sw3 ?go] by (auto simp: kept_def r3)
  let ?fin = "free_arrays (sw3\<lparr>fd_open := False\<rparr>)"
  obtain s4 where s4: "sweep_finish H sw3 s3 = Some (?fin, s4)" "proper H s4"
      "dom (devs s4) = dom (devs s3) - {?d}"
    using sweep_finish_live [OF assms(1), of sw3 s3] k(1,2) by auto
  have t4: "table_ok ?fin" "sw_device ?fin = ?d" "fft_blocks ?fin = fft_blocks sw"
    using k(1,4-6) by (simp_all add: table_ok_def free_arrays_def)
  consider "\<not> ok" | "ok" "\<not> ok2" | "ok" "ok2" by blast
  then show ?thesis
  proof cases
    case 1
    with check sw1 assms(2) ok show ?thesis by (intro exI [of _ ok] exI [of _ sw1] exI [of _ s]) (simp add: hackrf_sweep_def live_def)
  next
    case 2
    with check start dom2 sw(3) dev blocks ok show ?thesis
      by (intro exI [of _ ok2] exI [of _ ?go] exI [of _ s2]) (simp add: hackrf_sweep_def live_def)
  next
    case 3
    then have "hackrf_sweep H cb env a sw s = Some ((ok3, ?fin), s4)"
      using check start(1) r r3 s4(1) by (simp add: hackrf_sweep_def)
    with s4 k(3) t4 show ?thesis by (intro exI [of _ ok3] exI [of _ ?fin] exI [of _ s4]) simp
  qed
qed


lemma interrupted_ok:
  assumes "background_ok H d env"
  shows "background_ok H d (interrupted k signum env)"
  unfolding background_ok_def
proof (intro allI impI)
  fix i sw s sw' s'
  assume at: "sw_device sw = d" "live H d s" "interrupted k signum env i (sw, s) = (sw', s')"
  obtain sw1 s1 where env: "env i (sw, s) = (sw1, s1)" by fastforce
  with at(3) have "sw' = sw1 \<or> sw' = sigint_callback_handler signum sw1" "s' = s1"
    by (auto simp: interrupted_def split: if_splits)
  with background_okD [OF assms at(1,2) env]
  show "sw_device sw' = d \<and> live H d s' \<and> dom (devs s') = dom (devs s) \<and>
      frequencies sw' = frequencies sw \<and> num_ranges sw' = num_ranges sw \<and>
      ifft_output sw' = ifft_output sw \<and> fft_blocks sw' = fft_blocks sw"
    by (auto simp: sigint_callback_handler_def)
qed

text \<open>The turn after the signal finds the exit flag set.\<close>

lemma interrupted_stops:
  "i \<le> k \<Longrightarrow> \<exists>n. stops (interrupted k signum env) (i + n) (watch (interrupted k signum env) i n p)"
proof (induction "k - i" arbitrary: i p)
  case 0
  then have "sw_exit (fst (turn (interrupted k signum env) i p))"
    by (simp add: turn_def interrupted_def sigint_callback_handler_def split: prod.split)
  then show ?case by (intro exI [of _ 1]) (auto simp: stops_def split: prod.split)
next
  case (Suc m)
  from Suc(2,3) have "m = k - Suc i" "Suc i \<le> k" by simp_all
  from Suc(1) [OF this, of "turn (interrupted k signum env) i p"]
  obtain n where "stops (interrupted k signum env) (Suc i + n)
      (watch (interrupted k signum env) (Suc i) n (turn (interrupted k signum env) i p))" by auto
  then show ?case by (intro exI [of _ "Suc n"]) simp
qed

text \<open>
  A signal ends a sweep. If one arrives during any sleep of the monitor loop, \<open>hackrf_sweep\<close>
  returns, whatever the device, the event thread and the callback do, unless its own checks or the
  start of the stream have already made it fail; when it has got past those, the device is closed.
\<close>

theorem interrupted_sweep_ends:
  assumes "accepting H" "live H (sw_device sw) s" "table_ok sw" "cb \<noteq> NULL" "background_ok H (sw_device sw) env"
  shows "\<exists>ok sw' s'. hackrf_sweep H cb (interrupted k signum env) a sw s = Some ((ok, sw'), s') \<and> proper H s' \<and>
    (\<not> ok \<and> dom (devs s') = dom (devs s) \<or>
     dom (devs s') = dom (devs s) - {sw_device sw} \<and> fft_blocks sw' = fft_blocks sw)"
proof -
  note ok = interrupted_ok [OF assms(5), of k signum]
  have runs: "monitor (interrupted k signum env) 0 sw' s' \<noteq> None" if at: "sw_device sw' = sw_device sw" "live H (sw_device sw) s'" for sw' s'
  proof -
    obtain n where "stops (interrupted k signum env) (0 + n) (watch (interrupted k signum env) 0 n (sw', s'))"
      using interrupted_stops [of 0 k signum env "(sw', s')"] by blast
    from monitor_ends [of H sw', OF _ _ this] ok at obtain r where "monitor (interrupted k signum env) 0 sw' s' = Some r" by auto
    then show ?thesis by simp
  qed
  from sweep_runs [OF assms(1-4) ok runs] show ?thesis by blast
qed

section \<open>What goes wrong\<close>

lemma gains_gone:
  assumes "devs s d = None" "set_gains H a d s = Some (g, s')"
  shows "s' = s"
  using assms by (auto simp: set_gains_def hackrf_set_vga_gain_def hackrf_set_lna_gain_def get_dev_def Let_def bind_pair_Some
      split: if_splits)

text \<open>
  With a \<open>device\<close> that is not open, never opened or closed by an earlier sweep, every sweep
  whose arguments are acceptable runs into undefined behaviour.
\<close>

theorem sweep_needs_an_open_device:
  assumes "sweep_acceptable a sw" "sw_device sw \<notin> dom (devs s)"
  shows "hackrf_sweep H cb env a sw s = None"
proof -
  obtain ok sw1 where check: "sweep_check a sw = (ok, sw1)" by fastforce
  have ok: "ok" "sw_device sw1 = sw_device sw"
    using sweep_check_ok_iff [of a sw] sweep_check_device [of a sw] assms(1) by (simp_all add: check)
  have gone: "devs s (sw_device sw) = None" using assms(2) by blast
  then have "hackrf_start_rx H (sw_device sw) cb NULL s = None"
    by (simp add: hackrf_start_rx_def hackrf_set_transceiver_mode_def get_dev_cases)
  then have "sweep_start H cb a sw2 s = None" if "sw_device sw2 = sw_device sw" for sw2
    using gains_gone [OF gone, of H a] that
    by (cases "set_gains H a (sw_device sw) s") (auto simp: sweep_start_def Let_def)
  with check ok show ?thesis by (simp add: hackrf_sweep_def)
qed

lemma or_code: "error_code a OR error_code b = 0 \<longleftrightarrow> a = HACKRF_SUCCESS \<and> b = HACKRF_SUCCESS"
  using error_code_inj [of a HACKRF_SUCCESS] error_code_inj [of b HACKRF_SUCCESS] by (auto simp: or_eq_0_iff)

text \<open>
  C22. \<open>hackrf_sweep\<close> combines the results of the gain requests with that of starting the stream
  and tests them only then: when the VGA gain is above 62 dB it reports failure even if the
  stream has been started, and leaves the stream running.
\<close>

theorem bad_gain_leaves_stream_running:
  assumes "lib_ok s" "devs s d = Some dv" "\<not> transfer_thread_started dv"
    and "sweep_acceptable a sw" "sw_device sw = d" "62 < a_vga_gain a"
  shows "\<exists>g s1 r s' sw'. set_gains H a d s = Some (g, s1) \<and> hackrf_start_rx H d cb NULL s1 = Some (r, s') \<and>
    hackrf_sweep H cb env a sw s = Some ((False, sw'), s') \<and>
    (r = HACKRF_SUCCESS \<longrightarrow> hackrf_is_streaming d s' = Some (HACKRF_TRUE, s'))"
proof -
  obtain ok sw1 where check: "sweep_check a sw = (ok, sw1)" by fastforce
  have ok: "ok" "sw_device sw1 = d"
    using sweep_check_ok_iff [of a sw] sweep_check_device [of a sw] assms(4,5) by (simp_all add: check)
  have bus: "on_bus d s" using on_bus_ok [OF assms(1), of d] assms(2) by blast
  have vga: "hackrf_set_vga_gain H d (a_vga_gain a) s = Some (HACKRF_ERROR_INVALID_PARAM, s)"
    using assms(6) by (simp add: hackrf_set_vga_gain_def)
  obtain r2 s1 where lna: "hackrf_set_lna_gain H d (a_lna_gain a) s = Some (r2, s1)"
    using set_lna_gain_request.runs [OF bus TrueI] by blast
  then have conf: "confined s s1" by (rule set_lna_gain_request.confined)
  define g where "g = error_code HACKRF_ERROR_INVALID_PARAM OR error_code r2"
  have gains: "set_gains H a d s = Some (g, s1)" by (simp add: set_gains_def vga lna g_def)
  have g0: "g OR error_code r \<noteq> 0" for r
    using or_code [of HACKRF_ERROR_INVALID_PARAM r2] by (auto simp: g_def or_eq_0_iff)
  have ok1: "lib_ok s1" by (rule lib_ok_evolves [OF assms(1) confined_evolves [OF conf]])
  have dv: "devs s1 d = Some dv" using assms(2) by (simp add: confinedD [OF conf])
  obtain r s' where run: "hackrf_start_rx H d cb NULL s1 = Some (r, s')"
      "r = HACKRF_SUCCESS \<longrightarrow> hackrf_is_streaming d s' = Some (HACKRF_TRUE, s')"
    using start_stream_runs [OF ok1 dv assms(3), of "rx_ctx_update (\<lambda>_. NULL)" H HACKRF_TRANSCEIVER_MODE_RECEIVE "0x81" cb] assms(3)
    by (auto simp: start_streams split: if_splits)
  have "hackrf_sweep H cb env a sw s = Some ((False, allocate_inverse (plan_ranges (allocate_transform (sw1\<lparr>fftSize := fft_round (fftSize sw1)\<rparr>)))), s')"
    using check ok gains run(1) g0 by (simp add: hackrf_sweep_def sweep_start_def Let_def)
  with gains run show ?thesis by blast
qed

section \<open>The request and the stream\<close>

lemma samples_bytes:
  assumes "8192 dvd unat (n :: u32)" "n \<noteq> 0" "unat n < 2 ^ 31"
  shows "n * 2 mod 16384 = 0" "16384 \<le> n * 2"
proof -
  obtain k where k: "unat n = 8192 * k" using assms(1) by (elim dvdE)
  have u: "unat (n * 2) = 16384 * k" using assms(3) k by (simp add: unat_word_ariths)
  then show "n * 2 mod 16384 = 0" by (simp add: word_unat_eq_iff unat_mod_distrib)
  have "k \<noteq> 0" using assms(2) k by (auto simp: word_unat_eq_iff)
  with u show "16384 \<le> n * 2" by (simp add: word_le_nat_alt)
qed

text \<open>
  The request that \<open>hackrf_sweep\<close> derives from its globals is never refused by the parameter
  checks of \<open>hackrf_init_sweep\<close>, for up to \<open>2 ^ 31\<close> samples: when it succeeds, exactly the
  version question and one packet have gone to the device, with the planned ranges, the step of
  20 MHz, the offset of 7.5 MHz and the interleaved style.
\<close>

theorem sweep_request_never_refused:
  assumes "table_ok sw" "0 < num_ranges sw" "8192 dvd unat (num_samples sw)" "num_samples sw \<noteq> 0" "unat (num_samples sw) < 2 ^ 31"
    and "devs s (sw_device sw) = Some dv" "request_sweep H sw s = Some (r, s')"
  shows "r \<noteq> HACKRF_ERROR_INVALID_PARAM \<and> (r = HACKRF_SUCCESS \<longrightarrow>
    trace s' = trace s @ [Usb_get_own_descriptor (usb_device dv),
      Usb_control (usb_device dv) VENDOR_OUT (request_code INIT_SWEEP) (ucast (num_samples sw * 2 AND 0xffff))
        (ucast (drop_bit 16 (num_samples sw * 2) AND 0xffff))
        (sweep_packet (take (2 * num_ranges sw) (frequencies sw)) 20000000 7500000 1) (9 + 4 * of_nat (num_ranges sw))])"
proof -
  have step: "(ucast (TUNE_STEP * 1000000) :: u32) = 20000000" by (simp add: TUNE_STEP_20)
  have n: "1 \<le> num_ranges sw" "num_ranges sw \<le> 10" using assms(1,2) by (simp_all add: table_ok_def)
  note bytes = samples_bytes [OF assms(3-5)]
  show ?thesis
    using init_sweep_request.gate [of s "sw_device sw" dv H
        "(frequencies sw, int (num_ranges sw), num_samples sw * 2, 20000000, 7500000, 1)" r s'] assms(6,7) n bytes
    by (auto simp: request_sweep_def step OFFSET_def INTERLEAVED_def Let_def split: if_splits)
qed

text \<open>A host whose client callback \<open>cb\<close> is \<open>rx_callback\<close> with the globals \<open>sw\<close>.\<close>

definition runs_rx_callback :: "host \<Rightarrow> ptr \<Rightarrow> ('c, 'p) dsp \<Rightarrow> 'c receiver \<Rightarrow> bool" where
  "runs_rx_callback H cb D sw \<longleftrightarrow>
     (\<forall>tr x. \<exists>now buffer out sw'.
        rx_callback D now buffer (t_valid_length x) sw = Some ((rc (answer H tr (Sample_callback cb x)), out), sw'))"

lemma runs_rx_callback_refuses:
  assumes "runs_rx_callback H cb D sw" "\<not> fd_open sw"
  shows "rc (answer H tr (Sample_callback cb x)) = -1"
  using assms unfolding runs_rx_callback_def rx_callback_def by fastforce

lemma is_streaming_exit: "devs s d = Some dv \<Longrightarrow> do_exit dv \<Longrightarrow> hackrf_is_streaming d s \<noteq> Some (HACKRF_TRUE, s)"
  by (simp add: hackrf_is_streaming_def)

text \<open>
  C19. Sweep and library together: as no part of the program opens the output file, the first
  sample transfer that completes ends the stream. The event thread passes it to \<open>rx_callback\<close>,
  whose refusal makes the library give up the transfer and tell the device to exit, so that the
  next question of the monitor loop finds the device no longer streaming.
\<close>

theorem first_transfer_ends_stream:
  assumes host: "runs_rx_callback H cb D sw" "\<not> fd_open sw"
    and ok: "callbacks_ok s" and dv: "devs s d = Some dv" "streaming dv" "\<not> do_exit dv" "callback dv = cb" "cb \<noteq> NULL"
    and t: "t \<in> active s" "xfers s t = Some x" "x_user_data x = d" "x_callback x = Hackrf_libusb_transfer_callback"
    and ev: "completed (answer H (trace s) Usb_handle_events) = (t, LIBUSB_TRANSFER_COMPLETED, n) # es"
  shows "\<exists>s'. thread_pass H d s = Some (True, s') \<and> hackrf_is_streaming d s' \<noteq> Some (HACKRF_TRUE, s') \<and> t \<notin> active s'"
proof -
  let ?dv = "dv\<lparr>do_exit := True\<rparr>"
  obtain c where c: "deliver H (t, LIBUSB_TRANSFER_COMPLETED, n) (s\<lparr>trace := trace s @ [Usb_handle_events]\<rparr>) =
      Some ((), s\<lparr>devs := (devs s)(d \<mapsto> ?dv), active := active s - {t}, trace := trace s @ [Usb_handle_events, c]\<rparr>)"
    using dv t runs_rx_callback_refuses [OF host]
    by (simp add: deliver_def hackrf_libusb_transfer_callback_def request_exit_def Let_def)
  define s1 where "s1 = s\<lparr>devs := (devs s)(d \<mapsto> ?dv), active := active s - {t}, trace := trace s @ [Usb_handle_events, c]\<rparr>"
  have s1: "callbacks_ok s1" "devs s1 d = Some ?dv" "t \<notin> active s1"
    using ok dv unfolding s1_def callbacks_ok_def by fastforce+
  obtain s2 where s2: "deliver_all H es s1 = Some ((), s2)" "flags_only s1 s2"
    using deliver_all_runs [OF s1(1)] by blast
  obtain dv2 where dv2: "devs s2 d = Some dv2" "flags_like ?dv dv2" using flags_only_dev [OF s2(2) s1(2)] .
  obtain s3 where s3: "after_events d (rc (answer H (trace s) Usb_handle_events)) s2 = Some ((), s3)" "flags_only s2 s3"
    using after_events_runs [OF dv2(1)] by blast
  obtain dv3 where dv3: "devs s3 d = Some dv3" "flags_like dv2 dv3" using flags_only_dev [OF s3(2) dv2(1)] .
  have "do_exit dv3" using flags_like_fields(8) [OF dv3(2)] flags_like_fields(8) [OF dv2(2)] by simp
  moreover have "t \<notin> active s3" using flags_onlyD(3) [OF s2(2)] flags_onlyD(3) [OF s3(2)] s1(3) by blast
  moreover have "thread_pass H d s = Some (True, s3)"
    using dv ev c s2(1) s3(1) by (simp add: thread_pass_def libusb_handle_events_def s1_def)
  ultimately show ?thesis using is_streaming_exit [OF dv3(1)] by blast
qed

section \<open>The set-up thread\<close>

lemma sweep_thread_runs:
  assumes "accepting H" "proper H s"
  shows "a_serial_number a = 0 \<Longrightarrow> \<exists>ok sw' s'. hackRFSweepThread H a sw s = Some ((ok, sw'), s') \<and> proper H s' \<and>
      (ok \<longrightarrow> sw' = sw\<lparr>sw_device := sw_device sw'\<rparr> \<and> sw_device sw' \<notin> dom (devs s) \<and>
        dom (devs s') = insert (sw_device sw') (dom (devs s)))"
    and "a_serial_number a \<noteq> 0 \<Longrightarrow> hackRFSweepThread H a sw s = None \<or>
      (\<exists>s'. hackRFSweepThread H a sw s = Some ((False, sw), s') \<and> devs s' = devs s)"
proof -
  note ok = proper_ok [OF assms]
  have c: "legal H s Init" by (simp add: legal_def)
  obtain s1 where "perform H Init s = Some s1" using legal_call_runs [OF _ _ assms(1) c] ok by blast
  then obtain r1 where init: "hackrf_init H s = Some (r1, s1)" "proper H s1"
    using proper.call [OF assms(2) c] by auto
  have devs1: "devs s1 = devs s" using init_exit_ok(1) [OF conjunct1 [OF ok] init(1)] by simp
  have ok1: "lib_ok s1" using proper_ok [OF assms(1) init(2)] by simp
  obtain e v s2 where op: "hackrf_open H (Some (sw_device sw)) s1 = Some ((e, Some v), s2)" "opened e (sw_device sw) v s1 s2"
    using hackrf_open_outcome [OF ok1] by blast
  have serial: "hackrf_open_by_serial H None (Some (sw_device sw)) s1 = Some ((e, Some v), s2)"
    using op(1) by (simp add: hackrf_open_by_serial_def)
  have "legal H s1 (Open_by_serial None (Some (sw_device sw)))" by (simp add: legal_def)
  then have prop2: "proper H s2" by (rule proper.call [OF init(2)]) (simp add: serial)
  show "\<exists>ok sw' s'. hackRFSweepThread H a sw s = Some ((ok, sw'), s') \<and> proper H s' \<and>
      (ok \<longrightarrow> sw' = sw\<lparr>sw_device := sw_device sw'\<rparr> \<and> sw_device sw' \<notin> dom (devs s) \<and>
        dom (devs s') = insert (sw_device sw') (dom (devs s)))" if zero: "a_serial_number a = 0"
  proof (cases "r1 = HACKRF_SUCCESS \<and> e = HACKRF_SUCCESS")
    case True
    then have v: "v \<notin> dom (devs s)" "live H v s2" "dom (devs s2) = insert v (dom (devs s))"
      using op(2) devs1 prop2 by (auto simp: opened_def live_def)
    obtain r3 s3 where s3: "hackrf_set_sample_rate_manual H v (ucast DEFAULT_SAMPLE_RATE_HZ) 1 s2 = Some (r3, s3)" "live H v s3"
        "dom (devs s3) = dom (devs s2)"
      using requests_live(6) [OF assms(1) v(2) one_neq_zero] by blast
    obtain r4 s4 where s4: "hackrf_set_baseband_filter_bandwidth H v DEFAULT_BASEBAND_FILTER_BANDWIDTH s3 = Some (r4, s4)" "live H v s4"
        "dom (devs s4) = dom (devs s3)"
      using requests_live(7) [OF assms(1) s3(2)] by blast
    show ?thesis
      using True init(1) zero serial s3 s4 v by (auto simp: hackRFSweepThread_def Let_def live_def)
  next
    case False
    with init serial zero prop2 show ?thesis by (auto simp: hackRFSweepThread_def Let_def)
  qed
  show "hackRFSweepThread H a sw s = None \<or>
      (\<exists>s'. hackRFSweepThread H a sw s = Some ((False, sw), s') \<and> devs s' = devs s)" if "a_serial_number a \<noteq> 0"
    using init(1) that devs1 by (simp add: hackRFSweepThread_def)
qed

text \<open>
  C21. On a host that takes every transfer, for a client that has kept to the documented use,
  \<open>hackRFSweepThread\<close> with the serial number 0 meets no undefined behaviour and stays within the
  documented use; when it succeeds, the global \<open>device\<close> is a device that was not open before.
  With any other serial number it can only fail before it opens a device.
\<close>

theorem sweep_thread_opens_device:
  assumes "accepting H" "proper H s"
  shows "(a_serial_number a = 0 \<longrightarrow> (\<exists>ok sw' s'. hackRFSweepThread H a sw s = Some ((ok, sw'), s') \<and> proper H s' \<and>
      (ok \<longrightarrow> sw_device sw' \<in> dom (devs s') - dom (devs s)))) \<and>
    (a_serial_number a \<noteq> 0 \<longrightarrow> hackRFSweepThread H a sw s = None \<or>
      (\<exists>s'. hackRFSweepThread H a sw s = Some ((False, sw), s') \<and> devs s' = devs s))"
  using sweep_thread_runs [OF assms, of a sw] by blast

section \<open>A session\<close>


section \<open>Examples\<close>

text \<open>A background in which no data arrives.\<close>

definition silence :: background where
  "silence i p = ((fst p)\<lparr>byte_count := 0\<rparr>, snd p)"

lemma silence_ok: "background_ok H d silence"
  by (auto simp: background_ok_def silence_def)

lemma opened_live: "live (steady_host 0) 6 opened_lib" "accepting (steady_host 0)"
  using opened_proper by (simp_all add: live_def accepting_def)

lemma silence_stops: "stops silence i p"
  by (simp add: stops_def silence_def split: prod.split)

definition sweep_6 :: sweep where
  "sweep_6 = init_sweep\<lparr>sw_device := 6\<rparr>"

lemma sweep_6_simps [simp]: "sw_device sweep_6 = 6" "table_ok sweep_6"
  using table_ok_init table_ok_cong [of sweep_6 init_sweep] by (simp_all add: sweep_6_def)

theorem monitor_returns_iff_witness:
  "\<exists>r. monitor silence 0 sweep_6 opened_lib = Some r"
  using monitor_returns_iff [of "steady_host 0" sweep_6 silence opened_lib 0] silence_ok opened_live(1) silence_stops by simp


text \<open>Data keep coming; only the signal ends the sweep.\<close>

definition busy_background :: background where
  "busy_background i p = ((fst p)\<lparr>byte_count := 262144\<rparr>, snd p)"

text \<open>A host on which every control transfer moves the bytes that it should.\<close>

definition obliging_host :: host where
  "obliging_host = \<lparr>big_endian = False, stack = (\<lambda>_. 0), answer = (\<lambda>_ c. case c of
     Usb_control h rtype req wValue wIndex data wLength \<Rightarrow> steady_reply (uint wLength)
   | _ \<Rightarrow> steady_reply 0)\<rparr>"

lemma obliging_host_simps [simp]:
  "answer obliging_host tr (Usb_control h t q v i ds n) = steady_reply (uint n)"
  "answer obliging_host tr Usb_init = steady_reply 0"
  by (simp_all add: obliging_host_def)

lemma obliging_open:
  "\<exists>v s'. hackrf_open obliging_host (Some 0) (snd (the (hackrf_init obliging_host init_lib))) = Some ((HACKRF_SUCCESS, Some v), s') \<and>
    hackrf_init obliging_host init_lib = Some (HACKRF_SUCCESS, snd (the (hackrf_init obliging_host init_lib)))"
proof -
  have "[0..<TRANSFER_COUNT] = [0, 1, 2, 3]"
    by (simp add: TRANSFER_COUNT_def upt_rec)
  then show ?thesis
    by (simp add: hackrf_init_def Let_def hackrf_open_def open_vid_pid_def libusb_open_handle_def hackrf_open_setup_def
      set_hackrf_configuration_def detach_kernel_drivers_def attach_device_def allocate_transfers_def
      USB_CONFIG_STANDARD_def LIBUSB_SUCCESS_def libusb_alloc_transfer_def mod_xfer_def set_transfer_def
      fresh_def new_device_def TRANSFER_COUNT_def numeral_eq_Suc obliging_host_def)
qed

text \<open>There the set-up succeeds on any device that is open.\<close>

lemma obliging_filter:
  "devs s d = Some dv \<Longrightarrow> usb_device dv \<in> handles s \<Longrightarrow>
    \<exists>s'. hackrf_set_baseband_filter_bandwidth obliging_host d bw s = Some (HACKRF_SUCCESS, s') \<and>
      devs s' = devs s \<and> handles s' = handles s"
  by (simp add: hackrf_set_baseband_filter_bandwidth_def get_dev_def)

lemma obliging_rate:
  assumes "devs s d = Some dv" "usb_device dv \<in> handles s"
  shows "\<exists>s'. hackrf_set_sample_rate_manual obliging_host d rate 1 s = Some (HACKRF_SUCCESS, s') \<and>
      devs s' = devs s \<and> handles s' = handles s"
proof -
  obtain bw where bw: "rate_bandwidth rate 1 = Some bw" by (auto simp: rate_bandwidth_def)
  have "\<exists>s'. hackrf_set_baseband_filter_bandwidth obliging_host d (hackrf_compute_baseband_filter_bw bw) (s\<lparr>trace := tr\<rparr>) =
      Some (HACKRF_SUCCESS, s') \<and> devs s' = devs s \<and> handles s' = handles s" for tr
    using obliging_filter [of "s\<lparr>trace := tr\<rparr>" d dv] assms by simp
  then show ?thesis
    using assms bw by (simp add: hackrf_set_sample_rate_manual_def Let_def get_dev_def)
qed

lemma obliging_thread:
  "\<exists>sw1 s1. hackRFSweepThread obliging_host wifi_band init_sweep init_lib = Some ((True, sw1), s1)"
proof -
  define s0 where "s0 = snd (the (hackrf_init obliging_host init_lib))"
  obtain v s2 where open_: "hackrf_open obliging_host (Some 0) s0 = Some ((HACKRF_SUCCESS, Some v), s2)"
    and init: "hackrf_init obliging_host init_lib = Some (HACKRF_SUCCESS, s0)"
    using obliging_open unfolding s0_def by blast
  have "lib_ok s0" using init_exit_ok(1) [OF lib_ok_init init] by simp
  then have "opened HACKRF_SUCCESS 0 v s0 s2"
    using hackrf_open_outcome [of s0 obliging_host 0] open_ by auto
  then obtain dv where dv: "devs s2 v = Some dv" "lib_ok s2" by (auto simp: opened_def)
  then have "usb_device dv \<in> handles s2" using on_bus_ok [OF dv(2), of v] by (auto simp: on_bus_def)
  with dv(1) obtain s3 where s3: "hackrf_set_sample_rate_manual obliging_host v (ucast DEFAULT_SAMPLE_RATE_HZ) 1 s2 = Some (HACKRF_SUCCESS, s3)"
      "devs s3 v = Some dv" "usb_device dv \<in> handles s3"
    using obliging_rate [of s2 v dv] by metis
  obtain s4 where "hackrf_set_baseband_filter_bandwidth obliging_host v DEFAULT_BASEBAND_FILTER_BANDWIDTH s3 = Some (HACKRF_SUCCESS, s4)"
    using obliging_filter [OF s3(2,3)] by blast
  with init open_ s3(1) show ?thesis
    by (simp add: hackRFSweepThread_def hackrf_open_by_serial_def wifi_band_def init_sweep_def Let_def)
qed


theorem interrupted_sweep_ends_witness:
  "\<exists>ok sw' s'. hackrf_sweep (steady_host 0) 1 (interrupted 3 2 busy_background) wifi_band sweep_6 opened_lib = Some ((ok, sw'), s')"
proof -
  have "background_ok (steady_host 0) (sw_device sweep_6) busy_background"
    by (auto simp: background_ok_def busy_background_def)
  then show ?thesis
    using interrupted_sweep_ends [of "steady_host 0" sweep_6 opened_lib 1 busy_background] opened_live by fastforce
qed

lemma wifi_band_acceptable: "sweep_acceptable wifi_band init_sweep" "sweep_acceptable wifi_band sweep_6"
  "sweep_acceptable (wifi_band\<lparr>a_vga_gain := 64\<rparr>) sweep_6"
  by (simp_all add: sweep_acceptable_def wifi_band_def sweep_6_def init_sweep_def SAMPLES_PER_BLOCK_def)

theorem sweep_needs_an_open_device_witness:
  "hackrf_sweep (steady_host 0) 1 silence wifi_band init_sweep opened_lib = None"
  by (rule sweep_needs_an_open_device [OF wifi_band_acceptable(1)]) (simp add: init_sweep_def)

theorem bad_gain_leaves_stream_running_witness:
  "\<exists>sw' s'. hackrf_sweep (steady_host 0) 1 silence (wifi_band\<lparr>a_vga_gain := 64\<rparr>) sweep_6 opened_lib = Some ((False, sw'), s')"
  using bad_gain_leaves_stream_running [of opened_lib 6 opened_device "wifi_band\<lparr>a_vga_gain := 64\<rparr>" sweep_6 "steady_host 0" 1 silence]
    wifi_band_acceptable(3) by auto

definition planned_6 :: sweep where
  "planned_6 = snd (sweep_check wifi_band sweep_6)"

theorem sweep_request_never_refused_witness:
  "\<exists>r s'. request_sweep (steady_host 20) planned_6 opened_lib = Some (r, s') \<and> r \<noteq> HACKRF_ERROR_INVALID_PARAM"
proof -
  have t: "table_ok planned_6" unfolding planned_6_def by (rule table_ok_check) simp
  have p: "num_ranges planned_6 = 1" "num_samples planned_6 = 8192" "sw_device planned_6 = 6"
    by (simp_all add: planned_6_def snd_sweep_check sweep_6_def init_sweep_def wifi_band_def SAMPLES_PER_BLOCK_def)
  have "on_bus 6 opened_lib" by (simp add: on_bus_def)
  from init_sweep_request.runs [OF this, where H = "steady_host 20" and x = "(frequencies planned_6, 1, 8192 * 2, ucast (TUNE_STEP * 1000000), OFFSET, INTERLEAVED)"] p t
  obtain r s' where "request_sweep (steady_host 20) planned_6 opened_lib = Some (r, s')"
    by (auto simp: request_sweep_def table_ok_def)
  with sweep_request_never_refused [of planned_6 opened_lib opened_device "steady_host 20" r s'] p t show ?thesis by auto
qed

theorem sweep_thread_opens_device_witness:
  "\<exists>ok sw' s'. hackRFSweepThread (steady_host 0) wifi_band init_sweep init_lib = Some ((ok, sw'), s') \<and> proper (steady_host 0) s'"
proof -
  have "a_serial_number wifi_band = 0" by (simp add: wifi_band_def)
  then show ?thesis
    using sweep_thread_opens_device [OF opened_live(2) proper.start, of wifi_band init_sweep] by blast
qed

text \<open>A transfer completes; the client's callback refuses it.\<close>

definition refusing_host :: host where
  "refusing_host = \<lparr>big_endian = False, stack = (\<lambda>_. 0), answer = (\<lambda>tr c. case c of
     Usb_handle_events \<Rightarrow> (steady_reply 0)\<lparr>completed := [(2, 0, 512)]\<rparr>
   | Sample_callback cb x \<Rightarrow> steady_reply (-1)
   | _ \<Rightarrow> steady_reply 0)\<rparr>"

definition receiving_lib :: lib where
  "receiving_lib = sample_lib\<lparr>devs := [9 \<mapsto> sample_device\<lparr>callback := 1, transfer_thread_started := True, streaming := True\<rparr>],
     xfers := [2 \<mapsto> sample_transfer\<lparr>x_callback := Hackrf_libusb_transfer_callback\<rparr>], active := {2}\<rparr>"

theorem first_transfer_ends_stream_witness:
  "\<exists>s'. thread_pass refusing_host 9 receiving_lib = Some (True, s') \<and> hackrf_is_streaming 9 s' \<noteq> Some (HACKRF_TRUE, s')"
proof -
  let ?sw = "(example_receiver False 5 [])\<lparr>fd_open := False\<rparr>"
  have "runs_rx_callback refusing_host 1 example_dsp ?sw" "\<not> fd_open ?sw"
    by (simp_all add: runs_rx_callback_def rx_callback_def refusing_host_def)
  moreover have "callbacks_ok receiving_lib"
    by (simp add: callbacks_ok_def receiving_lib_def)
  ultimately show ?thesis
    using first_transfer_ends_stream [of refusing_host 1 example_dsp ?sw receiving_lib 9
        "sample_device\<lparr>callback := 1, transfer_thread_started := True, streaming := True\<rparr>" 2
        "sample_transfer\<lparr>x_callback := Hackrf_libusb_transfer_callback\<rparr>" 512 "[]"]
    by (auto simp: receiving_lib_def refusing_host_def LIBUSB_TRANSFER_COMPLETED_def)
qed

end
