(* ===== verification/Sweep_Windows.thy ===== *)
theory Sweep_Windows
  imports Sweep_Plan
begin

text \<open>
  The parts of hackrf_sweep.c that stand in for POSIX on Windows: \<open>gettimeofday\<close>, from which the
  callback takes its time stamps, and the handler of the console's Ctrl-C. \<open>long\<close> has 32 bits there.
\<close>

section \<open>The clock\<close>

text \<open>
  \<open>high\<close> and \<open>low\<close> are the halves of the \<open>FILETIME\<close> that the system answers; the structure behind
  \<open>tv\<close> is left alone when the pointer is null.
\<close>

definition gettimeofday :: "u32 \<Rightarrow> u32 \<Rightarrow> (int \<times> int) option \<Rightarrow> (int \<times> int) option" where
  "gettimeofday high low tv =
     (case tv of
        None \<Rightarrow> None
      | Some _ \<Rightarrow>
          let tmp = 0 OR ucast high;
              tmp = push_bit 32 tmp;
              tmp = tmp OR ucast low;
              tmp = tmp div 10;
              tmp = tmp - 11644473600000000 :: u64
          in Some (sint (ucast (tmp div 1000000) :: u32), sint (ucast (tmp mod 1000000) :: u32)))"

text \<open>The ticks of 100 ns since 1601 that a \<open>FILETIME\<close> counts, and those of the start of 1970.\<close>

definition filetime :: "u32 \<Rightarrow> u32 \<Rightarrow> nat" where
  "filetime high low = unat high * 2 ^ 32 + unat low"

definition unix_epoch :: nat where
  "unix_epoch = 116444736000000000"

lemma unat_halves: "unat (push_bit 32 (ucast high) OR ucast low :: u64) = filetime high low"
proof -
  have le: "unat high < 2 ^ 32" "unat low < 2 ^ 32"
    using unsigned_less [of high] unsigned_less [of low] by simp_all
  have "push_bit 32 (ucast high) OR ucast low = (push_bit 32 (ucast high) + ucast low :: u64)"
    by (rule disjunctive_add [symmetric]) (auto simp: bit_simps dest: bit_imp_le_length)
  then have "unat (push_bit 32 (ucast high) OR ucast low :: u64) =
      (unat (push_bit 32 (ucast high) :: u64) + unat (ucast low :: u64)) mod 2 ^ 64"
    by (simp add: unat_word_ariths)
  also have "unat (push_bit 32 (ucast high) :: u64) = unat high * 2 ^ 32"
    using le(1) by (simp add: push_bit_eq_mult unat_word_ariths unsigned_ucast_eq take_bit_nat_eq_self)
  also have "unat (ucast low :: u64) = unat low"
    using le(2) by (simp add: unsigned_ucast_eq take_bit_nat_eq_self)
  finally show ?thesis using le by (simp add: filetime_def)
qed

lemma signed_small: "unat (w :: u64) < 2 ^ 31 \<Longrightarrow> sint (ucast w :: u32) = int (unat w)"
  using sint_small [of "unat w"] by simp

text \<open>
  Between 1970 and 2038 the \<open>gettimeofday\<close> for Windows gives the system time, in microseconds
  since 1970, as seconds and a rest below one million; no step of its arithmetic wraps around.
\<close>

theorem windows_clock:
  assumes "unix_epoch \<le> filetime high low" "filetime high low < unix_epoch + 2 ^ 31 * 10000000"
  shows "\<exists>sec usec. gettimeofday high low (Some tv) = Some (sec, usec) \<and> 0 \<le> sec \<and> 0 \<le> usec \<and> usec < 1000000 \<and>
    sec * 1000000 + usec = int ((filetime high low - unix_epoch) div 10)"
proof -
  define t where "t = filetime high low"
  define m where "m = t div 10 - 11644473600000000"
  define w where "w = (push_bit 32 (ucast high) OR ucast low :: u64) div 10 - 11644473600000000"
  have t: "116444736000000000 \<le> t" "t < 116444736000000000 + 2 ^ 31 * 10000000"
    using assms by (simp_all add: t_def unix_epoch_def)
  have div: "unat ((push_bit 32 (ucast high) OR ucast low :: u64) div 10) = t div 10"
    by (simp add: unat_div_distrib unat_halves t_def)
  have ge: "11644473600000000 \<le> t div 10" using t(1) by (simp add: less_eq_div_iff_mult_less_eq)
  then have w: "unat w = m"
    unfolding w_def m_def by (subst unat_sub) (simp_all add: div word_le_nat_alt)
  have m: "m = (t - unix_epoch) div 10"
    using div_mult_self1 [of 10 "t - unix_epoch" 11644473600000000] t(1) by (simp add: m_def unix_epoch_def)
  have "m < 2 ^ 31 * 1000000" using t unfolding m unix_epoch_def by (intro less_mult_imp_div_less) linarith
  then have sec: "m div 1000000 < 2 ^ 31" by (intro less_mult_imp_div_less) simp
  have "gettimeofday high low (Some tv) = Some (int (m div 1000000), int (m mod 1000000))"
    using sec w signed_small [of "w div 1000000"] signed_small [of "w mod 1000000"]
    by (simp add: gettimeofday_def Let_def unat_div_distrib unat_mod_distrib flip: w_def)
  moreover have "int (m div 1000000) * 1000000 + int (m mod 1000000) = int m"
    by (simp only: zdiv_int zmod_int mult_div_mod_eq of_nat_numeral div_mult_mod_eq)
  ultimately show ?thesis using m by (simp add: t_def)
qed

text \<open>From 2038 on the seconds are negative.\<close>

lemma windows_clock_2038:
  "gettimeofday 0x01E9FD1E 0xD53E8000 (Some tv) = Some (- 2147483648, 0)"
  by (simp add: gettimeofday_def)

theorem windows_clock_witness:
  "\<exists>sec usec. gettimeofday 0x019DB1DE 0xD5D6FF96 (Some (7, 8)) = Some (sec, usec) \<and> usec < 1000000 \<and>
    sec * 1000000 + usec = 999413"
  using windows_clock [of "0x019DB1DE" "0xD5D6FF96" "(7, 8)"] by (auto simp: filetime_def unix_epoch_def)

section \<open>Ctrl-C\<close>

text \<open>The result tells the system whether the event has been dealt with.\<close>

definition CTRL_C_EVENT :: int where
  "CTRL_C_EVENT = 0"

definition sighandler :: "int \<Rightarrow> sweep \<Rightarrow> bool \<times> sweep" where
  "sighandler signum sw = (if CTRL_C_EVENT = signum then (True, sw\<lparr>sw_exit := True\<rparr>) else (False, sw))"

end
