(* ===== verification/Sweep_Service.thy ===== *)
theory Sweep_Service
  imports Enumeration System
begin

text \<open>
  The status check of hackrf_sweep_svc.c: \<open>CheckHackRFStatus\<close> opens every listed board in
  turn, asks it for its identity and closes it again. What it prints is a list of lines.
\<close>

section \<open>Model\<close>

datatype status_line =
    No_boards
  | Found_board nat "u8 list option"
  | Open_failed hackrf_error
  | Request_failed hackrf_error
  | Board_id u8
  | Firmware_version "u8 list" u16
  | Part_id "u32 \<times> u32"
  | Operacake_found u8

text \<open>The local variables that the requests fill in, kept from one board to the next.\<close>

record status_vars =
  v_board_id :: u8
  v_version :: "u8 list"
  v_usb_version :: u16
  v_partid :: read_partid_serialno_t
  v_operacakes :: "u8 list"

definition BOARD_ID_INVALID :: u8 where
  "BOARD_ID_INVALID = 0xFF"

definition stack_word :: "host \<Rightarrow> nat \<Rightarrow> u32" where
  "stack_word H k = load32 (big_endian H) (map (stack H) [k..<k + 4])"

text \<open>All but the board id are uninitialised.\<close>

definition initial_vars :: "host \<Rightarrow> status_vars" where
  "initial_vars H = \<lparr>v_board_id = BOARD_ID_INVALID, v_version = map (stack H) [0..<256],
     v_usb_version = load16 (big_endian H) (map (stack H) [0..<2]),
     v_partid = \<lparr>part_id = (stack_word H 0, stack_word H 4), serial_no = (stack_word H 8, stack_word H 12, stack_word H 16, stack_word H 20)\<rparr>, v_operacakes = map (stack H) [0..<8]\<rparr>"

text \<open>The Opera Cake boards up to the first zero.\<close>

definition operacake_lines :: "u8 list \<Rightarrow> status_line list" where
  "operacake_lines boards = map Operacake_found (takeWhile (\<lambda>x. x \<noteq> 0) (take 8 boards))"

text \<open>The five requests to an open board; \<open>False\<close> is \<open>return EXIT_FAILURE\<close>.\<close>

definition inspect_board ::
  "host \<Rightarrow> ptr \<Rightarrow> status_vars \<Rightarrow> lib \<Rightarrow> ((bool \<times> status_line list \<times> status_vars) \<times> lib) option" where
  "inspect_board H device v s =
     do { ((result, x), s) \<leftarrow> hackrf_board_id_read H device (v_board_id v) s;
          let v = v\<lparr>v_board_id := x\<rparr>;
          if result \<noteq> HACKRF_SUCCESS then Some ((False, [Request_failed result], v), s)
          else do { let out = [Board_id x];
          ((result, x), s) \<leftarrow> hackrf_version_string_read H device (v_version v) 255 s;
          let v = v\<lparr>v_version := x\<rparr>;
          if result \<noteq> HACKRF_SUCCESS then Some ((False, out @ [Request_failed result], v), s)
          else do { ((result, x), s) \<leftarrow> hackrf_usb_api_version_read H device (v_usb_version v) s;
          let v = v\<lparr>v_usb_version := x\<rparr>;
          if result \<noteq> HACKRF_SUCCESS then Some ((False, out @ [Request_failed result], v), s)
          else do { let out = out @ [Firmware_version (takeWhile (\<lambda>c. c \<noteq> 0) (v_version v)) x];
          ((result, x), s) \<leftarrow> hackrf_board_partid_serialno_read H device (v_partid v) s;
          let v = v\<lparr>v_partid := x\<rparr>;
          if result \<noteq> HACKRF_SUCCESS then Some ((False, out @ [Request_failed result], v), s)
          else do { let out = out @ [Part_id (part_id x)];
          ((result, x), s) \<leftarrow> hackrf_get_operacake_boards H device (v_operacakes v) s;
          let v = v\<lparr>v_operacakes := x\<rparr>;
          if result \<noteq> HACKRF_SUCCESS \<and> result \<noteq> HACKRF_ERROR_USB_API_VERSION
          then Some ((False, out @ [Request_failed result], v), s)
          else if result = HACKRF_SUCCESS then Some ((True, out @ operacake_lines x, v), s)
          else Some ((True, out, v), s) } } } } }"

fun status_loop ::
  "host \<Rightarrow> device_list \<Rightarrow> nat list \<Rightarrow> status_vars \<Rightarrow> lib \<Rightarrow> ((bool \<times> status_line list) \<times> lib) option" where
  "status_loop H l [] v s = Some ((True, []), s)"
| "status_loop H l (i # is) v s =
     do { (_, s) \<leftarrow> ub_unless (i < length (serial_numbers l)) s;
          let out = [Found_board i (serial_numbers l ! i)];
          ((result, device), s) \<leftarrow> hackrf_device_list_open H (Some l) (int i) (Some NULL) s;
          if result \<noteq> HACKRF_SUCCESS
          then do { ((ok, out'), s) \<leftarrow> status_loop H l is v s; Some ((ok, out @ Open_failed result # out'), s) }
          else do { ((ok, out', v), s) \<leftarrow> inspect_board H (the device) v s;
                    if \<not> ok then Some ((False, out @ out'), s)
                    else do { (_, s) \<leftarrow> hackrf_close H (the device) s;
                              ((ok, out''), s) \<leftarrow> status_loop H l is v s;
                              Some ((ok, out @ out' @ out''), s) } } }"

text \<open>The null list that \<open>hackrf_device_list\<close> returns without memory is dereferenced.\<close>

definition CheckHackRFStatus :: "host \<Rightarrow> lib \<Rightarrow> ((bool \<times> status_line list) \<times> lib) option" where
  "CheckHackRFStatus H s =
     do { (result, s) \<leftarrow> hackrf_init H s;
          if result \<noteq> HACKRF_SUCCESS then Some ((False, [Request_failed result]), s)
          else do { (list, s) \<leftarrow> hackrf_device_list H s;
                    case list of
                      None \<Rightarrow> None
                    | Some l \<Rightarrow>
                        if devicecount l < 1 then Some ((False, [No_boards]), s)
                        else do { ((ok, out), s) \<leftarrow> status_loop H l [0..<devicecount l] (initial_vars H) s;
                                  if \<not> ok then Some ((False, out), s)
                                  else do { (_, s) \<leftarrow> hackrf_device_list_free H s;
                                            (_, s) \<leftarrow> hackrf_exit H s;
                                            Some ((True, out), s) } } } }"

section \<open>A board that is inspected\<close>

definition vars_ok :: "status_vars \<Rightarrow> bool" where
  "vars_ok v \<longleftrightarrow> length (v_version v) = 256 \<and> length (v_operacakes v) = 8"

lemma initial_vars_ok: "vars_ok (initial_vars H)"
  by (simp add: vars_ok_def initial_vars_def)

lemma control_length:
  "libusb_control_transfer H h t q v i data n s = Some ((r, buf), s') \<Longrightarrow> length buf = length data"
  by (auto simp: libusb_control_transfer_def bind_pair_Some)

lemma version_string_length:
  "hackrf_version_string_read H d buf n s = Some ((r, x), s') \<Longrightarrow> length x = length buf"
  by (auto simp: hackrf_version_string_read_def fail_libusb_def bind_pair_Some split: if_splits dest: control_length)

lemma operacake_boards_length:
  "hackrf_get_operacake_boards H d buf s = Some ((r, x), s') \<Longrightarrow> length x = length buf"
  by (auto simp: hackrf_get_operacake_boards_def fail_libusb_def bind_pair_Some split: if_splits dest: control_length)

lemma api_version_run:
  assumes "on_bus d s"
  shows "\<exists>r x s'. hackrf_usb_api_version_read H d v s = Some ((r, x), s') \<and> confined s s'"
  using assms by (elim on_busE) (auto simp: hackrf_usb_api_version_read_def fail_libusb_def)

lemma inspect_board_run:
  assumes bus: "on_bus d s" and v: "vars_ok v" and host: "bounded_answers H"
  shows "\<exists>ok out v' s'. inspect_board H d v s = Some ((ok, out, v'), s') \<and> confined s s' \<and> vars_ok v'"
proof -
  obtain r1 x1 s1 where s1: "hackrf_board_id_read H d (v_board_id v) s = Some ((r1, x1), s1)" "confined s s1"
    using board_id_read_request.runs [OF bus] board_id_read_request.confined by (metis prod.collapse TrueI)
  have b1: "on_bus d s1" using bus confined_on_bus [OF s1(2)] by simp
  have "bounded_answers H \<and> unat (255 :: u8) < length (v_version v)" using host v by (simp add: vars_ok_def)
  then obtain r2 x2 s2 where s2: "hackrf_version_string_read H d (v_version v) 255 s1 = Some ((r2, x2), s2)" "confined s1 s2"
    using version_string_request.runs [OF b1, where x = "(v_version v, 255)"]
      version_string_request.confined [where x = "(v_version v, 255)"] by fastforce
  have l2: "length x2 = 256" using version_string_length [OF s2(1)] v by (simp add: vars_ok_def)
  have b2: "on_bus d s2" using b1 confined_on_bus [OF s2(2)] by simp
  obtain r3 x3 s3 where s3: "hackrf_usb_api_version_read H d (v_usb_version v) s2 = Some ((r3, x3), s3)" "confined s2 s3"
    using api_version_run [OF b2] by blast
  have b3: "on_bus d s3" using b2 confined_on_bus [OF s3(2)] by simp
  obtain r4 x4 s4 where s4: "hackrf_board_partid_serialno_read H d (v_partid v) s3 = Some ((r4, x4), s4)" "confined s3 s4"
    using board_partid_serialno_read_request.runs [OF b3] board_partid_serialno_read_request.confined by (metis prod.collapse TrueI)
  have b4: "on_bus d s4" using b3 confined_on_bus [OF s4(2)] by simp
  have "8 \<le> length (v_operacakes v)" using v by (simp add: vars_ok_def)
  then obtain r5 x5 s5 where s5: "hackrf_get_operacake_boards H d (v_operacakes v) s4 = Some ((r5, x5), s5)" "confined s4 s5"
    using get_operacake_boards_request.runs [OF b4, where x = "v_operacakes v"] get_operacake_boards_request.confined by fastforce
  have l5: "length x5 = 8" using operacake_boards_length [OF s5(1)] v by (simp add: vars_ok_def)
  note c = s1(2) confined_trans [OF s1(2) s2(2)] confined_trans [OF confined_trans [OF s1(2) s2(2)] s3(2)]
  note c4 = confined_trans [OF c(3) s4(2)] confined_trans [OF confined_trans [OF c(3) s4(2)] s5(2)]
  show ?thesis
    using s1(1) s2(1) s3(1) s4(1) s5(1) c c4 v l2 l5
    by (auto simp: inspect_board_def vars_ok_def Let_def)
qed

section \<open>All boards\<close>

text \<open>The library has the same devices and handles as before.\<close>

definition same_devices :: "lib \<Rightarrow> lib \<Rightarrow> bool" where
  "same_devices s s' \<longleftrightarrow> dom (devs s') = dom (devs s) \<and> handles s' = handles s \<and> open_devices s' = open_devices s"

definition one_device_more :: "lib \<Rightarrow> lib \<Rightarrow> bool" where
  "one_device_more s s' \<longleftrightarrow> (\<exists>d h. d \<notin> dom (devs s) \<and> dom (devs s') = insert d (dom (devs s)) \<and>
     h \<notin> handles s \<and> handles s' = insert h (handles s))"

definition sound :: "lib \<Rightarrow> bool" where
  "sound s \<longleftrightarrow> lib_ok s \<and> callbacks_ok s"

lemma sound_confined:
  assumes "sound s" "confined s s'"
  shows "sound s'"
  using assms lib_ok_evolves [OF _ confined_evolves [OF assms(2)]] callbacks_ok_same confinedD [OF assms(2)]
  by (auto simp: sound_def)

lemma same_devices_refl [simp]: "same_devices s s"
  by (simp add: same_devices_def)

lemma same_devices_trans:
  "same_devices s t \<Longrightarrow> same_devices t u \<Longrightarrow> same_devices s u"
  "same_devices s t \<Longrightarrow> one_device_more t u \<Longrightarrow> one_device_more s u"
  by (simp_all add: same_devices_def one_device_more_def)

lemma visit_board:
  assumes s: "sound s" and op: "opened HACKRF_SUCCESS NULL d s s1"
    and ins: "vars_ok v" "bounded_answers H"
  shows "\<exists>ok out v' s2. inspect_board H d v s1 = Some ((ok, out, v'), s2) \<and> sound s2 \<and> vars_ok v' \<and>
    one_device_more s s2 \<and> (\<exists>r s3. hackrf_close H d s2 = Some (r, s3) \<and> sound s3 \<and> same_devices s s3)"
proof -
  have s1: "sound s1" using openedD [OF op] callbacks_ok_opened [OF _ _ op] s by (simp add: sound_def)
  obtain dv h where d: "devs s d = None" "h \<notin> handles s" "handles s1 = insert h (handles s)" "devs s1 = (devs s)(d \<mapsto> dv)"
      "usb_device dv = h" "open_devices s1 = open_devices s + 1"
    using op by (auto simp: opened_def)
  then have bus: "on_bus d s1" by (simp add: on_bus_def)
  obtain ok out v' s2 where s2: "inspect_board H d v s1 = Some ((ok, out, v'), s2)" "confined s1 s2" "vars_ok v'"
    using inspect_board_run [OF bus ins] by blast
  have so2: "sound s2" by (rule sound_confined [OF s1 s2(2)])
  note same = confinedD [OF s2(2)]
  have "dom (devs s2) = insert d (dom (devs s))" unfolding same(1) d(4) by simp
  moreover have "d \<notin> dom (devs s)" using d(1) by blast
  moreover have "handles s2 = insert h (handles s)" unfolding same(3) by (rule d(3))
  ultimately have more2: "one_device_more s s2" using d(2) unfolding one_device_more_def by metis
  have dv2: "devs s2 d = Some dv" using d(4) same by simp
  obtain r s3 where s3: "hackrf_close H d s2 = Some (r, s3)" "callbacks_ok s3"
    using close_runs [OF _ _ dv2, of H] so2 by (auto simp: sound_def)
  have "lib_ok s3 \<and> same_devices s s3"
    using close_outcome [OF _ dv2 s3(1)] so2 d same by (auto simp: sound_def same_devices_def)
  with s2 so2 more2 s3 show ?thesis by (auto simp: sound_def)
qed

lemma status_loop_run:
  assumes "list_ok l" "bounded_answers H"
  shows "sound s \<Longrightarrow> vars_ok v \<Longrightarrow> \<forall>i \<in> set is. i < devicecount l \<Longrightarrow>
    \<exists>ok out s'. status_loop H l is v s = Some ((ok, out), s') \<and> sound s' \<and>
      (if ok then same_devices s s' else one_device_more s s')"
proof (induction "is" arbitrary: v s)
  case Nil
  then show ?case by (simp add: ex_bool_eq)
next
  case (Cons i "is")
  have i: "i < devicecount l" "i < length (serial_numbers l)" using Cons.prems(3) assms(1) by (auto simp: list_ok_def)
  have entries: "j < length (usb_device_index l) \<and> usb_device_index l ! j < length (usb_devices l)" if "j < devicecount l" for j
    using assms(1) that by (simp add: list_ok_def)
  obtain e d s1 where op: "hackrf_device_list_open H (Some l) (int i) (Some NULL) s = Some ((e, Some d), s1)" "opened e NULL d s s1"
    using device_list_open_run [OF _ entries, of s H "int i" NULL] Cons.prems(1) i(1) by (auto simp: sound_def)
  have tail: "\<forall>i \<in> set is. i < devicecount l" using Cons.prems(3) by simp
  show ?case
  proof (cases "e = HACKRF_SUCCESS")
    case False
    then have s1: "sound s1" "same_devices s s1"
      using op(2) callbacks_ok_opened [OF _ _ op(2)] Cons.prems(1) by (auto simp: sound_def same_devices_def opened_def)
    obtain ok out s' where "status_loop H l is v s1 = Some ((ok, out), s')" "sound s'"
        "if ok then same_devices s1 s' else one_device_more s1 s'"
      using Cons.IH [OF s1(1) Cons.prems(2) tail] by blast
    with False op(1) i(2) same_devices_trans [OF s1(2)] show ?thesis by (cases ok) auto
  next
    case True
    then obtain ok out v' s2 r s3 where s2: "inspect_board H d v s1 = Some ((ok, out, v'), s2)" "sound s2" "vars_ok v'"
        "one_device_more s s2" and s3: "hackrf_close H d s2 = Some (r, s3)" "sound s3" "same_devices s s3"
      using visit_board [OF Cons.prems(1) _ Cons.prems(2) assms(2), of d s1] op(2) by blast
    obtain ok' out' s' where "status_loop H l is v' s3 = Some ((ok', out'), s')" "sound s'"
        "if ok' then same_devices s3 s' else one_device_more s3 s'"
      using Cons.IH [OF s3(2) s2(3) tail] by blast
    with True op(1) i(2) s2 s3 same_devices_trans [OF s3(3)] show ?thesis by (cases ok; cases ok') auto
  qed
qed


lemma board_host_documented:
  "cached_descriptors board_host (\<lambda>_. sample_descriptor)" "bounded_answers board_host"
  "let r = answer board_host tr Usb_get_device_list in rc r \<le> 256 \<and> rc r \<le> int (length (devices r))"
  "ptr_ok (answer board_host tr C_calloc)"
  by (simp_all add: cached_descriptors_def bounded_answers_def Let_def)


text \<open>Without memory for the list the check dereferences a null pointer.\<close>

lemma status_check_needs_memory:
  assumes "hackrf_init H s = Some (HACKRF_SUCCESS, s1)" "\<not> ptr_ok (answer H (trace s1) C_calloc)"
  shows "CheckHackRFStatus H s = None"
  using assms by (simp add: CheckHackRFStatus_def hackrf_device_list_def)

end
