(* ===== verification/Device_Table.thy ===== *)
theory Device_Table
  imports System
begin

text \<open>
  What the library promises about its devices, as an abstract machine: a table of the open devices
  with one phase each. The lemmas show that every documented call and every pass of an event
  thread is a step of this machine.
\<close>

section \<open>The abstract machine\<close>

text \<open>
  A device is idle, streaming, or at the end of a stream: its thread was told to stop, or stopped by
  itself, and has not been joined.
\<close>

datatype phase = Idle | Streaming | Ending

type_synonym table = "ptr \<Rightarrow> phase option"

text \<open>At any time a stream may end by itself.\<close>

definition ends :: "phase option \<Rightarrow> phase option \<Rightarrow> bool" where
  "ends x y \<longleftrightarrow> y = x \<or> x = Some Streaming \<and> y = Some Ending"

definition winds_down :: "table \<Rightarrow> table \<Rightarrow> bool" where
  "winds_down A B \<longleftrightarrow> (\<forall>d. ends (A d) (B d))"

text \<open>What a call may do to the table.\<close>

definition effect :: "api_call \<Rightarrow> table \<Rightarrow> table \<Rightarrow> bool" where
  "effect c A B =
     (case c of
        Open v \<Rightarrow> B = A \<or> (\<exists>d. A d = None \<and> B = A(d \<mapsto> Idle))
      | Open_by_serial n v \<Rightarrow> B = A \<or> (\<exists>d. A d = None \<and> B = A(d \<mapsto> Idle))
      | Close d \<Rightarrow> B = A(d := None)
      | Start_rx d cb ctx \<Rightarrow> B = A \<or> A d = Some Idle \<and> B = A(d \<mapsto> Streaming)
      | Start_tx d cb ctx \<Rightarrow> B = A \<or> A d = Some Idle \<and> B = A(d \<mapsto> Streaming)
      | Stop_rx d \<Rightarrow> B = A \<or> B = A(d \<mapsto> Idle)
      | Stop_tx d \<Rightarrow> B = A \<or> B = A(d \<mapsto> Idle)
      | _ \<Rightarrow> B = A)"

section \<open>The abstraction\<close>

definition phase_of :: "hackrf_device \<Rightarrow> phase" where
  "phase_of dv =
     (if \<not> transfer_thread_started dv then Idle
      else if streaming dv \<and> \<not> do_exit dv then Streaming else Ending)"

definition table_of :: "lib \<Rightarrow> table" where
  "table_of s d = map_option phase_of (devs s d)"

lemma table_of_cong: "devs s' = devs s \<Longrightarrow> table_of s' = table_of s"
  by (simp add: table_of_def fun_eq_iff)

lemma ends_refl [simp]: "ends x x"
  by (simp add: ends_def)

lemma ends_trans: "ends x y \<Longrightarrow> ends y z \<Longrightarrow> ends x z"
  by (auto simp: ends_def)

lemma winds_down_refl [simp]: "winds_down A A"
  by (simp add: winds_down_def)

lemma flags_like_ends: "flags_like dv dv' \<Longrightarrow> ends (Some (phase_of dv)) (Some (phase_of dv'))"
  using flags_like_fields(2,8,9) [of dv dv'] by (auto simp: ends_def phase_of_def)

lemma flags_only_ends: "flags_only s s' \<Longrightarrow> ends (table_of s d) (table_of s' d)"
  using flags_onlyD(1) [of s s' d]
  by (cases "devs s d"; cases "devs s' d") (simp_all add: table_of_def flags_like_ends)

section \<open>Stopping\<close>

lemma cancel_loop_devs: "cancel_loop H d is s = Some (u, s') \<Longrightarrow> devs s' = devs s"
  by (induction "is" arbitrary: s)
    (auto simp: bind_pair_Some bind_eq_Some_conv libusb_cancel_transfer_def split: if_splits dest!: get_dev_confined)

lemma cancel_transfers_devs: "cancel_transfers H d s = Some (r, s') \<Longrightarrow> devs s' = devs s"
  by (auto simp: cancel_transfers_def bind_pair_Some split: if_splits dest!: get_dev_confined cancel_loop_devs)

lemma kill_transfer_thread_table:
  assumes run: "kill_transfer_thread H d s = Some (r, s')" and cb: "callbacks_ok s" and dv: "devs s d = Some dv"
  shows "ends (table_of s d') (table_of s' d') \<or> d' = d \<and> table_of s' d' = Some Idle"
proof -
  define s1 where "s1 = s\<lparr>devs := (devs s)(d \<mapsto> dv\<lparr>do_exit := True\<rparr>)\<rparr>"
  have f1: "flags_only s s1" unfolding s1_def using dv by (intro flags_onlyI [where cs = "[]"]) auto
  show ?thesis
  proof (cases "transfer_thread_started dv")
    case False
    with run dv have "s' = s1" by (auto simp: kill_transfer_thread_def request_exit_def s1_def)
    with flags_only_ends [OF f1] show ?thesis by simp
  next
    case True
    have dv1: "devs s1 d = Some (dv\<lparr>do_exit := True\<rparr>)" by (simp add: s1_def)
    obtain e s2 cs where s2: "pthread_join H d (transfer_thread dv) s1 = Some (e, s2)" "flags_only s1 s2"
      using pthread_join_runs [OF callbacks_ok_flags [OF cb f1] dv1, of H "transfer_thread dv"] by blast
    note f2 = flags_only_trans [OF f1 s2(2)]
    obtain dv2 where dv2: "devs s2 d = Some dv2" by (rule flags_only_dev [OF f2 dv])
    show ?thesis
    proof (cases "e = 0")
      case False
      with run dv True s2 have "s' = s2" by (auto simp: kill_transfer_thread_def request_exit_def s1_def)
      with flags_only_ends [OF f2] show ?thesis by simp
    next
      case e: True
      define s3 where "s3 = s2\<lparr>devs := (devs s2)(d \<mapsto> dv2\<lparr>transfer_thread_started := False\<rparr>)\<rparr>"
      from run dv True s2 e dv2 have "\<exists>r. cancel_transfers H d s3 = Some (r, s')"
        by (auto simp: kill_transfer_thread_def request_exit_def s1_def s3_def bind_pair_Some)
      then have "devs s' = (devs s2)(d \<mapsto> dv2\<lparr>transfer_thread_started := False\<rparr>)"
        by (auto simp: s3_def dest: cancel_transfers_devs)
      then show ?thesis using flags_only_ends [OF f2, of d'] by (auto simp: table_of_def phase_of_def)
    qed
  qed
qed

lemma stop_table:
  assumes run: "hackrf_stop_rx H d s = Some (r, s')" and ok: "callbacks_ok s" "devs s d = Some dv"
  shows "ends (table_of s d') (table_of s' d') \<or> d' = d \<and> table_of s' d' = Some Idle"
proof -
  from run obtain r1 s1 where s1: "hackrf_set_transceiver_mode H d HACKRF_TRANSCEIVER_MODE_OFF s = Some (r1, s1)"
    and rest: "(if r1 \<noteq> HACKRF_SUCCESS then Some (r1, s1) else kill_transfer_thread H d s1) = Some (r, s')"
    by (auto simp: hackrf_stop_rx_def bind_pair_Some)
  note same = confinedD [OF set_transceiver_mode_request.confined [OF s1]]
  have tab: "table_of s1 = table_of s" by (rule table_of_cong [OF same(1)])
  show ?thesis
  proof (cases "r1 = HACKRF_SUCCESS")
    case False
    with rest tab show ?thesis by simp
  next
    case True
    have "callbacks_ok s1" using ok(1) same by (simp add: callbacks_ok_def)
    with True rest ok(2) same(1) kill_transfer_thread_table [of H d s1 r s' dv d'] tab show ?thesis by simp
  qed
qed

section \<open>Closing, starting and opening\<close>

lemma close_table:
  assumes ok: "lib_ok s" "callbacks_ok s" and dv: "devs s d = Some dv" and run: "hackrf_close H d s = Some (r, s')"
  shows "table_of s' d = None" and "d' \<noteq> d \<Longrightarrow> ends (table_of s d') (table_of s' d')"
proof -
  have "d \<noteq> NULL" using names_okD(1) [OF lib_okD(6) [OF ok(1)], of d] dv by auto
  with run obtain r1 r2 s3 where close: "close_device H d s = Some ((r1, r2), s3)" and s': "devs s' = devs s3"
    by (auto simp: hackrf_close_def bind_pair_Some Let_def)
  obtain s1 s2 dv2 ts where stop: "hackrf_stop_rx H d s = Some (r1, s1)" "hackrf_stop_rx H d s1 = Some (r2, s2)"
    and s3: "s3 = after_close d dv2 ts s2"
    using close_device_run [OF ok(1) dv close] by (auto simp: stop_tx_is_stop_rx)
  have devs: "devs s' = (devs s2)(d := None)" by (simp add: s' s3 after_close_fields)
  then show "table_of s' d = None" by (simp add: table_of_def)
  assume d': "d' \<noteq> d"
  obtain dv1 where "devs s1 d = Some dv1" "callbacks_ok s1"
    using stop_rx_runs [OF ok dv, of H] stop(1) by auto
  from stop_table [OF stop(1) ok(2) dv, of d'] stop_table [OF stop(2) this(2,1), of d'] d'
  have "ends (table_of s d') (table_of s2 d')" by (blast intro: ends_trans)
  with d' show "ends (table_of s d') (table_of s' d')" by (simp add: table_of_def devs)
qed

lemma start_table:
  assumes ok: "lib_ok s" and dv: "devs s d = Some dv"
    and f: "\<And>dv. transfers (f dv) = transfers dv" "\<And>dv. transfer_thread_started (f dv) = transfer_thread_started dv"
      "\<And>dv. streaming (f dv) = streaming dv" "\<And>dv. do_exit (f dv) = do_exit dv"
    and run: "start_stream H d m f ep cb s = Some (r, s')"
  shows "table_of s' = table_of s \<or> table_of s d = Some Idle \<and> table_of s' = (table_of s)(d \<mapsto> Streaming)"
proof (cases "transfer_thread_started dv")
  case True
  have "usb_device dv \<in> handles s" using lib_okD(1) [OF ok dv] by (simp add: device_ok_def)
  with True dv run have "devs s' = devs s \<or> devs s' = (devs s)(d \<mapsto> f dv)"
    by (auto simp: start_stream_def mode_request_run create_transfer_thread_def f Let_def split: if_splits)
  moreover have "phase_of (f dv) = phase_of dv" by (simp add: phase_of_def f)
  ultimately have "table_of s' d' = table_of s d'" for d'
    using dv by (cases "d' = d") (auto simp: table_of_def)
  then show ?thesis by blast
next
  case False
  then have f': "\<not> transfer_thread_started (f dv)" by (simp add: f(2))
  obtain r' s'' dv' where "start_stream H d m f ep cb s = Some (r', s'')" "devs s'' d = Some dv'"
    "\<forall>d'. d' \<noteq> d \<longrightarrow> devs s'' d' = devs s d'"
    "r' = HACKRF_SUCCESS \<Longrightarrow> hackrf_is_streaming d s'' = Some (HACKRF_TRUE, s'')"
    "r' \<noteq> HACKRF_SUCCESS \<Longrightarrow> \<not> transfer_thread_started dv'"
    using start_stream_runs [OF ok dv False, of f H m ep cb, OF f(1) f'] 
    by (elim exE conjE) (rule that, assumption, assumption, assumption, simp_all split: if_splits)
  with run have dv': "devs s' d = Some dv'" and other: "\<And>d'. d' \<noteq> d \<Longrightarrow> devs s' d' = devs s d'"
    and res: "if r = HACKRF_SUCCESS then hackrf_is_streaming d s' = Some (HACKRF_TRUE, s') else \<not> transfer_thread_started dv'"
    by simp_all
  have "phase_of dv' \<in> {Idle, Streaming}"
    using res dv' by (auto simp: phase_of_def hackrf_is_streaming_def split: if_splits)
  moreover have "table_of s d = Some Idle" using False dv by (simp add: table_of_def phase_of_def)
  moreover have "table_of s' = (table_of s)(d \<mapsto> phase_of dv')"
    using dv' other by (auto simp: table_of_def fun_eq_iff)
  ultimately show ?thesis by auto
qed

lemma opened_table:
  assumes "opened e v v' s s'"
  shows "table_of s' = table_of s \<or> (\<exists>d. table_of s d = None \<and> table_of s' = (table_of s)(d \<mapsto> Idle))"
proof (cases "e = HACKRF_SUCCESS")
  case True
  with assms obtain dv where dv: "devs s v' = None" "devs s' = (devs s)(v' \<mapsto> dv)" "idle dv"
    by (auto simp: opened_def)
  then have "table_of s v' = None" "table_of s' = (table_of s)(v' \<mapsto> Idle)"
    by (auto simp: table_of_def fun_eq_iff idle_def phase_of_def)
  then show ?thesis by blast
next
  case False
  with assms have "devs s' = devs s" by (simp add: opened_def)
  then show ?thesis using table_of_cong by blast
qed

lemma open_table:
  assumes "s' = s \<or> (\<exists>v v'. opened e v v' s s')"
  shows "table_of s' = table_of s \<or> (\<exists>d. table_of s d = None \<and> table_of s' = (table_of s)(d \<mapsto> Idle))"
  using assms opened_table by blast

section \<open>Refinement\<close>

lemma stop_effect:
  assumes "hackrf_stop_rx H d s = Some (r, s')" "callbacks_ok s" "devs s d = Some dv"
  shows "\<exists>B. winds_down (table_of s) B \<and> (table_of s' = B \<or> table_of s' = B(d \<mapsto> Idle))"
proof (cases "ends (table_of s d) (table_of s' d)")
  case True
  then have "winds_down (table_of s) (table_of s')"
    unfolding winds_down_def using stop_table [OF assms] by metis
  then show ?thesis by blast
next
  case False
  have "table_of s' = ((table_of s')(d := table_of s d))(d \<mapsto> Idle)"
    using False stop_table [OF assms, of d] by (auto simp: fun_eq_iff)
  moreover have "winds_down (table_of s) ((table_of s')(d := table_of s d))"
    unfolding winds_down_def using stop_table [OF assms] by auto
  ultimately show ?thesis by blast
qed

text \<open>The table after a call: some streams may have ended, and then the call has had its effect.\<close>

definition refined :: "api_call \<Rightarrow> table \<Rightarrow> table \<Rightarrow> bool" where
  "refined c A A' \<longleftrightarrow> (\<exists>B. winds_down A B \<and> effect c B A')"

lemma refinedI: "effect c A A' \<Longrightarrow> refined c A A'"
  unfolding refined_def by (intro exI [of _ A]) (simp add: winds_down_def)

lemma refined_same:
  assumes "devs s' = devs s" "effect c (table_of s) (table_of s)"
  shows "refined c (table_of s) (table_of s')"
  using assms table_of_cong [of s' s] by (intro refinedI) simp

lemma open_refined:
  assumes "lib_ok s" "perform H c s = Some s'" "c = Open v \<or> c = Open_by_serial n v"
  shows "refined c (table_of s) (table_of s')"
  using assms(3)
proof
  assume c: "c = Open v"
  with assms(2) obtain e out where "hackrf_open H v s = Some ((e, out), s')" by auto
  with open_table [OF open_opened [OF assms(1)]] c show ?thesis by (intro refinedI) (simp add: effect_def)
next
  assume c: "c = Open_by_serial n v"
  with assms(2) obtain e out where "hackrf_open_by_serial H n v s = Some ((e, out), s')" by auto
  with open_table [OF open_by_serial_opened' [OF assms(1)]] c show ?thesis by (intro refinedI) (simp add: effect_def)
qed

lemma close_refined:
  assumes "lib_ok s" "callbacks_ok s" "legal H s (Close d)" "perform H (Close d) s = Some s'"
  shows "refined (Close d) (table_of s) (table_of s')"
proof -
  obtain dv r where close: "devs s d = Some dv" "hackrf_close H d s = Some (r, s')"
    using assms(3,4) by (auto simp: legal_def)
  let ?B = "(table_of s')(d := table_of s d)"
  have "winds_down (table_of s) ?B" "table_of s' = ?B(d := None)"
    using close_table [OF assms(1,2) close] by (auto simp: winds_down_def fun_eq_iff)
  then show ?thesis by (auto simp: refined_def effect_def)
qed

lemma start_refined:
  assumes "lib_ok s" "legal H s c" "perform H c s = Some s'" "c = Start_rx d cb ctx \<or> c = Start_tx d cb ctx"
  shows "refined c (table_of s) (table_of s')"
  using assms(4)
proof
  assume c: "c = Start_rx d cb ctx"
  with assms(2,3) obtain dv r where start: "devs s d = Some dv" "hackrf_start_rx H d cb ctx s = Some (r, s')"
    by (auto simp: legal_def)
  from start_table [OF assms(1) start(1) _ _ _ _ start(2) [unfolded start_streams(1)]] c show ?thesis
    by (intro refinedI) (auto simp: effect_def)
next
  assume c: "c = Start_tx d cb ctx"
  with assms(2,3) obtain dv r where start: "devs s d = Some dv" "hackrf_start_tx H d cb ctx s = Some (r, s')"
    by (auto simp: legal_def)
  from start_table [OF assms(1) start(1) _ _ _ _ start(2) [unfolded start_streams(2)]] c show ?thesis
    by (intro refinedI) (auto simp: effect_def)
qed

lemma stop_refined:
  assumes "callbacks_ok s" "legal H s c" "perform H c s = Some s'" "c = Stop_rx d \<or> c = Stop_tx d"
  shows "refined c (table_of s) (table_of s')"
proof -
  obtain dv r where "devs s d = Some dv" "hackrf_stop_rx H d s = Some (r, s')"
    using assms(2-4) by (auto simp: legal_def stop_tx_is_stop_rx)
  with stop_effect [OF _ assms(1)] assms(4) show ?thesis by (auto simp: refined_def effect_def)
qed



end
