(* ===== verification/Admin_Client.thy ===== *)
theory Admin_Client
  imports System
begin

text \<open>
  \<open>ConnectHackRFDevice\<close> of hackrf_admin.c. It opens a device into its own copy of the pointer
  that it was passed, so that nobody can close it.
\<close>

text \<open>\<open>True\<close> is the result 0, \<open>False\<close> is \<open>EXIT_FAILURE\<close>. The argument is passed by value.\<close>

definition ConnectHackRFDevice :: "host \<Rightarrow> ptr \<Rightarrow> lib \<Rightarrow> (bool \<times> lib) option" where
  "ConnectHackRFDevice H device s =
     do { (result, s) \<leftarrow> hackrf_init H s;
          if result \<noteq> HACKRF_SUCCESS then Some (False, s)
          else do { ((result, device), s) \<leftarrow> hackrf_open H (Some device) s;
                    if result \<noteq> HACKRF_SUCCESS then Some (False, s) else Some (True, s) } }"



end
