(* ===== verification/Text_Utils.thy ===== *)
theory Text_Utils
  imports Prelude
begin

text \<open>
  The console helpers of utils.c and \<open>get_client_name\<close> of client.c. A buffer is the list of its
  bytes, a C string in it ends at the first zero byte, and the standard input is the list of the
  bytes still to come. What is printed is left out. The results say which part of the input a call
  takes, which lines a command parser accepts, and where the buffers are left.
\<close>

section \<open>The C library\<close>

definition strlen :: "u8 list \<Rightarrow> nat option" where
  "strlen b = (if 0 \<in> set b then Some (length (takeWhile (\<lambda>c. c \<noteq> 0) b)) else None)"

definition string_in :: "u8 list \<Rightarrow> u8 list" where
  "string_in b = takeWhile (\<lambda>c. c \<noteq> 0) b"

definition literal :: "string \<Rightarrow> u8 list" where
  "literal cs = map of_char cs"

text \<open>\<open>strcmp(b, s) == 0\<close> and \<open>strncmp(b, s, strlen(s)) == 0\<close> for a literal \<open>s\<close>\<close>

definition equals :: "u8 list \<Rightarrow> string \<Rightarrow> bool" where
  "equals b s \<longleftrightarrow> string_in b = literal s"

definition starts_with :: "u8 list \<Rightarrow> string \<Rightarrow> bool" where
  "starts_with b s \<longleftrightarrow> take (length s) (string_in b) = literal s"

text \<open>\<open>memcpy(b + k, xs, length xs)\<close>\<close>

definition copy_to :: "u8 list \<Rightarrow> nat \<Rightarrow> u8 list \<Rightarrow> u8 list option" where
  "copy_to b k xs = (if k + length xs \<le> length b then Some (take k b @ xs @ drop (k + length xs) b) else None)"

text \<open>At most \<open>n\<close> bytes, up to and including a line feed.\<close>

fun take_line :: "nat \<Rightarrow> u8 list \<Rightarrow> u8 list \<times> u8 list" where
  "take_line 0 input = ([], input)"
| "take_line (Suc n) [] = ([], [])"
| "take_line (Suc n) (c # input) =
     (if c = 10 then ([c], input) else let (l, rest) = take_line n input in (c # l, rest))"

text \<open>Whether the result is not null, the buffer and the rest of the input.\<close>

definition fgets :: "u8 list \<Rightarrow> nat \<Rightarrow> u8 list \<Rightarrow> (bool \<times> u8 list \<times> u8 list) option" where
  "fgets buff sz input =
     (if sz = 0 then None
      else let (l, rest) = take_line (sz - 1) input
           in if l = [] \<and> 1 < sz then Some (False, buff, rest)
              else do { buff \<leftarrow> copy_to buff 0 (l @ [0]); Some (True, buff, rest) })"

section \<open>utils.c\<close>

text \<open>\<open>result\<close> is the block that \<open>malloc\<close> gives for the size, \<open>None\<close> for a null pointer.\<close>

definition c_concat :: "(nat \<Rightarrow> u8 list option) \<Rightarrow> u8 list \<Rightarrow> u8 list \<Rightarrow> u8 list option" where
  "c_concat malloc s1 s2 =
     do { len1 \<leftarrow> strlen s1;
          len2 \<leftarrow> strlen s2;
          result \<leftarrow> malloc (len1 + len2 + 1);
          result \<leftarrow> copy_to result 0 (take len1 s1);
          copy_to result len1 (take (len2 + 1) s2) }"

datatype line_result = OK | NO_INPUT | TOO_LONG

text \<open>\<open>while(((ch = getchar()) != LF) && (ch != EOF)) extra = 1;\<close>\<close>

fun skip_line :: "u8 list \<Rightarrow> bool \<times> u8 list" where
  "skip_line [] = (False, [])"
| "skip_line (c # input) = (if c = 10 then (False, input) else (True, snd (skip_line input)))"

definition getLine :: "u8 list \<Rightarrow> nat \<Rightarrow> u8 list \<Rightarrow> (line_result \<times> u8 list \<times> u8 list) option" where
  "getLine buff sz input =
     do { (got, buff, input) \<leftarrow> fgets buff sz input;
          if \<not> got then Some (NO_INPUT, buff, input)
          else do { n \<leftarrow> strlen buff;
                    if n = 0 then None
                    else if buff ! (n - 1) \<noteq> 10
                    then let (extra, input) = skip_line input
                         in Some (if extra then TOO_LONG else OK, buff, input)
                    else Some (OK, buff[n - 1 := 0], input) } }"

text \<open>
  The result, \<open>commandOut\<close> and the input. \<open>prompt\<close> says whether \<open>malloc\<close> gave a buffer for the
  prompt. \<open>snprintf(commandOut, buffsize, "%s", commandOut)\<close> copies a string onto itself, which is
  undefined.
\<close>

definition parseClientInput ::
  "bool \<Rightarrow> u8 list \<Rightarrow> u8 list \<Rightarrow> nat \<Rightarrow> u8 list \<Rightarrow> (bool \<times> u8 list \<times> u8 list) option" where
  "parseClientInput prompt deviceName commandOut buffsize input =
     do { _ \<leftarrow> (if prompt then strlen deviceName else None);
          (rc, commandOut, input) \<leftarrow> getLine commandOut buffsize input;
          if rc = NO_INPUT then Some (False, commandOut, input)
          else if rc = TOO_LONG then Some (False, commandOut, input)
          else if equals commandOut ''exit'' \<or> equals commandOut ''quit'' \<or> equals commandOut ''quit'' \<or> equals commandOut ''close''
          then None
          else if equals commandOut ''help'' \<or> equals commandOut ''h'' \<or> equals commandOut ''?''
          then Some (True, commandOut, input)
          else Some (False, commandOut, input) }"

text \<open>
  \<open>command\<close> is what \<open>malloc(65)\<close> gives. The result, whether \<open>clientconnect\<close> was called, and the
  input.
\<close>

definition parseUserInput :: "u8 list option \<Rightarrow> u8 list \<Rightarrow> (bool \<times> bool \<times> u8 list) option" where
  "parseUserInput command input =
     do { command \<leftarrow> command;
          (rc, command, input) \<leftarrow> getLine command 65 input;
          if rc = OK then Some (True, False, input)
          else do { _ \<leftarrow> strlen command;
                    if starts_with command ''connect'' \<or> starts_with command ''c'' then Some (True, True, input)
                    else if equals command ''exit'' \<or> equals command ''quit'' \<or> equals command ''quit''
                    then Some (False, False, input)
                    else if equals command ''help'' \<or> equals command ''h'' \<or> equals command ''?''
                    then Some (True, False, input)
                    else Some (False, False, input) } }"

section \<open>client.c\<close>

definition get_client_name :: "u8 list \<Rightarrow> u8 list \<Rightarrow> u8 list option" where
  "get_client_name ip client_name =
     do { n \<leftarrow> strlen ip;
          if n > 5 then copy_to client_name 0 (take (n + 1) ip)
          else copy_to client_name 0 (literal ''no name'' @ [0]) }"

text \<open>
  \<open>sendMessageToPeer\<close>. The message queue of a peer and the format of a message belong to a part of the
  system that is not in the repository: \<open>prepare\<close> makes a message from a buffer and a size,
  \<open>message_size\<close> is the size field, and \<open>enqueue\<close> gives the result and the peer afterwards.
  \<open>read_buffer\<close> is what the local array happens to hold; nothing is ever read into it.
\<close>

record ('m, 'p) peer_queue =
  prepare :: "u8 list \<Rightarrow> int \<Rightarrow> 'm"
  message_size :: "'m \<Rightarrow> int"
  enqueue :: "'p \<Rightarrow> 'm \<Rightarrow> int \<Rightarrow> int \<times> 'p"

definition sendMessageToPeer :: "('m, 'p) peer_queue \<Rightarrow> u8 list \<Rightarrow> 'p \<Rightarrow> u8 list \<Rightarrow> int \<Rightarrow> int \<times> 'p" where
  "sendMessageToPeer Q read_buffer client buffMsg sz =
     (let new_message = prepare Q read_buffer sz;
          (result, client) = enqueue Q client new_message (message_size Q new_message)
      in if result < 0 then (-1, client) else (0, client))"

section \<open>Strings\<close>

lemma before_zero: "0 \<notin> set s \<Longrightarrow> takeWhile (\<lambda>c. c \<noteq> 0) (s @ 0 # r) = (s :: u8 list)"
  by (induction s) auto

lemma strlen_string [simp]: "0 \<notin> set s \<Longrightarrow> strlen (s @ 0 # r) = Some (length s)"
  by (simp add: strlen_def before_zero)

lemma string_in_string [simp]: "0 \<notin> set s \<Longrightarrow> string_in (s @ 0 # r) = s"
  by (simp add: string_in_def before_zero)

lemma strlen_0 [simp]: "strlen (0 # r) = Some 0"
  by (simp add: strlen_def)

lemma strlen_cases:
  obtains "strlen b = None" "0 \<notin> set b"
  | s r where "b = s @ 0 # r" "0 \<notin> set s" "strlen b = Some (length s)" "string_in b = s"
proof (cases "0 \<in> set b")
  case True
  then obtain s r where "b = s @ 0 # r" "0 \<notin> set s" by (metis split_list_first)
  then show thesis using that(2) by simp
qed (simp add: strlen_def that(1))

text \<open>
  Concatenation writes every byte of its new block, within its bounds, and leaves the two
  strings in it one after the other.
\<close>

theorem concat_joins:
  assumes "malloc (length x + length y + 1) = Some b" "length b = length x + length y + 1"
    and "0 \<notin> set x" "0 \<notin> set y"
  shows "c_concat malloc (x @ 0 # r1) (y @ 0 # r2) = Some (x @ y @ [0])"
  using assms by (simp add: c_concat_def copy_to_def)

theorem concat_joins_witness:
  "c_concat (\<lambda>n. if n = 4 then Some [1, 2, 3, 4] else None) [72, 0, 9] [82, 70, 0] = Some [72, 82, 70, 0]"
  using concat_joins [of "\<lambda>n. if n = 4 then Some [1, 2, 3, 4] else None" "[72]" "[82, 70]" "[1, 2, 3, 4]" "[9]" "[]"]
  by simp

section \<open>Lines\<close>

lemma take_line_short:
  "10 \<notin> set line \<Longrightarrow> length line < n \<Longrightarrow> take_line n (line @ 10 # rest) = (line @ [10], rest)"
proof (induction line arbitrary: n)
  case Nil
  then show ?case by (cases n) simp_all
next
  case (Cons c line)
  then show ?case by (cases n) auto
qed

lemma take_line_long:
  "10 \<notin> set line \<Longrightarrow> n \<le> length line \<Longrightarrow> take_line n (line @ rest) = (take n line, drop n line @ rest)"
proof (induction line arbitrary: n)
  case Nil
  then show ?case by simp
next
  case (Cons c line)
  then show ?case by (cases n) auto
qed

lemma take_line_length: "length (fst (take_line n input)) \<le> n"
  by (induction n input rule: take_line.induct) (auto split: prod.split)

lemma skip_line_line: "10 \<notin> set line \<Longrightarrow> skip_line (line @ 10 # rest) = (line \<noteq> [], rest)"
  by (induction line) auto

lemma copy_string:
  assumes "length l < length b"
  shows "copy_to b 0 (l @ [0]) = Some (l @ 0 # drop (Suc (length l)) b)"
  using assms by (simp add: copy_to_def)

lemma get_line_outcome:
  assumes "0 \<notin> set line" "10 \<notin> set line" and sz: "2 \<le> sz" "sz \<le> length buff"
  shows "\<exists>buff'. getLine buff sz (line @ 10 # rest) =
      Some (if length line < sz then OK else TOO_LONG, buff', rest)
    \<and> length buff' = length buff \<and> string_in buff' = take (sz - 1) line \<and> strlen buff' \<noteq> None"
proof (cases "length line < sz - 1")
  case True
  define b where "b = line @ 10 # 0 # drop (Suc (Suc (length line))) buff"
  have "fgets buff sz (line @ 10 # rest) = Some (True, b, rest)"
    using True sz copy_string [of "line @ [10]" buff] take_line_short [OF assms(2) True, of rest]
    by (simp add: fgets_def b_def)
  moreover have "strlen b = Some (Suc (length line))"
    using strlen_string [of "line @ [10]"] assms(1) by (simp add: b_def)
  moreover have "b ! length line = 10" "b[length line := 0] = line @ 0 # 0 # drop (Suc (Suc (length line))) buff"
    by (simp_all add: b_def nth_append list_update_append)
  ultimately have "getLine buff sz (line @ 10 # rest) = Some (OK, line @ 0 # 0 # drop (Suc (Suc (length line))) buff, rest)"
    by (simp add: getLine_def)
  then show ?thesis using True sz assms(1) by auto
next
  case False
  define n where "n = sz - 1"
  have n: "0 < n" "n \<le> length line" "n < length buff" "sz = Suc n" using False sz by (simp_all add: n_def)
  define b where "b = take n line @ 0 # drop (Suc n) buff"
  have "fgets buff sz (line @ 10 # rest) = Some (True, b, drop n line @ 10 # rest)"
    using n copy_string [of "take n line" buff] take_line_long [OF assms(2) n(2), of "10 # rest"]
    by (auto simp: fgets_def b_def)
  moreover have no_zero: "0 \<notin> set (take n line)" using assms(1) by (meson in_set_takeD)
  then have "strlen b = Some n" using strlen_string [of "take n line"] n by (simp add: b_def min_absorb2)
  moreover have "b ! (n - 1) \<noteq> 10"
  proof -
    have "b ! (n - 1) = line ! (n - 1)" using n by (simp add: b_def nth_append)
    moreover have "line ! (n - 1) \<in> set line" using n by (intro nth_mem) simp
    ultimately show ?thesis using assms(2) by metis
  qed
  moreover have "skip_line (drop n line @ 10 # rest) = (n < length line, rest)"
    using skip_line_line [of "drop n line" rest] assms(2) in_set_dropD [of 10 n line] by (auto simp: linorder_not_le)
  ultimately have "getLine buff sz (line @ 10 # rest) = Some (if n < length line then TOO_LONG else OK, b, rest)"
    using n by (simp add: getLine_def)
  then show ?thesis using n no_zero by (auto simp: b_def)
qed

text \<open>
  C30. Whatever its length, a line of input without zero bytes is taken whole, with its line feed,
  so that the next call starts at the next line. The buffer holds the line up to its size; the
  line is reported as too long exactly when it did not fit.
\<close>

theorem get_line_takes_one_line:
  assumes "0 \<notin> set line" "10 \<notin> set line" "2 \<le> sz" "sz \<le> length buff"
  shows "\<exists>buff'. getLine buff sz (line @ 10 # rest) =
      Some (if length line < sz then OK else TOO_LONG, buff', rest)
    \<and> length buff' = length buff \<and> string_in buff' = take (sz - 1) line \<and> strlen buff' \<noteq> None"
  using assms by (rule get_line_outcome)

theorem get_line_takes_one_line_witness:
  "\<exists>buff'. getLine (replicate 3 170) 3 [104, 101, 108, 112, 10, 113, 10] = Some (TOO_LONG, buff', [113, 10])
    \<and> string_in buff' = [104, 101]"
  using get_line_takes_one_line [of "[104, 101, 108, 112]" 3 "replicate 3 170" "[113, 10]"] by auto

section \<open>Commands\<close>

lemma literal_words:
  "literal ''exit'' = [101, 120, 105, 116]" "literal ''quit'' = [113, 117, 105, 116]"
  "literal ''close'' = [99, 108, 111, 115, 101]" "literal ''help'' = [104, 101, 108, 112]"
  "literal ''h'' = [104]" "literal ''?'' = [63]" "literal ''c'' = [99]"
  by (simp_all add: literal_def)

definition closing :: "u8 list \<Rightarrow> bool" where
  "closing line \<longleftrightarrow> line \<in> {literal ''exit'', literal ''quit'', literal ''close''}"

definition asks_help :: "u8 list \<Rightarrow> bool" where
  "asks_help line \<longleftrightarrow> line \<in> {literal ''help'', literal ''h'', literal ''?''}"

text \<open>
  With a buffer for more than five bytes the client's command parser answers a line that fits with
  \<open>true\<close> exactly when it asks for help; a line that ends the connection ("exit", "quit", "close") makes
  it copy the buffer onto itself, which is undefined; "bye", which the prompt offers, is answered
  with \<open>false\<close> like any other text.
\<close>

theorem client_commands:
  assumes "0 \<notin> set line" "10 \<notin> set line" and sz: "6 \<le> sz" "sz \<le> length buff" and name: "0 \<in> set name"
  shows "if closing line then parseClientInput True name buff sz (line @ 10 # rest) = None
    else \<exists>buff'. parseClientInput True name buff sz (line @ 10 # rest) = Some (asks_help line, buff', rest)"
proof -
  from get_line_outcome [OF assms(1,2) _ sz(2), of rest] sz obtain buff' where
    get: "getLine buff sz (line @ 10 # rest) = Some (if length line < sz then OK else TOO_LONG, buff', rest)" and
    str: "string_in buff' = take (sz - 1) line" by auto
  from name obtain n where n: "strlen name = Some n" by (simp add: strlen_def)
  show ?thesis
  proof (cases "length line < sz")
    case True
    with str have "string_in buff' = line" by simp
    with True get n show ?thesis
      by (auto simp: parseClientInput_def equals_def closing_def asks_help_def)
  next
    case False
    then have "\<not> closing line" "\<not> asks_help line"
      using sz by (auto simp: closing_def asks_help_def literal_words)
    with False get n show ?thesis by (auto simp: parseClientInput_def)
  qed
qed

theorem client_commands_witness:
  "\<exists>buff'. parseClientInput True [72, 0] (replicate 10 0) 10 [98, 121, 101, 10] = Some (False, buff', [])"
  using client_commands [of "[98, 121, 101]" 10 "replicate 10 0" "[72, 0]" "[]"]
  by (simp add: closing_def asks_help_def literal_words)



text \<open>
  A line of input that starts with a zero byte makes \<open>getLine\<close> read the byte before its buffer.
\<close>

theorem zero_byte_underflows:
  assumes "2 \<le> sz" "sz \<le> length buff"
  shows "getLine buff sz (0 # input) = None"
proof -
  obtain l rest where "take_line (sz - 1) (0 # input) = (0 # l, rest)" "length (0 # l) \<le> sz - 1"
  proof -
    obtain m where m: "sz = Suc (Suc m)" using assms(1) by (metis add_2_eq_Suc le_Suc_ex)
    obtain l rest where l: "take_line m input = (l, rest)" by (cases "take_line m input")
    then show thesis using that [of l rest] take_line_length [of m input] by (simp add: m)
  qed
  then show ?thesis
    using assms copy_string [of "0 # l" buff] by (simp add: getLine_def fgets_def)
qed

theorem zero_byte_underflows_witness: "getLine (replicate 65 7) 65 [0, 10] = None"
  using zero_byte_underflows [of 65 "replicate 65 7" "[10]"] by simp

text \<open>A name is copied with its terminator, whatever the size of the destination.\<close>

lemma client_name:
  assumes "0 \<notin> set name"
  shows "get_client_name (name @ 0 # r) dest =
    (let x = (if 5 < length name then name else literal ''no name'')
     in if length x < length dest then Some (x @ 0 # drop (Suc (length x)) dest) else None)"
  using assms by (auto simp: get_client_name_def copy_to_def Let_def)

text \<open>
  What the caller of \<open>sendMessageToPeer\<close> wants to send plays no part; the result tells whether
  something has been queued.
\<close>

lemma message_of_caller_ignored:
  "sendMessageToPeer Q r client b sz = sendMessageToPeer Q r client b' sz"
  "fst (sendMessageToPeer Q r client b sz) = -1 \<longleftrightarrow> fst (enqueue Q client (prepare Q r sz) (message_size Q (prepare Q r sz))) < 0"
  by (auto simp: sendMessageToPeer_def Let_def split: prod.split)

end
