(* ===== verification/Bluetooth_Scan.thy ===== *)
theory Bluetooth_Scan
  imports Text_Utils
begin

text \<open>
  The program of bluetooth.c, which lists the Bluetooth devices in range. The Bluetooth library is a
  parameter; the program's own part is the use it makes of the answers and of its three buffers. The
  result is the exit code with what the program prints and gives back, in order.
\<close>

section \<open>The library and the output\<close>

type_synonym bdaddr = "u8 list"

text \<open>
  The answers of the library. \<open>inquiry\<close> gets the device, the length, the greatest number of
  responses and the flags, and whether there is an array for the responses; it gives the number of
  responses and the addresses in the array afterwards. \<open>remote_name\<close> is asked for the \<open>i\<close>-th time, for
  an address and with the size of the buffer; it gives its result and the bytes it has written.
\<close>

record bluetooth =
  get_route :: int
  open_dev :: "int \<Rightarrow> int"
  heap_left :: bool
  inquiry :: "int \<Rightarrow> int \<Rightarrow> int \<Rightarrow> int \<Rightarrow> bool \<Rightarrow> int \<times> bdaddr list"
  address_text :: "bdaddr \<Rightarrow> u8 list"
  remote_name :: "nat \<Rightarrow> bdaddr \<Rightarrow> nat \<Rightarrow> int \<times> u8 list"

datatype scan_event =
    Device_id int
  | Socket int
  | Perror string
  | Found "u8 list" "u8 list"
  | Free_responses
  | Close_socket int

definition IREQ_CACHE_FLUSH :: int where
  "IREQ_CACHE_FLUSH = 1"

section \<open>The program\<close>

text \<open>A C string as \<open>printf\<close> reads it.\<close>

definition printed :: "u8 list \<Rightarrow> u8 list option" where
  "printed b = (if 0 \<in> set b then Some (string_in b) else None)"

text \<open>
  The body of the loop for response \<open>i\<close>. The buffer \<open>addr\<close> keeps the text of the response before;
  \<open>name\<close> is cleared first.
\<close>

definition scan_response :: "bluetooth \<Rightarrow> bdaddr list \<Rightarrow> nat \<Rightarrow> u8 list \<Rightarrow> (scan_event \<times> u8 list) option" where
  "scan_response B ii i addr =
     (if i < length ii
      then do { addr \<leftarrow> copy_to addr 0 (address_text B (ii ! i) @ [0]);
                let (result, bytes) = remote_name B i (ii ! i) 248;
                name \<leftarrow> copy_to (replicate 248 0) 0 bytes;
                name \<leftarrow> (if result < 0 then copy_to name 0 (literal ''[unknown]'' @ [0]) else Some name);
                a \<leftarrow> printed addr;
                n \<leftarrow> printed name;
                Some (Found a n, addr) }
      else None)"

fun scan_responses :: "bluetooth \<Rightarrow> bdaddr list \<Rightarrow> nat list \<Rightarrow> u8 list \<Rightarrow> scan_event list option" where
  "scan_responses B ii [] addr = Some []"
| "scan_responses B ii (i # is) addr =
     do { (event, addr) \<leftarrow> scan_response B ii i addr;
          events \<leftarrow> scan_responses B ii is addr;
          Some (event # events) }"

definition bluetooth_main :: "bluetooth \<Rightarrow> (int \<times> scan_event list) option" where
  "bluetooth_main B =
     (let dev_id = get_route B;
          sock = open_dev B dev_id;
          out = [Device_id dev_id, Socket sock]
      in if dev_id < 0 \<or> sock < 0 then Some (1, out @ [Perror ''opening socket''])
         else let (num_rsp, ii) = inquiry B dev_id 8 255 IREQ_CACHE_FLUSH (heap_left B);
                  out = (if num_rsp < 0 then out @ [Perror ''hci_inquiry''] else out)
              in do { events \<leftarrow> scan_responses B ii [0..<nat num_rsp] (replicate 19 0);
                      Some (0, out @ events @ [Free_responses, Close_socket sock]) })"

section \<open>What it lists\<close>

text \<open>
  The documented behaviour of the library: an address is written as 17 characters, the responses are
  in the array, and a name fits the buffer and is terminated when the request succeeds.
\<close>

definition documented_bluetooth :: "bluetooth \<Rightarrow> bool" where
  "documented_bluetooth B \<longleftrightarrow>
     (\<forall>a. length (address_text B a) = 17 \<and> 0 \<notin> set (address_text B a)) \<and>
     (\<forall>d l m f h. case inquiry B d l m f h of (n, ii) \<Rightarrow> nat n \<le> length ii) \<and>
     (\<forall>i a n. case remote_name B i a n of (result, bytes) \<Rightarrow> length bytes \<le> n \<and> (0 \<le> result \<longrightarrow> 0 \<in> set bytes))"

definition response_line :: "bluetooth \<Rightarrow> bdaddr list \<Rightarrow> nat \<Rightarrow> scan_event" where
  "response_line B ii i =
     (case remote_name B i (ii ! i) 248 of (result, bytes) \<Rightarrow>
        Found (address_text B (ii ! i)) (if result < 0 then literal ''[unknown]'' else string_in bytes))"

lemma documented_bluetoothD:
  assumes "documented_bluetooth B"
  shows "length (address_text B a) = 17" "0 \<notin> set (address_text B a)"
    and "inquiry B d l m f h = (n, ii) \<Longrightarrow> nat n \<le> length ii"
    and "remote_name B i a k = (result, bytes) \<Longrightarrow> length bytes \<le> k \<and> (0 \<le> result \<longrightarrow> 0 \<in> set bytes)"
proof -
  show "length (address_text B a) = 17" "0 \<notin> set (address_text B a)"
    using assms by (simp_all add: documented_bluetooth_def)
  have "case inquiry B d l m f h of (n, ii) \<Rightarrow> nat n \<le> length ii" using assms by (simp only: documented_bluetooth_def)
  then show "nat n \<le> length ii" if "inquiry B d l m f h = (n, ii)" using that by simp
  have "case remote_name B i a k of (result, bytes) \<Rightarrow> length bytes \<le> k \<and> (0 \<le> result \<longrightarrow> 0 \<in> set bytes)"
    using assms by (simp only: documented_bluetooth_def)
  then show "length bytes \<le> k \<and> (0 \<le> result \<longrightarrow> 0 \<in> set bytes)" if "remote_name B i a k = (result, bytes)"
    using that by simp
qed

lemma string_in_terminated: "0 \<in> set xs \<Longrightarrow> string_in (xs @ ys) = string_in xs"
  by (simp add: string_in_def takeWhile_append1)

lemma copy_to_front: "length xs \<le> length b \<Longrightarrow> copy_to b 0 xs = Some (xs @ drop (length xs) b)"
  by (simp add: copy_to_def)

lemma unknown_text: "length (literal ''[unknown]'') = 9" "0 \<notin> set (literal ''[unknown]'')"
  by (simp_all add: literal_def of_char_def)

lemma scan_response_line:
  assumes "documented_bluetooth B" "i < length ii" "length addr = 19"
  shows "\<exists>addr'. scan_response B ii i addr = Some (response_line B ii i, addr') \<and> length addr' = 19"
proof -
  obtain result bytes where name: "remote_name B i (ii ! i) 248 = (result, bytes)" by fastforce
  have txt17: "length (address_text B (ii ! i)) = 17" "0 \<notin> set (address_text B (ii ! i))"
    by (rule documented_bluetoothD [OF assms(1)])+
  have bytes: "length bytes \<le> 248" "0 \<le> result \<longrightarrow> 0 \<in> set bytes"
    using documented_bluetoothD(4) [OF assms(1) name] by simp_all
  have addr: "copy_to addr 0 (address_text B (ii ! i) @ [0]) = Some (address_text B (ii ! i) @ 0 # drop 18 addr)"
    using txt17(1) assms(3) by (simp add: copy_to_front)
  have buf: "copy_to (replicate 248 0) 0 bytes = Some (bytes @ replicate (248 - length bytes) 0)"
    using bytes(1) by (simp add: copy_to_front)
  have unknown: "copy_to (bytes @ replicate (248 - length bytes) 0) 0 (literal ''[unknown]'' @ [0]) =
      Some (literal ''[unknown]'' @ 0 # drop 10 (bytes @ replicate (248 - length bytes) 0))"
    using bytes(1) unknown_text(1) by (simp add: copy_to_front)
  show ?thesis
    using assms(2,3) txt17 bytes(2) addr buf unknown unknown_text(2)
    by (auto simp: scan_response_def name response_line_def printed_def string_in_terminated not_less)
qed

lemma scan_responses_lines:
  assumes "documented_bluetooth B"
  shows "\<forall>i \<in> set is. i < length ii \<Longrightarrow> length addr = 19 \<Longrightarrow> scan_responses B ii is addr = Some (map (response_line B ii) is)"
proof (induction "is" arbitrary: addr)
  case (Cons i "is")
  then show ?case using scan_response_line [OF assms, of i ii addr] by fastforce
qed simp

text \<open>
  C32. With a library that behaves as documented the Bluetooth scan always ends within its buffers.
  Without an adapter, or when it cannot be opened, it says so, exits with 1 and asks for nothing
  more. Otherwise it exits with 0, also when the inquiry fails; it prints one line for every response
  in their order, each with the device's own address and its own name, \<open>[unknown]\<close> when the name
  cannot be read, and never a rest of the line before; and the last things it does are to give back
  the responses and to close the socket.
\<close>

theorem scan_lists_every_response:
  assumes "documented_bluetooth B"
  shows "bluetooth_main B =
    (let d = get_route B; sock = open_dev B d; (n, ii) = inquiry B d 8 255 IREQ_CACHE_FLUSH (heap_left B)
     in Some (if d < 0 \<or> sock < 0 then (1, [Device_id d, Socket sock, Perror ''opening socket''])
        else (0, [Device_id d, Socket sock] @ (if n < 0 then [Perror ''hci_inquiry''] else []) @
                 map (response_line B ii) [0..<nat n] @ [Free_responses, Close_socket sock])))"
proof -
  obtain n ii where inq: "inquiry B (get_route B) 8 255 IREQ_CACHE_FLUSH (heap_left B) = (n, ii)" by fastforce
  then have "nat n \<le> length ii" by (rule documented_bluetoothD(3) [OF assms])
  then have "scan_responses B ii [0..<nat n] (replicate 19 0) = Some (map (response_line B ii) [0..<nat n])"
    by (intro scan_responses_lines [OF assms]) auto
  then show ?thesis unfolding bluetooth_main_def Let_def inq prod.case by simp
qed

text \<open>Two devices answer; the first does not tell its name.\<close>

definition two_phones :: bluetooth where
  "two_phones = \<lparr>get_route = 0, open_dev = (\<lambda>d. d + 3), heap_left = True,
     inquiry = (\<lambda>d l m f h. (2, [[1, 2, 3, 4, 5, 6], [7, 8, 9, 10, 11, 12]])),
     address_text = (\<lambda>a. replicate 17 65),
     remote_name = (\<lambda>i a n. if i = 0 then (-1, []) else if n < 4 then (-1, []) else (0, [80, 111, 99, 0]))\<rparr>"

theorem scan_lists_every_response_witness:
  "bluetooth_main two_phones = Some (0, [Device_id 0, Socket 3, Found (replicate 17 65) (literal ''[unknown]''),
     Found (replicate 17 65) [80, 111, 99], Free_responses, Close_socket 3])"
proof -
  have "documented_bluetooth two_phones" by (auto simp: documented_bluetooth_def two_phones_def)
  from scan_lists_every_response [OF this] show ?thesis
    by (simp add: two_phones_def response_line_def string_in_def upt_rec)
qed

end
