(* ===== verification/Message_Encoding.thy ===== *)
theory Message_Encoding
  imports Number_Parsing
begin

text \<open>
  The encoders of common_hackrf.h that are C functions: \<open>ullx\<close>, which prints a number in
  hexadecimal into a static buffer, and the serialisation of 64-bit and 16-bit values.
\<close>

section \<open>Printing in hexadecimal\<close>

definition hex_digit :: "u64 \<Rightarrow> u8" where
  "hex_digit d = map of_char ''0123456789abcdef'' ! unat d"

text \<open>The loop writes at \<open>out\<close> and moves down; a write below the buffer is undefined.\<close>

function hex_loop :: "u64 \<Rightarrow> int \<Rightarrow> u8 list \<Rightarrow> (int \<times> u8 list) option" where
  "hex_loop hval out buf =
     (if out < 0 then None
      else let buf = buf[nat out := hex_digit (hval mod 16)];
               out = out - 1;
               hval = hval div 16
           in if hval \<noteq> 0 then hex_loop hval out buf else Some (out, buf))"
  by pat_completeness auto
termination
  by (relation "measure (\<lambda>(hval, out, buf). nat (out + 1))") auto

declare hex_loop.simps [simp del]

text \<open>The position of the result in the static buffer of 34 bytes, and the buffer.\<close>

definition ullx :: "u64 \<Rightarrow> u8 list \<Rightarrow> (nat \<times> u8 list) option" where
  "ullx v buf =
     do { (out, buf) \<leftarrow> hex_loop v 33 buf;
          if out < 1 then None
          else let buf = buf[nat out := 120];
                   out = out - 1;
                   buf = buf[nat out := 48]
               in Some (nat out, buf) }"

section \<open>Serialisation\<close>

definition serialize_uint64 :: "u8 list \<Rightarrow> u64 \<Rightarrow> u8 list option" where
  "serialize_uint64 buff v =
     (if length buff < 10 then None
      else Some (map (\<lambda>k. ucast (drop_bit k v)) [56, 48, 40, 32, 24, 16, 8, 16, 24, 16] @ drop 10 buff))"

text \<open>\<open>val\<close> is promoted to an \<open>int\<close> of 32 bits; shifting it by 56 is undefined.\<close>

definition serialize_uint16 :: "u8 list \<Rightarrow> u16 \<Rightarrow> u8 list option" where
  "serialize_uint16 buff v =
     (if \<forall>k \<in> set [56, 48, 40, 32, 24, 16, 8, 16, 24, 16]. k < (32 :: nat)
      then Some (map (\<lambda>k. ucast (drop_bit k v)) [56, 48, 40, 32, 24, 16, 8, 16, 24, 16] @ drop 10 buff) else None)"

section \<open>The printed number\<close>

lemma hex_digit_char: "hex_digit (v mod 16) = digit_char (unat v mod 16)"
proof -
  have "unat (v mod 16) = unat v mod 16" by (simp add: unat_mod)
  moreover have "map of_char ''0123456789abcdef'' ! d = digit_char d" if "d < 16" for d
  proof -
    have "d \<in> set [0..<16]" using that by simp
    then show ?thesis by (simp add: upt_rec digit_char_def) (elim disjE; simp)
  qed
  ultimately show ?thesis by (simp add: hex_digit_def)
qed

lemma print_number_length: "n < base ^ k \<Longrightarrow> 0 < k \<Longrightarrow> length (print_number base n) \<le> k"
proof (induction k arbitrary: n)
  case (Suc k)
  show ?case
  proof (cases "base < 2 \<or> n < base")
    case True
    then show ?thesis by (subst print_number.simps) simp
  next
    case False
    with Suc.prems have "n div base < base ^ k" "0 < k"
      by (auto simp: less_mult_imp_div_less mult.commute intro!: Nat.gr0I)
    with Suc.IH [of "n div base"] False show ?thesis by (subst print_number.simps) simp
  qed
qed simp

lemma hex_loop_prints:
  assumes "length (print_number 16 (unat v)) \<le> Suc n" "n < length buf"
  shows "hex_loop v (int n) buf =
    Some (int n - int (length (print_number 16 (unat v))),
          take (Suc n - length (print_number 16 (unat v))) buf @ print_number 16 (unat v) @ drop (Suc n) buf)"
  using assms
proof (induction n arbitrary: v buf)
  case (0 v buf)
  then have one: "length (print_number 16 (unat v)) = 1"
    by (metis One_nat_def Suc_leI le_antisym length_greater_0_conv print_number_not_Nil)
  then have "unat v < 16" by (subst (asm) print_number.simps) (auto split: if_splits)
  then have "v div 16 = 0" by (simp add: word_unat_eq_iff unat_div)
  with \<open>unat v < 16\<close> 0 show ?case
    by (subst hex_loop.simps, subst print_number.simps) (simp add: hex_digit_char Let_def upd_conv_take_nth_drop print_number.simps [of 16 "unat v"])
next
  case (Suc n v buf)
  let ?c = "digit_char (unat v mod 16)"
  have step: "hex_loop v (int (Suc n)) buf =
      (if v div 16 \<noteq> 0 then hex_loop (v div 16) (int n) (buf[Suc n := ?c]) else Some (int n, buf[Suc n := ?c]))"
    by (subst hex_loop.simps) (simp add: hex_digit_char Let_def nat_add_distrib)
  show ?case
  proof (cases "unat v < 16")
    case True
    then have "v div 16 = 0" by (simp add: word_unat_eq_iff unat_div)
    with True Suc.prems show ?thesis
      unfolding step by (simp add: upd_conv_take_nth_drop print_number.simps [of 16 "unat v"])
  next
    case False
    then have "unat (v div 16) \<noteq> 0" by (simp add: unat_div)
    then have nz: "v div 16 \<noteq> 0" by auto
    have d: "print_number 16 (unat v) = print_number 16 (unat (v div 16)) @ [?c]"
      using False by (subst print_number.simps) (simp add: unat_div)
    with Suc.prems have "length (print_number 16 (unat (v div 16))) \<le> Suc n" "n < length (buf[Suc n := ?c])"
      by simp_all
    from Suc.IH [OF this] nz Suc.prems show ?thesis
      unfolding step d by (simp add: upd_conv_take_nth_drop)
  qed
qed

text \<open>
  C38. \<open>ullx\<close> stays inside its buffer of 34 bytes and leaves the prefix 0x and the hexadecimal digits of the
  number, without leading zeros, at its end; no zero byte follows them, so that reading the result as
  a string leaves the buffer.
\<close>

theorem ullx_unterminated:
  assumes "length buf = 34"
  shows "\<exists>i buf'. ullx v buf = Some (i, buf') \<and> length buf' = 34 \<and>
    drop i buf' = [48, 120] @ print_number 16 (unat v) \<and> 0 \<notin> set (drop i buf')"
proof -
  let ?d = "print_number 16 (unat v)"
  have "unat v < 16 ^ 16" using unsigned_less [of v] by simp
  then have len: "length ?d \<le> 16" by (rule print_number_length) simp
  define n where "n = 34 - length ?d"
  have n: "18 \<le> n" "n + length ?d = 34" using len by (simp_all add: n_def)
  have "hex_loop v (int 33) buf = Some (int 33 - int (length ?d), take (Suc 33 - length ?d) buf @ ?d @ drop (Suc 33) buf)"
    using len assms by (intro hex_loop_prints) simp_all
  then have loop: "hex_loop v 33 buf = Some (int (n - 1), take n buf @ ?d)"
    using n assms by (simp add: n_def of_nat_diff)
  have above: "n - 1 = Suc (n - 2)" using n by simp
  define xs where "xs = take n buf @ ?d"
  have "length xs = 34" using n assms by (simp add: xs_def)
  have run: "ullx v buf = Some (n - 2, xs[n - 1 := 120, n - 2 := 48])"
    using n unfolding ullx_def loop xs_def [symmetric] by (simp add: nat_diff_distrib)
  have "drop (n - 2) (xs[n - 1 := 120, n - 2 := 48]) = [48, 120] @ ?d"
  proof (rule nth_equalityI)
    show "length (drop (n - 2) (xs[n - 1 := 120, n - 2 := 48])) = length ([48, 120] @ ?d)"
      using n \<open>length xs = 34\<close> by simp
  next
    fix j assume "j < length (drop (n - 2) (xs[n - 1 := 120, n - 2 := 48]))"
    then have j: "j < 2 + length ?d" using n \<open>length xs = 34\<close> by simp
    consider "j = 0" | "j = 1" | m where "j = Suc (Suc m)" by (metis One_nat_def not0_implies_Suc)
    then show "drop (n - 2) (xs[n - 1 := 120, n - 2 := 48]) ! j = ([48, 120] @ ?d) ! j"
    proof cases
      case 3
      then have "n - 2 + j = n + m" using n by simp
      with 3 j n assms show ?thesis by (simp add: xs_def nth_list_update nth_append)
    qed (use n \<open>length xs = 34\<close> above in \<open>simp_all add: nth_list_update\<close>)
  qed
  moreover have "0 \<notin> set ?d"
    using print_number_digits [of 16 "unat v"] by (auto simp: digit_value_def dest!: bspec [of _ _ 0])
  ultimately show ?thesis
    using run \<open>length xs = 34\<close> by (intro exI [of _ "n - 2"] exI [of _ "xs[n - 1 := 120, n - 2 := 48]"]) simp
qed

theorem ullx_unterminated_witness:
  "\<exists>i buf'. ullx 0xC0FFEE (replicate 34 0) = Some (i, buf') \<and> 0 \<notin> set (drop i buf')"
  using ullx_unterminated [of "replicate 34 0" "0xC0FFEE"] by auto

text \<open>
  Two values are serialised to the same bytes exactly when they agree above their lowest byte:
  \<open>serialize_uint64\<close> never writes that byte, and the three bytes that it appends repeat others.
\<close>

theorem serialize_loses_low_byte:
  assumes "10 \<le> length buff"
  shows "serialize_uint64 buff v = serialize_uint64 buff w \<longleftrightarrow> drop_bit 8 v = drop_bit 8 w"
proof
  assume "serialize_uint64 buff v = serialize_uint64 buff w"
  then have "(ucast (drop_bit (8 * j) v) :: u8) = ucast (drop_bit (8 * j) w)" if "j \<in> {1, 2, 3, 4, 5, 6, 7}" for j
    using that assms by (auto simp: serialize_uint64_def)
  then have byte: "bit v (8 * j + m) = bit w (8 * j + m)" if "j \<in> {1, 2, 3, 4, 5, 6, 7}" "m < 8" for j m
    using that by (auto simp: bit_eq_iff bit_simps add.commute)
  show "drop_bit 8 v = drop_bit 8 w"
  proof (rule bit_word_eqI)
    fix n assume "n < LENGTH(64)"
    show "bit (drop_bit 8 v) n = bit (drop_bit 8 w) n"
    proof (cases "8 + n < 64")
      case True
      then have "(8 + n) div 8 < 8" "1 \<le> (8 + n) div 8" by (simp_all add: less_mult_imp_div_less)
      then have "(8 + n) div 8 \<in> {1, 2, 3, 4, 5, 6, 7}" by auto
      then have "bit v (8 * ((8 + n) div 8) + (8 + n) mod 8) = bit w (8 * ((8 + n) div 8) + (8 + n) mod 8)"
        by (rule byte) simp
      then show ?thesis unfolding mult_div_mod_eq by (simp add: bit_simps)
    next
      case False
      then show ?thesis by (auto simp: bit_simps dest!: bit_imp_le_length)
    qed
  qed
next
  assume eq: "drop_bit 8 v = drop_bit 8 w"
  have "drop_bit (8 + k) v = drop_bit (8 + k) w" for k
    using arg_cong [OF eq, of "drop_bit k"] by (simp add: drop_bit_drop_bit add.commute)
  from this [of 48] this [of 40] this [of 32] this [of 24] this [of 16] this [of 8] this [of 0]
  show "serialize_uint64 buff v = serialize_uint64 buff w" by (simp add: serialize_uint64_def)
qed

theorem serialize_loses_low_byte_witness:
  "serialize_uint64 (replicate 10 0) 0x1234 = serialize_uint64 (replicate 10 0) 0x12FF"
  using serialize_loses_low_byte [of "replicate 10 0" "0x1234" "0x12FF"] by simp

text \<open>The 16-bit encoder is undefined for every value.\<close>

lemma serialize_uint16_undefined: "serialize_uint16 buff v = None"
  by (simp add: serialize_uint16_def)

end
