(* ===== verification/Spec2Isabelle.thy ===== *)
theory Spec2Isabelle
  imports Request_Results Sample_Rate Cpld_Update Lifecycle_Results System Enumeration Number_Parsing Sweep_Plan
    Receiver_Shape Sweep_Coverage Sweep_Driver Sweep_Windows Sweep_Service
    Fractional_Rate Device_Table Admin_Client Text_Utils Bluetooth_Scan Message_Encoding
begin

text \<open>
  This development models the host side of HackRF, a software-defined radio on USB: the library
  libhackrf (\<open>src/src/lib/hackrf/hackrf.c\<close> with \<open>src/include/hackrf.h\<close>), the sweep command that
  uses it (\<open>hackrf_sweep.c\<close>, \<open>hackrf_sweep_svc.c\<close> in the same directory), and the helpers around
  them (\<open>src/src/lib/utils.c\<close>, \<open>src/src/adm/hackrf_admin.c\<close>, \<open>src/src/comm/client.c\<close>,
  \<open>src/src/comm/bluetooth.c\<close>, \<open>src/include/common_hackrf.h\<close>).

  \<^bold>\<open>The program.\<close> A client opens a device, sends it requests (frequency, gain, sample rate, flash and
  CPLD contents), and starts a stream: the library keeps four transfers of sample memory submitted
  and runs an event thread that hands each completed one to the client's callback, until the callback
  or a call of the client ends the stream. The sweep command is such a client: it lets the device hop
  over a range of frequencies, and its callback turns the blocks of samples into lines of a spectrum.

  \<^bold>\<open>The state.\<close> \<open>Host.lib\<close> has the three static variables of hackrf.c (\<open>open_devices\<close>,
  \<open>g_libusb_context\<close>, \<open>last_libusb_error\<close>) and the heap as far as the library uses it: the open
  \<open>hackrf_device\<close> structures by address, the USB transfers by address, the live USB handles, and the
  set of transfers that are submitted. \<open>trace\<close> is the list of the calls to the outside so far. Each
  operation is a function from its arguments and the state to \<open>option\<close>: \<open>None\<close> is undefined
  behaviour of C (a dangling or null pointer, an access outside a block, a shift out of range), and
  every status of the library is an ordinary value of \<open>hackrf_error\<close>.

  \<^bold>\<open>What is outside.\<close> libusb, the allocator, the threads and the client's callback are one parameter, a
  \<open>host\<close>: a function that answers each call from the calls before it, so that a theorem about every
  host covers every behaviour of the environment, including failures at any point. An answer also
  says which transfers complete meanwhile. Documented behaviour that a theorem needs is a named
  hypothesis: \<open>accepting\<close> (libusb takes the transfers that are submitted), \<open>bounded_answers\<close> (no more bytes
  than asked for), \<open>cached_descriptors\<close> (the descriptor of a listed device can be read). The byte order
  of the host is a parameter too.

  \<^bold>\<open>Threads.\<close> The event thread of a device is modelled by its passes through the loop of
  \<open>transfer_threadproc\<close>, which are interleaved with the calls of the client in any order
  (\<open>System.step\<close>); while the client waits in \<open>pthread_join\<close> the events that the host reports are
  delivered. Data races inside one call are not modelled.
\<close>

section \<open>The theories\<close>

text \<open>
  \<^item> \<open>Prelude\<close>: integer types, the discipline for undefined behaviour, byte encodings, collections of
    facts. \<open>Scenario\<close>: a host and a state for the examples.
  \<^item> \<open>Host\<close>: the data of hackrf.c and hackrf.h, the calls to the outside and their answers.
  \<^item> \<open>Transfers\<close>: \<open>allocate_transfers\<close>, \<open>prepare_transfers\<close>, \<open>cancel_transfers\<close>, \<open>free_transfers\<close>.
    \<open>Device_Open\<close>: \<open>detach_kernel_drivers\<close>, \<open>set_hackrf_configuration\<close>, \<open>hackrf_open_setup\<close>,
    \<open>hackrf_open\<close>, \<open>hackrf_open_usb\<close>, \<open>hackrf_open_by_serial\<close>. \<open>Streaming\<close>: the transfer callback, the event
    thread, starting, stopping, \<open>hackrf_is_streaming\<close>. \<open>Lifecycle\<close>: \<open>hackrf_init\<close>, \<open>hackrf_exit\<close>,
    \<open>hackrf_close\<close>, and the frame \<open>evolves\<close> of everything but opening and closing.
  \<^item> \<open>Request_Contract\<close>: the locales \<open>vendor_request\<close>, \<open>checked_request\<close>, \<open>gated_request\<close> and
    \<open>gain_request\<close>, the contracts of a request: it changes nothing but the trace and the last error, it
    is defined on an open device, it refuses bad arguments without a call, it sends one packet and
    reports what the device answered. \<open>Requests\<close> and \<open>Gated_Requests\<close> define the request routines and
    interpret the locales on each of them; the latter are those behind \<open>USB_API_REQUIRED\<close>.
    \<open>Request_Results\<close>: the packets on the wire, decoded again. \<open>Cpld_Update\<close>: \<open>hackrf_cpld_write\<close>.
    \<open>Baseband_Filter\<close>: the two searches of the table of filters. \<open>Sample_Rate\<close>: the packets and the
    automatic filter of \<open>hackrf_set_sample_rate_manual\<close>. \<open>Fractional_Rate\<close>: \<open>hackrf_set_sample_rate\<close>.
  \<^item> \<open>Library_Invariant\<close>: the well-formedness \<open>lib_ok\<close> of the library and its preservation.
    \<open>Streaming_Results\<close>, \<open>Lifecycle_Results\<close>: the outcome of each operation on every branch.
    \<open>System\<close>: calls and passes as a step relation, its reachable states, and the clients that keep to
    the documented use. \<open>Device_Table\<close>: the abstract machine that the library refines.
    \<open>Enumeration\<close>: the device list and the tables of names.
  \<^item> \<open>Number_Parsing\<close>: \<open>parse_u32\<close> and \<open>parse_u32_range\<close>. \<open>Sweep_Plan\<close>: the checks and the plan of a
    sweep. \<open>Sweep_Callback\<close>: \<open>rx_callback\<close>. \<open>Receiver_Shape\<close>: what it preserves. \<open>Sweep_Driver\<close>:
    \<open>InitHackRFDevice\<close>, \<open>hackRFSweepThread\<close> and \<open>hackrf_sweep\<close> with its monitor loop.
    \<open>Sweep_Coverage\<close>: the callback over all transfers of a stream, and what a sweep shows of the ranges
    that were planned. \<open>Sweep_Windows\<close>: the clock and the Ctrl-C handler for Windows.
    \<open>Sweep_Service\<close>: \<open>CheckHackRFStatus\<close>.
  \<^item> \<open>Text_Utils\<close>: utils.c, \<open>get_client_name\<close> and \<open>sendMessageToPeer\<close>. \<open>Bluetooth_Scan\<close>: bluetooth.c, with
    the Bluetooth library as a parameter and \<open>documented_bluetooth\<close> as its contract. \<open>Message_Encoding\<close>: \<open>ullx\<close> and the serialisation of
    common_hackrf.h. \<open>Admin_Client\<close>: \<open>ConnectHackRFDevice\<close>.
\<close>

section \<open>What the theorems show\<close>

text \<open>
  \<^item> Invariants and safety: every reachable state is well-formed (each open device has its own handle
    and four transfers on disjoint parts of its sample memory, and is counted); a client that keeps
    to the documented use is never stuck; opening is all or nothing, closing gives everything back,
    stopping joins the thread and cancels the transfers.
  \<^item> Refinement: seen from outside, the library is a table of devices with one phase each; the text
    output of the sweep callback is that of a specification on the headers of the blocks alone.
    Put together with the plan of the ranges and the hops of the device, the lines of a one-shot sweep
    cover each requested frequency once.
  \<^item> Functional results and round trips: the device list, the packets of the requests, the flash of the
    CPLD, the choice of filters and of the divider of a fractional sample rate, the frequencies of the
    sweep's lines, the reading of lines.
  \<^item> Termination: the event thread ends after an error; the monitor loop of a sweep returns exactly
    when the stream ends, data stop or an exit is requested; a signal always ends a sweep.
  \<^item> Bounds and errors: which inputs make the code leave its buffers or its integers, and which
    failures leave the library in a state that its client does not expect. These are theorems about
    the code as it is; the manifest of the development lists them as findings.
\<close>

section \<open>Bounds, loops and numbers\<close>

text \<open>
  Loops over a fixed range are recursion over the list of indices; the loops that walk a table, a
  string or a chunked buffer have a measure. The monitor loop of the sweep may run for ever and is a
  \<open>partial_function (option)\<close>: not returning is \<open>None\<close>, and a theorem says exactly when it
  returns. \<open>transfer_threadproc\<close> is defined in the same way, with a theorem that an error ends it;
  \<open>System\<close> uses its single passes only. Machine integers are words of their width, except for values of
  \<open>int\<close> that the code keeps far from its limits, which are of type \<open>int\<close>, and sizes and indices, which are
  \<open>nat\<close>. Doubles appear in two places: the bandwidth of \<open>hackrf_set_sample_rate_manual\<close>, whose integer form is
  justified in \<open>Sample_Rate\<close>, and \<open>hackrf_set_sample_rate\<close>, whose operations are carried out on exact multiples of
  \<open>2 ^ -56\<close> and rounded to 53 bits each, as IEEE 754 double arithmetic does.
\<close>

section \<open>Not modelled\<close>

text \<open>
  \<^item> What is printed, the elapsed time and the sweep rate.
  \<^item> The floating-point spectrum of the sweep (FFTW, the window, \<open>logPower\<close>): a parameter of the
    callback. The contents of its arrays; \<open>sweep\<close> counts the blocks that are allocated, and an allocation
    is taken to succeed, as the code does.
  \<^item> \<open>hackrf_library_version\<close> and \<open>hackrf_library_release\<close>: strings that the build sets.
  \<^item> Lines 395 to 417 of hackrf_sweep.c, \<open>StartHackRFSweepService\<close>, most of hackrf_admin.c, client.c,
    hackrf_plugin.c and of the functions of common_hackrf.h: not C (undeclared identifiers, unbalanced
    parentheses, a type used as a value), so that they have no meaning to translate.
  \<^item> The sockets of client.c, hackrf_passmanager.c: input and output of other libraries.
    The macros of endian.h: other names for the byte swaps of macOS, which no C file uses.
\<close>

end
